(* ===== verification/Cdc_Prelude.thy ===== *)
theory Cdc_Prelude
  imports Main "HOL-Library.Word"
begin

text \<open>
  Shared material of the development: bytes and byte strings, the positions and sizes of
  \<open>std::basic_string\<close> and its operations \<open>at\<close>, \<open>substr\<close>, \<open>find\<close> and \<open>erase\<close>, the
  bind of computations that may throw, and the fact collections the component theories
  fill (\<open>cdc_defs\<close>: definitions that a component's proofs unfold together;
  \<open>cdc_table\<close>: evaluated look-ups in the parser's tables).

  A \<open>size_t\<close> is a 64 bit word, as on the platforms the library is built for, so that
  \<open>npos\<close> and the wrap-around of \<open>length() - 1 - pos\<close> are the code's own.
\<close>

named_theorems cdc_defs
named_theorems cdc_table

section \<open>Bytes and byte strings\<close>

type_synonym byte = "8 word"
type_synonym ustring = "byte list"
type_synonym size_t = "64 word"

text \<open>The carriage return that ends every message of the protocol.\<close>

abbreviation CR :: byte where
  "CR \<equiv> 13"

text \<open>A string literal as unsigned characters (\<open>uchar_str\<close>).\<close>

definition uchar_str :: "string \<Rightarrow> ustring" where
  "uchar_str s = map of_char s"

lemma uchar_str_Nil [simp]: "uchar_str [] = []"
  by (simp add: uchar_str_def)

lemma uchar_str_Cons [simp]: "uchar_str (c # s) = of_char c # uchar_str s"
  by (simp add: uchar_str_def)

lemma uchar_str_eq_Nil [simp]: "uchar_str s = [] \<longleftrightarrow> s = []"
  by (simp add: uchar_str_def)

lemma length_uchar_str [simp]: "length (uchar_str s) = length s"
  by (simp add: uchar_str_def)

section \<open>Exceptions other than the library's own\<close>

text \<open>
  The standard library's exceptions that the modelled code can raise, and undefined
  behaviour, each a value: a model function that returns \<open>UndefinedBehaviour\<close> marks an
  input on which the C++ program has no defined meaning. \<open>NotReturned\<close> marks a call that
  is still in progress when the script of system calls it is given ends.
\<close>

datatype 'x outcome_error =
    Thrown 'x
  | OutOfRange
  | BadAlloc
  | UndefinedBehaviour
  | NotReturned

section \<open>Sequencing\<close>

definition bindE :: "'e + 'a \<Rightarrow> ('a \<Rightarrow> 'e + 'b) \<Rightarrow> 'e + 'b" where
  "bindE m f = (case m of Inl e \<Rightarrow> Inl e | Inr x \<Rightarrow> f x)"

lemma bindE_Inl [simp]: "bindE (Inl e) f = Inl e"
  by (simp add: bindE_def)

lemma bindE_Inr [simp]: "bindE (Inr x) f = f x"
  by (simp add: bindE_def)

lemma bindE_eq_Inr: "bindE m f = Inr y \<longleftrightarrow> (\<exists>x. m = Inr x \<and> f x = Inr y)"
  by (cases m) auto

lemma bindE_cong [fundef_cong]:
  "m = m' \<Longrightarrow> (\<And>x. m' = Inr x \<Longrightarrow> f x = f' x) \<Longrightarrow> bindE m f = bindE m' f'"
  by (cases m') auto

section \<open>Operations of std::basic_string\<close>

definition npos :: size_t where
  "npos = - 1"

definition size_of :: "'a list \<Rightarrow> size_t" where
  "size_of s = of_nat (length s)"

text \<open>\<open>s.at(i)\<close>: bounds-checked access.\<close>

definition str_at :: "ustring \<Rightarrow> nat \<Rightarrow> 'x outcome_error + byte" where
  "str_at s i = (if i < length s then Inr (s ! i) else Inl OutOfRange)"

text \<open>
  \<open>s.substr(pos, n)\<close> throws when \<open>pos\<close> is behind the end and otherwise takes at most
  \<open>n\<close> characters.
\<close>

definition substr :: "ustring \<Rightarrow> size_t \<Rightarrow> size_t \<Rightarrow> 'x outcome_error + ustring" where
  "substr s pos n =
     (if length s < unat pos then Inl OutOfRange
      else Inr (take (unat n) (drop (unat pos) s)))"

text \<open>\<open>s.find(c, from)\<close> as an index; \<open>None\<close> stands for \<open>npos\<close>.\<close>

fun find_from :: "byte \<Rightarrow> ustring \<Rightarrow> nat \<Rightarrow> nat option" where
  "find_from c [] i = None"
| "find_from c (x # xs) i = (if x = c then Some i else find_from c xs (Suc i))"

definition find_index :: "ustring \<Rightarrow> byte \<Rightarrow> nat \<Rightarrow> nat option" where
  "find_index s c from = find_from c (drop from s) from"

definition find_pos :: "ustring \<Rightarrow> byte \<Rightarrow> size_t \<Rightarrow> size_t" where
  "find_pos s c from =
     (case find_index s c (unat from) of None \<Rightarrow> npos | Some i \<Rightarrow> of_nat i)"

text \<open>\<open>s.erase(0, n)\<close>.\<close>

definition erase_front :: "nat \<Rightarrow> ustring \<Rightarrow> ustring" where
  "erase_front n s = drop n s"

section \<open>std::map and std::set\<close>

text \<open>\<open>std::map::insert\<close> keeps the value of a key that is already there.\<close>

definition insert_new :: "'k \<Rightarrow> 'v \<Rightarrow> ('k \<rightharpoonup> 'v) \<Rightarrow> ('k \<rightharpoonup> 'v)" where
  "insert_new k v m = (if m k = None then m(k \<mapsto> v) else m)"

lemma insert_new_apply:
  "insert_new k v m x = (if x = k \<and> m k = None then Some v else m x)"
  by (simp add: insert_new_def)

lemma fold_insert_new_apply:
  "fold (\<lambda>(k, v). insert_new k v) kvs m x =
     (case m x of Some v \<Rightarrow> Some v | None \<Rightarrow> map_of kvs x)"
  by (induction kvs arbitrary: m) (auto simp: insert_new_apply split: option.splits)

lemma fold_insert_new_empty: "fold (\<lambda>(k, v). insert_new k v) kvs Map.empty = map_of kvs"
  by (rule ext) (simp add: fold_insert_new_apply)

subsection \<open>Laws of the string operations\<close>

lemma str_at_Inr [simp]: "i < length s \<Longrightarrow> str_at s i = Inr (s ! i)"
  by (simp add: str_at_def)

lemma find_from_bounds:
  "find_from c xs i = Some k \<Longrightarrow> i \<le> k \<and> k < i + length xs \<and> xs ! (k - i) = c"
proof (induction c xs i rule: find_from.induct)
  case (2 c x xs i)
  then show ?case by (cases "x = c") (auto simp: nth_Cons' not_le)
qed simp

lemma find_from_None: "find_from c xs i = None \<longleftrightarrow> c \<notin> set xs"
  by (induction c xs i rule: find_from.induct) auto

lemma find_from_append_hit [simp]:
  "c \<notin> set ys \<Longrightarrow> find_from c (ys @ c # zs) i = Some (i + length ys)"
  by (induction ys arbitrary: i) auto

lemma find_from_first:
  "find_from c xs i = Some k \<Longrightarrow> i \<le> j \<Longrightarrow> j < k \<Longrightarrow> xs ! (j - i) \<noteq> c"
proof (induction c xs i rule: find_from.induct)
  case (2 c x xs i)
  then show ?case by (cases "x = c"; cases "j = i") (auto simp: nth_Cons')
qed simp

lemma find_index_bounds:
  assumes "find_index s c from = Some k"
  shows "from \<le> k" and "k < length s" and "s ! k = c"
proof -
  from assms have f: "find_from c (drop from s) from = Some k"
    by (simp add: find_index_def)
  from find_from_bounds [OF f]
  show "from \<le> k" and "k < length s" and "s ! k = c" by auto
qed

lemma find_index_None: "find_index s c from = None \<longleftrightarrow> c \<notin> set (drop from s)"
  by (simp add: find_index_def find_from_None)

lemma find_index_prefix [simp]:
  "length xs = from \<Longrightarrow> c \<notin> set ys \<Longrightarrow>
     find_index (xs @ ys @ c # zs) c from = Some (from + length ys)"
  by (simp add: find_index_def)

lemma length_erase_front [simp]: "length (erase_front n s) = length s - n"
  by (simp add: erase_front_def)

lemma drop_ConsD:
  assumes "drop i d = b # t"
  shows "i < length d" and "d ! i = b" and "drop (Suc i) d = t"
proof -
  show "i < length d" using assms by (metis drop_all leI list.distinct(1))
  show "d ! i = b" using assms by (rule nth_via_drop)
  show "drop (Suc i) d = t" using assms by (metis drop_Suc list.sel(3) tl_drop)
qed

text \<open>A text of characters that satisfy \<open>P\<close>, a separator, and the rest: the first step.\<close>

lemma split_at_Cons:
  "(\<exists>ys rest. list_all P ys \<and> b # w = ys @ c # rest \<and> Q rest) \<longleftrightarrow>
     b = c \<and> Q w \<or> P b \<and> (\<exists>ys rest. list_all P ys \<and> w = ys @ c # rest \<and> Q rest)"
  (is "?L \<longleftrightarrow> ?R")
proof
  assume ?L
  then obtain ys rest where l: "list_all P ys" "b # w = ys @ c # rest" "Q rest" by blast
  then show ?R by (cases ys) auto
next
  assume ?R
  then show ?L
  proof (elim disjE conjE exE)
    assume "b = c" "Q w"
    then show ?L by (intro exI [of _ "[]"] exI [of _ w]) simp
  next
    fix ys rest
    assume "P b" "list_all P ys" "w = ys @ c # rest" "Q rest"
    then show ?L by (intro exI [of _ "b # ys"] exI [of _ rest]) simp
  qed
qed

lemma take_Suc_snoc: "n < length xs \<Longrightarrow> take (Suc n) xs = take n xs @ [xs ! n]"
  by (rule take_Suc_conv_app_nth)

end
