(* ===== verification/Cdc_Exceptions.thy ===== *)
theory Cdc_Exceptions
  imports Cdc_Prelude
begin

text \<open>
  The exception classes of \<open>include/CDCImplException.h\<close> and
  \<open>src/CDC*Exception.cpp\<close>: an exception object with its three strings, one constructor
  function per class in the order the C++ constructors run (base first), the accessors,
  and the macro \<open>THROW_EXCEPT\<close>. A \<open>catch\<close> clause selects by class, a handler for the
  base class \<open>CDCImplException\<close> taking every class.
\<close>

section \<open>Exception objects\<close>

datatype exn_class =
    CDCImplException
  | CDCSendException
  | CDCReceiveException
  | CDCMessageParserException

record cdc_exception =
  ex_class :: exn_class
  identity :: string
  cause :: string
  descr :: string

type_synonym thrown = "cdc_exception outcome_error"

definition createDescription :: "cdc_exception \<Rightarrow> cdc_exception" where
  "createDescription e = e\<lparr>descr := [] @ identity e @ '': '' @ cause e\<rparr>"

text \<open>The base constructor sets the identity, the cause and then the description.\<close>

definition new_CDCImplException :: "string \<Rightarrow> cdc_exception" where
  "new_CDCImplException c =
     createDescription
       \<lparr>ex_class = CDCImplException, identity = ''CDCImplException'', cause = c, descr = []\<rparr>"

text \<open>
  A derived constructor first runs the base constructor and then assigns its own identity;
  it does not build the description again.
\<close>

definition new_CDCSendException :: "string \<Rightarrow> cdc_exception" where
  "new_CDCSendException c =
     (new_CDCImplException c)\<lparr>ex_class := CDCSendException, identity := ''CDCSendException''\<rparr>"

definition new_CDCReceiveException :: "string \<Rightarrow> cdc_exception" where
  "new_CDCReceiveException c =
     (new_CDCImplException c)
       \<lparr>ex_class := CDCReceiveException, identity := ''CDCReceiveException''\<rparr>"

definition new_CDCMessageParserException :: "string \<Rightarrow> cdc_exception" where
  "new_CDCMessageParserException c =
     (new_CDCImplException c)
       \<lparr>ex_class := CDCMessageParserException, identity := ''CDCMessageParserException''\<rparr>"

definition what :: "cdc_exception \<Rightarrow> string" where
  "what e = cause e"

definition getDescr :: "cdc_exception \<Rightarrow> string" where
  "getDescr e = descr e"

text \<open>Constructing an object of a given class.\<close>

fun new_exception :: "exn_class \<Rightarrow> string \<Rightarrow> cdc_exception" where
  "new_exception CDCImplException c = new_CDCImplException c"
| "new_exception CDCSendException c = new_CDCSendException c"
| "new_exception CDCReceiveException c = new_CDCReceiveException c"
| "new_exception CDCMessageParserException c = new_CDCMessageParserException c"

text \<open>Whether \<open>catch (cls& e)\<close> handles the exception.\<close>

definition caught_by :: "exn_class \<Rightarrow> cdc_exception \<Rightarrow> bool" where
  "caught_by cls e \<longleftrightarrow> cls = CDCImplException \<or> ex_class e = cls"

section \<open>THROW_EXCEPT\<close>

text \<open>A number as \<open>operator<<\<close> prints it in decimal.\<close>

fun show_nat :: "nat \<Rightarrow> string" where
  "show_nat n =
     (if n < 10 then [char_of (48 + n)] else show_nat (n div 10) @ [char_of (48 + n mod 10)])"

declare show_nat.simps [simp del]

definition THROW_EXCEPT :: "exn_class \<Rightarrow> string \<Rightarrow> nat \<Rightarrow> string \<Rightarrow> thrown" where
  "THROW_EXCEPT cls file line msg =
     Thrown (new_exception cls (file @ '' '' @ show_nat line @ msg))"

section \<open>Laws\<close>

lemma ex_class_new_exception [simp]: "ex_class (new_exception cls c) = cls"
  by (cases cls)
    (simp_all add: new_CDCImplException_def new_CDCSendException_def
      new_CDCReceiveException_def new_CDCMessageParserException_def createDescription_def)

lemma what_new_exception [simp]: "what (new_exception cls c) = c"
  by (cases cls)
    (simp_all add: new_CDCImplException_def new_CDCSendException_def what_def
      new_CDCReceiveException_def new_CDCMessageParserException_def createDescription_def)

lemma descr_new_exception:
  "getDescr (new_exception cls c) = ''CDCImplException: '' @ c"
  by (cases cls)
    (simp_all add: new_CDCImplException_def new_CDCSendException_def getDescr_def
      new_CDCReceiveException_def new_CDCMessageParserException_def createDescription_def)

lemma identity_new_exception:
  "identity (new_exception cls c) =
     (case cls of CDCImplException \<Rightarrow> ''CDCImplException''
      | CDCSendException \<Rightarrow> ''CDCSendException''
      | CDCReceiveException \<Rightarrow> ''CDCReceiveException''
      | CDCMessageParserException \<Rightarrow> ''CDCMessageParserException'')"
  by (cases cls)
    (simp_all add: new_CDCImplException_def new_CDCSendException_def
      new_CDCReceiveException_def new_CDCMessageParserException_def createDescription_def)

lemma THROW_EXCEPT_not_stdlib [simp]:
  "THROW_EXCEPT cls f l m \<noteq> OutOfRange" "THROW_EXCEPT cls f l m \<noteq> BadAlloc"
  "THROW_EXCEPT cls f l m \<noteq> UndefinedBehaviour"
  by (simp_all add: THROW_EXCEPT_def)

text \<open>An exception of the library of a given class.\<close>

fun is_thrown :: "exn_class \<Rightarrow> thrown \<Rightarrow> bool" where
  "is_thrown cls (Thrown x) = (ex_class x = cls)"
| "is_thrown cls e = False"

lemma is_thrown_THROW_EXCEPT [simp]: "is_thrown cls (THROW_EXCEPT cls' f l m) \<longleftrightarrow> cls' = cls"
  by (simp add: THROW_EXCEPT_def)

end
