(* ===== verification/Cdc_Types.thy ===== *)
theory Cdc_Types
  imports Cdc_Exceptions
begin

text \<open>
  The data of the public interface and of the parser: \<open>include/CDCTypes.h\<close>,
  \<open>include/CdcInterface.h\<close> and the result types of \<open>include/CDCMessageParser.h\<close>. The
  enumeration \<open>MessageType\<close> is ordered by its enumerators' values, as the key type of
  \<open>std::map\<close> is, and is an instance of \<open>linorder\<close>.
\<close>

section \<open>Message types\<close>

datatype MessageType =
    MSG_ERROR | MSG_TEST | MSG_RES_USB | MSG_RES_TR | MSG_USB_INFO
  | MSG_TR_INFO | MSG_USB_CONN | MSG_SPI_STAT | MSG_DATA_SEND | MSG_SWITCH
  | MSG_ASYNC | MSG_MODE_NORMAL | MSG_MODE_PROGRAM | MSG_UPLOAD_DOWNLOAD
  | MSG_DOWNLOAD_DATA

fun enum_value :: "MessageType \<Rightarrow> nat" where
  "enum_value MSG_ERROR = 0"
| "enum_value MSG_TEST = 1"
| "enum_value MSG_RES_USB = 2"
| "enum_value MSG_RES_TR = 3"
| "enum_value MSG_USB_INFO = 4"
| "enum_value MSG_TR_INFO = 5"
| "enum_value MSG_USB_CONN = 6"
| "enum_value MSG_SPI_STAT = 7"
| "enum_value MSG_DATA_SEND = 8"
| "enum_value MSG_SWITCH = 9"
| "enum_value MSG_ASYNC = 10"
| "enum_value MSG_MODE_NORMAL = 11"
| "enum_value MSG_MODE_PROGRAM = 12"
| "enum_value MSG_UPLOAD_DOWNLOAD = 13"
| "enum_value MSG_DOWNLOAD_DATA = 14"

lemma enum_value_inject [simp]: "enum_value a = enum_value b \<longleftrightarrow> a = b"
  by (cases a; cases b) simp_all

instantiation MessageType :: linorder
begin

definition less_eq_MessageType :: "MessageType \<Rightarrow> MessageType \<Rightarrow> bool" where
  "less_eq_MessageType a b \<longleftrightarrow> enum_value a \<le> enum_value b"

definition less_MessageType :: "MessageType \<Rightarrow> MessageType \<Rightarrow> bool" where
  "less_MessageType a b \<longleftrightarrow> enum_value a < enum_value b"

instance
  by intro_classes (auto simp: less_eq_MessageType_def less_MessageType_def)

end

section \<open>Parse results\<close>

datatype ParseResultType = PARSE_OK | PARSE_NOT_COMPLETE | PARSE_BAD_FORMAT

record ParseResult =
  msgType :: MessageType
  resultType :: ParseResultType
  lastPosition :: nat

section \<open>Responses\<close>

text \<open>
  The three buffers of \<open>DeviceInfo\<close> with their recorded lengths; each buffer is one byte
  longer than its text (\<open>new char[size + 1]\<close>), and that byte is left uninitialised.
\<close>

record DeviceInfo =
  devType :: ustring
  typeLen :: "32 word"
  firmwareVersion :: ustring
  fwLen :: "32 word"
  devSerialNumber :: ustring
  snLen :: "32 word"

definition SN_SIZE :: nat where "SN_SIZE = 4"
definition BUILD_SIZE :: nat where "BUILD_SIZE = 2"
definition RESERVED_SIZE :: nat where "RESERVED_SIZE = 8"
definition IBK_SIZE :: nat where "IBK_SIZE = 16"

lemmas module_sizes [cdc_defs] =
  SN_SIZE_def BUILD_SIZE_def RESERVED_SIZE_def IBK_SIZE_def

record ModuleInfo =
  serialNumber :: ustring
  osVersion :: byte
  trType :: byte
  osBuild :: ustring
  reserved :: ustring
  ibk :: ustring

datatype SPIModes =
    DISABLED | SUSPENDED | BUFF_PROTECT | CRCM_ERR | READY_COMM | READY_PROG
  | READY_DEBUG | SLOW_MODE | HW_ERROR

fun spi_value :: "SPIModes \<Rightarrow> int" where
  "spi_value DISABLED = 0x00"
| "spi_value SUSPENDED = 0x07"
| "spi_value BUFF_PROTECT = 0x3F"
| "spi_value CRCM_ERR = 0x3E"
| "spi_value READY_COMM = 0x80"
| "spi_value READY_PROG = 0x81"
| "spi_value READY_DEBUG = 0x82"
| "spi_value SLOW_MODE = 0x83"
| "spi_value HW_ERROR = 0xFF"

text \<open>
  \<open>SPI_MODE\<close> and \<open>DATA_READY\<close> share storage in the C++ union: one field holds the value,
  and \<open>isDataReady\<close> says which member it is.
\<close>

record SPIStatus =
  isDataReady :: bool
  spi_union :: int

datatype DSResponse = DS_OK | DS_ERR | DS_BUSY

text \<open>The number an enumerator of the unscoped enumeration converts to.\<close>

fun ds_value :: "DSResponse \<Rightarrow> nat" where
  "ds_value DS_OK = 0"
| "ds_value DS_ERR = 1"
| "ds_value DS_BUSY = 2"

datatype PMResponse =
  PM_OK | PM_ERR2 | PM_ERR3 | PM_ERR4 | PM_ERR5 | PM_ERR6 | PM_ERR7 | PM_BUSY

datatype PTEResponse = PTE_OK | PTE_ERR1

end
