(* ===== verification/Parser_Tables.thy ===== *)
theory Parser_Tables
  imports Cdc_Types
begin

text \<open>
  The tables of \<open>CDCMessageParserPrivate\<close> (\<open>src/CDCMessageParser.cpp\<close>): the state
  information map, the transition map, the sets of finite and special states and of SPI
  modes, the functions that fill them, the constructor, and the look-ups \<open>doTransition\<close>,
  \<open>isFiniteState\<close> and \<open>isSpecialState\<close>.

  \<open>initStatesInfoMap\<close> passes the size 17 with the 14-element array of the upload and
  download states, so it reads three words behind the array. What lies there is not
  defined by the program; the model takes these words as the parameter \<open>behind\<close>.
  \<open>parser_ok\<close> is the invariant of the parser object: its tables are the constructed ones
  and none of the three words was the state 97.
\<close>

section \<open>Keys of the transition map\<close>

datatype StateInputPair = StateInputPair (stateId: nat) (pair_input: nat)

definition StateInputPairCompare :: "StateInputPair \<Rightarrow> StateInputPair \<Rightarrow> bool" where
  "StateInputPairCompare lhs rhs =
     (if stateId lhs \<noteq> stateId rhs then stateId lhs < stateId rhs
      else pair_input lhs < pair_input rhs)"

text \<open>The comparison object is a strict linear order, as \<open>std::map\<close> requires.\<close>

instantiation StateInputPair :: linorder
begin

definition less_StateInputPair :: "StateInputPair \<Rightarrow> StateInputPair \<Rightarrow> bool" where
  "less_StateInputPair a b \<longleftrightarrow> StateInputPairCompare a b"

definition less_eq_StateInputPair :: "StateInputPair \<Rightarrow> StateInputPair \<Rightarrow> bool" where
  "less_eq_StateInputPair a b \<longleftrightarrow> StateInputPairCompare a b \<or> a = b"

instance
proof
  fix x y z :: StateInputPair
  note defs = less_StateInputPair_def less_eq_StateInputPair_def StateInputPairCompare_def
  show "x < y \<longleftrightarrow> x \<le> y \<and> \<not> y \<le> x"
    by (cases x; cases y) (auto simp: defs)
  show "x \<le> x"
    by (simp add: defs)
  show "x \<le> y \<Longrightarrow> y \<le> z \<Longrightarrow> x \<le> z"
    by (cases x; cases y; cases z) (auto simp: defs split: if_splits)
  show "x \<le> y \<Longrightarrow> y \<le> x \<Longrightarrow> x = y"
    by (cases x; cases y) (auto simp: defs split: if_splits)
  show "x \<le> y \<or> y \<le> x"
    by (cases x; cases y) (auto simp: defs)
qed

end

section \<open>The parser object\<close>

record StateInfo =
  info_msgType :: MessageType
  multiType :: bool

type_synonym mapOfStates = "nat \<rightharpoonup> StateInfo"
type_synonym stateInputToStateMap = "StateInputPair \<rightharpoonup> nat"

record CDCMessageParserPrivate =
  statesInfoMap :: mapOfStates
  finiteStates :: "nat set"
  specialStates :: "nat set"
  transitionMap :: stateInputToStateMap
  lastParsedData :: ustring
  lastParseResult :: ParseResult
  spiModes :: "int set"

type_synonym parser = CDCMessageParserPrivate

definition INITIAL_STATE :: nat where "INITIAL_STATE = 0"
definition NO_TRANSITION :: nat where "NO_TRANSITION = 65535"
definition INPUT_ALL :: nat where "INPUT_ALL = 1000"

lemmas parser_consts [cdc_defs] = INITIAL_STATE_def NO_TRANSITION_def INPUT_ALL_def

abbreviation ascii :: "char \<Rightarrow> nat" where
  "ascii c \<equiv> of_char c"

section \<open>State information\<close>

text \<open>The loop over \<open>states[0]\<close> to \<open>states[statesSize - 1]\<close>.\<close>

definition insertStatesInfo :: "nat list \<Rightarrow> nat \<Rightarrow> MessageType \<Rightarrow> mapOfStates \<Rightarrow> mapOfStates"
  where
  "insertStatesInfo states statesSize T m =
     fold (\<lambda>s. insert_new s \<lparr>info_msgType = T, multiType = False\<rparr>) (take statesSize states) m"

definition insertMultiTypeStatesInfo :: "nat list \<Rightarrow> nat \<Rightarrow> mapOfStates \<Rightarrow> mapOfStates" where
  "insertMultiTypeStatesInfo states statesSize m =
     fold (\<lambda>s. insert_new s \<lparr>info_msgType = MSG_ERROR, multiType = True\<rparr>)
       (take statesSize states) m"

text \<open>The three words behind \<open>resUploadDownload\<close> on the stack.\<close>

type_synonym stack_words = "nat \<times> nat \<times> nat"

fun words_behind :: "stack_words \<Rightarrow> nat list" where
  "words_behind (a, b, c) = [a, b, c]"

definition initStatesInfoMap :: "stack_words \<Rightarrow> mapOfStates \<Rightarrow> mapOfStates" where
  "initStatesInfoMap behind m =
    (let m = insertMultiTypeStatesInfo [0, 1, 9, 16, 33, 58, 79, 95] 8 m;
         m = insertStatesInfo [2, 3, 4, 5] 4 MSG_ERROR m;
         m = insertStatesInfo [6, 7, 8] 3 MSG_TEST m;
         m = insertStatesInfo [10, 101, 102, 103] 4 MSG_RES_USB m;
         m = insertStatesInfo [11, 12, 13, 14, 15] 5 MSG_RES_TR m;
         m = insertStatesInfo [17, 18, 19] 3 MSG_USB_INFO m;
         m = insertStatesInfo [20, 21, 22, 23] 4 MSG_TR_INFO m;
         m = insertStatesInfo [24, 25, 26, 27, 28] 5 MSG_USB_CONN m;
         m = insertStatesInfo [29, 30, 31, 32] 4 MSG_SPI_STAT m;
         m = insertStatesInfo [34, 35, 36, 37, 38, 39, 40, 41, 42, 43, 44, 45, 46, 47] 14
               MSG_DATA_SEND m;
         m = insertStatesInfo [48, 49, 50, 51, 52] 5 MSG_ASYNC m;
         m = insertStatesInfo [53, 54, 55, 56, 57] 5 MSG_SWITCH m;
         m = insertStatesInfo [69, 70, 71, 72, 73, 74, 75, 76, 77, 78] 10 MSG_MODE_NORMAL m;
         m = insertStatesInfo [59, 60, 61, 62, 63, 64, 65, 66, 67, 68] 10 MSG_MODE_PROGRAM m;
         m = insertStatesInfo
               ([80, 81, 82, 83, 84, 85, 86, 87, 88, 89, 90, 91, 92, 93] @ words_behind behind)
               17 MSG_UPLOAD_DOWNLOAD m
     in insertStatesInfo [96, 97] 2 MSG_DOWNLOAD_DATA m)"

section \<open>Transitions\<close>

definition insertTransition ::
  "nat \<Rightarrow> nat \<Rightarrow> nat \<Rightarrow> stateInputToStateMap \<Rightarrow> stateInputToStateMap" where
  "insertTransition s i nextStateId m = insert_new (StateInputPair s i) nextStateId m"

text \<open>The arguments of the calls of \<open>insertTransition\<close>, in the order of the code.\<close>

definition transition_calls :: "(nat \<times> nat \<times> nat) list" where
  "transition_calls = [
    \<comment> \<open>beginning\<close>
    (0, ascii CHR ''<'', 1), (1, ascii CHR ''E'', 2), (1, ascii CHR ''O'', 6), (1, ascii CHR ''R'', 9),
    (1, ascii CHR ''I'', 16), (1, ascii CHR ''B'', 24), (1, ascii CHR ''S'', 29), (1, ascii CHR ''D'', 33),
    (1, ascii CHR ''U'', 53), (1, ascii CHR ''P'', 58),
    \<comment> \<open>ERR\<close>
    (2, ascii CHR ''R'', 3), (3, ascii CHR ''R'', 4), (4, 0x0D, 5),
    \<comment> \<open>MSG_TEST OK\<close>
    (6, ascii CHR ''K'', 7), (7, 0x0D, 8),
    \<comment> \<open>RESET USB\<close>
    (9, ascii CHR '':'', 10), (10, ascii CHR ''O'', 101), (101, ascii CHR ''K'', 102), (102, 0x0D, 103),
    \<comment> \<open>RESET MODULE\<close>
    (9, ascii CHR ''T'', 11), (11, ascii CHR '':'', 12), (12, ascii CHR ''O'', 13), (13, ascii CHR ''K'', 14),
    (14, 0x0D, 15),
    \<comment> \<open>USB INFO\<close>
    (16, ascii CHR '':'', 17), (18, 0x0D, 19),
    \<comment> \<open>MODULE INFO\<close>
    (16, ascii CHR ''T'', 20), (20, ascii CHR '':'', 21), (22, 0x0D, 23),
    \<comment> \<open>USB CONNECTION INDICATION\<close>
    (24, ascii CHR '':'', 25), (25, ascii CHR ''O'', 26), (26, ascii CHR ''K'', 27), (27, 0x0D, 28),
    \<comment> \<open>SPI STATUS\<close>
    (29, ascii CHR '':'', 30), (30, INPUT_ALL, 31), (31, 0x0D, 32),
    \<comment> \<open>DATA SEND\<close>
    (33, ascii CHR ''S'', 34), (34, ascii CHR '':'', 35), (35, ascii CHR ''O'', 36), (36, ascii CHR ''K'', 37),
    (37, 0x0D, 38), (35, ascii CHR ''E'', 39), (39, ascii CHR ''R'', 40), (40, ascii CHR ''R'', 41),
    (41, 0x0D, 42), (35, ascii CHR ''B'', 43), (43, ascii CHR ''U'', 44), (44, ascii CHR ''S'', 45),
    (45, ascii CHR ''Y'', 46), (46, 0x0D, 47),
    \<comment> \<open>DATA RECEIVE\<close>
    (33, ascii CHR ''R'', 48), (48, INPUT_ALL, 49), (49, ascii CHR '':'', 50), (51, 0x0D, 52),
    \<comment> \<open>CDC SWITCH\<close>
    (53, ascii CHR '':'', 54), (54, ascii CHR ''O'', 55), (55, ascii CHR ''K'', 56), (56, 0x0D, 57),
    \<comment> \<open>Programming\<close>
    (58, ascii CHR ''E'', 59), (58, ascii CHR ''T'', 69), (58, ascii CHR ''M'', 79),
    \<comment> \<open>Enter programming mode\<close>
    (59, ascii CHR '':'', 60), (60, ascii CHR ''O'', 61), (60, ascii CHR ''E'', 64), (61, ascii CHR ''K'', 62),
    (62, 0x0D, 63), (64, ascii CHR ''R'', 65), (65, ascii CHR ''R'', 66), (66, ascii CHR ''1'', 67),
    (67, 0x0D, 68),
    \<comment> \<open>Terminate programming mode\<close>
    (69, ascii CHR '':'', 70), (70, ascii CHR ''O'', 71), (70, ascii CHR ''E'', 74), (71, ascii CHR ''K'', 72),
    (72, 0x0D, 73), (74, ascii CHR ''R'', 75), (75, ascii CHR ''R'', 76), (76, ascii CHR ''1'', 77),
    (77, 0x0D, 78),
    \<comment> \<open>Upload/Download\<close>
    (79, ascii CHR '':'', 95),
    \<comment> \<open>Upload/Error\<close>
    (80, ascii CHR ''O'', 81), (80, ascii CHR ''E'', 84), (80, ascii CHR ''B'', 89), (81, ascii CHR ''K'', 82),
    (82, 0x0D, 83), (84, ascii CHR ''R'', 85), (85, ascii CHR ''R'', 86), (86, ascii CHR ''2'', 87),
    (86, ascii CHR ''3'', 87), (86, ascii CHR ''4'', 87), (86, ascii CHR ''5'', 87), (86, ascii CHR ''6'', 87),
    (86, ascii CHR ''7'', 87), (87, 0x0D, 88), (89, ascii CHR ''U'', 90), (90, ascii CHR ''S'', 91),
    (91, ascii CHR ''Y'', 92), (92, 0x0D, 93),
    \<comment> \<open>Download Data\<close>
    (96, 0x0D, 97)]"

definition initTransitionMap :: "stateInputToStateMap \<Rightarrow> stateInputToStateMap" where
  "initTransitionMap m = fold (\<lambda>(s, i, n). insertTransition s i n) transition_calls m"

definition initFiniteStates :: "nat set \<Rightarrow> nat set" where
  "initFiniteStates S =
     fold insert [5, 8, 15, 19, 23, 28, 32, 38, 42, 47, 52, 57, 103, 63, 68, 73, 78, 83, 88,
       93, 97] S"

definition initSpecialStates :: "nat set \<Rightarrow> nat set" where
  "initSpecialStates S = fold insert [17, 21, 50, 95] S"

definition initSpiModes :: "int set \<Rightarrow> int set" where
  "initSpiModes S =
     fold insert (map spi_value [DISABLED, SUSPENDED, BUFF_PROTECT, CRCM_ERR, READY_COMM,
       READY_PROG, READY_DEBUG, SLOW_MODE, HW_ERROR]) S"

definition new_CDCMessageParserPrivate :: "stack_words \<Rightarrow> parser" where
  "new_CDCMessageParserPrivate behind =
     \<lparr>statesInfoMap = initStatesInfoMap behind Map.empty,
      finiteStates = initFiniteStates {},
      specialStates = initSpecialStates {},
      transitionMap = initTransitionMap Map.empty,
      lastParsedData = [],
      lastParseResult =
        \<lparr>msgType = MSG_ERROR, resultType = PARSE_NOT_COMPLETE, lastPosition = 0\<rparr>,
      spiModes = initSpiModes {}\<rparr>"

section \<open>Look-ups\<close>

definition isFiniteState :: "parser \<Rightarrow> nat \<Rightarrow> bool" where
  "isFiniteState p state = (state \<in> finiteStates p)"

definition isSpecialState :: "parser \<Rightarrow> nat \<Rightarrow> bool" where
  "isSpecialState p state = (state \<in> specialStates p)"

definition doTransition :: "parser \<Rightarrow> nat \<Rightarrow> byte \<Rightarrow> nat" where
  "doTransition p state inp =
     (case transitionMap p (StateInputPair state (unat inp)) of
        Some n \<Rightarrow> n
      | None \<Rightarrow>
          (case transitionMap p (StateInputPair state INPUT_ALL) of
             Some n \<Rightarrow> n
           | None \<Rightarrow> NO_TRANSITION))"

section \<open>The invariant of the parser object\<close>

definition parser_ok :: "parser \<Rightarrow> bool" where
  "parser_ok p \<longleftrightarrow>
     (\<exists>behind. 97 \<notin> set (words_behind behind) \<and>
        statesInfoMap p = initStatesInfoMap behind Map.empty) \<and>
     finiteStates p = initFiniteStates {} \<and>
     specialStates p = initSpecialStates {} \<and>
     transitionMap p = initTransitionMap Map.empty \<and>
     spiModes p = initSpiModes {}"

text \<open>The transition function as a look-up in the list of calls.\<close>

definition transition_key :: "nat \<times> nat \<times> nat \<Rightarrow> StateInputPair \<times> nat" where
  "transition_key = (\<lambda>(s, i, n). (StateInputPair s i, n))"

definition delta :: "nat \<Rightarrow> byte \<Rightarrow> nat" where
  "delta s b =
     (case map_of (map transition_key transition_calls) (StateInputPair s (unat b)) of
        Some n \<Rightarrow> n
      | None \<Rightarrow>
          (case map_of (map transition_key transition_calls) (StateInputPair s INPUT_ALL) of
             Some n \<Rightarrow> n
           | None \<Rightarrow> NO_TRANSITION))"

lemma insertTransition_eq: "insertTransition s i n = insert_new (StateInputPair s i) n"
  by (rule ext) (simp add: insertTransition_def)

lemma initTransitionMap_map_of:
  "initTransitionMap Map.empty = map_of (map transition_key transition_calls)"
proof -
  have "initTransitionMap Map.empty =
      fold (\<lambda>(k, v). insert_new k v) (map transition_key transition_calls) Map.empty"
    by (simp add: initTransitionMap_def insertTransition_eq fold_map comp_def
        transition_key_def split_def)
  then show ?thesis by (simp only: fold_insert_new_empty)
qed

lemma doTransition_delta [simp]: "parser_ok p \<Longrightarrow> doTransition p s b = delta s b"
proof -
  assume "parser_ok p"
  then have "transitionMap p = map_of (map transition_key transition_calls)"
    by (simp add: parser_ok_def initTransitionMap_map_of)
  then show "doTransition p s b = delta s b"
    by (simp only: doTransition_def delta_def)
qed

text \<open>With this congruence the simplifier evaluates a look-up without visiting the table.\<close>

lemma map_of_key_cong: "k = k' \<Longrightarrow> map_of xs k = map_of xs k'"
  by simp

text \<open>The keys and values of the built map, evaluated once.\<close>

lemma transition_keys:
  "map transition_key transition_calls = [
    (StateInputPair 0 60, 1), (StateInputPair 1 69, 2), (StateInputPair 1 79, 6),
    (StateInputPair 1 82, 9), (StateInputPair 1 73, 16), (StateInputPair 1 66, 24),
    (StateInputPair 1 83, 29), (StateInputPair 1 68, 33), (StateInputPair 1 85, 53),
    (StateInputPair 1 80, 58), (StateInputPair 2 82, 3), (StateInputPair 3 82, 4),
    (StateInputPair 4 13, 5), (StateInputPair 6 75, 7), (StateInputPair 7 13, 8),
    (StateInputPair 9 58, 10), (StateInputPair 10 79, 101), (StateInputPair 101 75, 102),
    (StateInputPair 102 13, 103), (StateInputPair 9 84, 11), (StateInputPair 11 58, 12),
    (StateInputPair 12 79, 13), (StateInputPair 13 75, 14), (StateInputPair 14 13, 15),
    (StateInputPair 16 58, 17), (StateInputPair 18 13, 19), (StateInputPair 16 84, 20),
    (StateInputPair 20 58, 21), (StateInputPair 22 13, 23), (StateInputPair 24 58, 25),
    (StateInputPair 25 79, 26), (StateInputPair 26 75, 27), (StateInputPair 27 13, 28),
    (StateInputPair 29 58, 30), (StateInputPair 30 1000, 31), (StateInputPair 31 13, 32),
    (StateInputPair 33 83, 34), (StateInputPair 34 58, 35), (StateInputPair 35 79, 36),
    (StateInputPair 36 75, 37), (StateInputPair 37 13, 38), (StateInputPair 35 69, 39),
    (StateInputPair 39 82, 40), (StateInputPair 40 82, 41), (StateInputPair 41 13, 42),
    (StateInputPair 35 66, 43), (StateInputPair 43 85, 44), (StateInputPair 44 83, 45),
    (StateInputPair 45 89, 46), (StateInputPair 46 13, 47), (StateInputPair 33 82, 48),
    (StateInputPair 48 1000, 49), (StateInputPair 49 58, 50), (StateInputPair 51 13, 52),
    (StateInputPair 53 58, 54), (StateInputPair 54 79, 55), (StateInputPair 55 75, 56),
    (StateInputPair 56 13, 57), (StateInputPair 58 69, 59), (StateInputPair 58 84, 69),
    (StateInputPair 58 77, 79), (StateInputPair 59 58, 60), (StateInputPair 60 79, 61),
    (StateInputPair 60 69, 64), (StateInputPair 61 75, 62), (StateInputPair 62 13, 63),
    (StateInputPair 64 82, 65), (StateInputPair 65 82, 66), (StateInputPair 66 49, 67),
    (StateInputPair 67 13, 68), (StateInputPair 69 58, 70), (StateInputPair 70 79, 71),
    (StateInputPair 70 69, 74), (StateInputPair 71 75, 72), (StateInputPair 72 13, 73),
    (StateInputPair 74 82, 75), (StateInputPair 75 82, 76), (StateInputPair 76 49, 77),
    (StateInputPair 77 13, 78), (StateInputPair 79 58, 95), (StateInputPair 80 79, 81),
    (StateInputPair 80 69, 84), (StateInputPair 80 66, 89), (StateInputPair 81 75, 82),
    (StateInputPair 82 13, 83), (StateInputPair 84 82, 85), (StateInputPair 85 82, 86),
    (StateInputPair 86 50, 87), (StateInputPair 86 51, 87), (StateInputPair 86 52, 87),
    (StateInputPair 86 53, 87), (StateInputPair 86 54, 87), (StateInputPair 86 55, 87),
    (StateInputPair 87 13, 88), (StateInputPair 89 85, 90), (StateInputPair 90 83, 91),
    (StateInputPair 91 89, 92), (StateInputPair 92 13, 93), (StateInputPair 96 13, 97)]"
  by (simp add: transition_calls_def transition_key_def INPUT_ALL_def)

lemma delta_vals [cdc_table]:
  "delta 0 60 = 1" "delta 1 69 = 2" "delta 1 79 = 6" "delta 1 82 = 9"
  "delta 1 73 = 16" "delta 1 66 = 24" "delta 1 83 = 29" "delta 1 68 = 33"
  "delta 1 85 = 53" "delta 1 80 = 58" "delta 2 82 = 3" "delta 3 82 = 4"
  "delta 4 13 = 5" "delta 6 75 = 7" "delta 7 13 = 8" "delta 9 58 = 10"
  "delta 10 79 = 101" "delta 101 75 = 102" "delta 102 13 = 103" "delta 9 84 = 11"
  "delta 11 58 = 12" "delta 12 79 = 13" "delta 13 75 = 14" "delta 14 13 = 15"
  "delta 16 58 = 17" "delta 18 13 = 19" "delta 16 84 = 20" "delta 20 58 = 21"
  "delta 22 13 = 23" "delta 24 58 = 25" "delta 25 79 = 26" "delta 26 75 = 27"
  "delta 27 13 = 28" "delta 29 58 = 30" "delta 31 13 = 32" "delta 33 83 = 34"
  "delta 34 58 = 35" "delta 35 79 = 36" "delta 36 75 = 37" "delta 37 13 = 38"
  "delta 35 69 = 39" "delta 39 82 = 40" "delta 40 82 = 41" "delta 41 13 = 42"
  "delta 35 66 = 43" "delta 43 85 = 44" "delta 44 83 = 45" "delta 45 89 = 46"
  "delta 46 13 = 47" "delta 33 82 = 48" "delta 49 58 = 50" "delta 51 13 = 52"
  "delta 53 58 = 54" "delta 54 79 = 55" "delta 55 75 = 56" "delta 56 13 = 57"
  "delta 58 69 = 59" "delta 58 84 = 69" "delta 58 77 = 79" "delta 59 58 = 60"
  "delta 60 79 = 61" "delta 60 69 = 64" "delta 61 75 = 62" "delta 62 13 = 63"
  "delta 64 82 = 65" "delta 65 82 = 66" "delta 66 49 = 67" "delta 67 13 = 68"
  "delta 69 58 = 70" "delta 70 79 = 71" "delta 70 69 = 74" "delta 71 75 = 72"
  "delta 72 13 = 73" "delta 74 82 = 75" "delta 75 82 = 76" "delta 76 49 = 77"
  "delta 77 13 = 78" "delta 79 58 = 95" "delta 80 79 = 81" "delta 80 69 = 84"
  "delta 80 66 = 89" "delta 81 75 = 82" "delta 82 13 = 83" "delta 84 82 = 85"
  "delta 85 82 = 86" "delta 86 50 = 87" "delta 86 51 = 87" "delta 86 52 = 87"
  "delta 86 53 = 87" "delta 86 54 = 87" "delta 86 55 = 87" "delta 87 13 = 88"
  "delta 89 85 = 90" "delta 90 83 = 91" "delta 91 89 = 92" "delta 92 13 = 93"
  "delta 96 13 = 97"
  "delta 30 b = 31" "delta 48 b = 49"
  unfolding delta_def transition_keys INPUT_ALL_def
  by (simp_all add: map_of_Cons_code del: map_of.simps cong: map_of_key_cong)

text \<open>Every transition other than the error one is a row of the table.\<close>

lemma delta_row:
  assumes "delta s b = t" and "t \<noteq> NO_TRANSITION"
  shows "(s, unat b, t) \<in> set transition_calls \<or> (s, INPUT_ALL, t) \<in> set transition_calls"
  using assms
  by (auto simp: delta_def transition_key_def dest!: map_of_SomeD split: option.splits)

lemma finite_iff [simp]:
  "parser_ok p \<Longrightarrow> isFiniteState p s \<longleftrightarrow>
     s \<in> {5, 8, 15, 19, 23, 28, 32, 38, 42, 47, 52, 57, 103, 63, 68, 73, 78, 83, 88, 93, 97}"
  by (auto simp: parser_ok_def isFiniteState_def initFiniteStates_def)

lemma special_iff [simp]: "parser_ok p \<Longrightarrow> isSpecialState p s \<longleftrightarrow> s \<in> {17, 21, 50, 95}"
  by (auto simp: parser_ok_def isSpecialState_def initSpecialStates_def)

end
