(* ===== verification/Parser_Special.thy ===== *)
theory Parser_Special
  imports Parser_Tables
begin

text \<open>
  The four states of the parser whose input is not read by the transition table but by a
  function of its own (\<open>src/CDCMessageParser.cpp\<close>, lines 524 to 730): the identification
  texts of the USB device (state 17), of the TR module (21), asynchronous data (50) and the
  answer to an upload or download (95), with the switch \<open>processSpecialState\<close> over them.

  Positions are \<open>unsigned int\<close> in the code and natural numbers here; the buffers the
  library keeps are far below $2^{32}$ bytes. A comparison \<open>pos == data.size() - 1\<close> is
  written \<open>pos + 1 = length data\<close>, which also holds for the code's wrap-around on an
  empty buffer.
\<close>

section \<open>Results and character checks\<close>

record StateProcResult =
  newState :: nat
  procPosition :: nat
  formatError :: bool

definition checkUSBDeviceType :: "byte \<Rightarrow> bool" where
  "checkUSBDeviceType byteToCheck = True"

definition checkUSBDeviceVersion :: "byte \<Rightarrow> bool" where
  "checkUSBDeviceVersion b =
     (if b \<ge> of_char CHR ''0'' \<and> b \<le> of_char CHR ''9'' then True
      else if b = of_char CHR ''.'' then True
      else False)"

definition checkUSBDeviceId :: "byte \<Rightarrow> bool" where
  "checkUSBDeviceId b =
     (if b \<ge> of_char CHR ''0'' \<and> b \<le> of_char CHR ''9'' then True
      else if b \<ge> of_char CHR ''A'' \<and> b \<le> of_char CHR ''H'' then True
      else False)"

section \<open>State 17: USB device identification\<close>

definition USB_TYPE :: nat where "USB_TYPE = 0"
definition USB_VERSION :: nat where "USB_VERSION = 1"
definition USB_ID :: nat where "USB_ID = 2"

lemmas usb_sections [cdc_defs] = USB_TYPE_def USB_VERSION_def USB_ID_def

definition HASH :: byte where "HASH = of_char CHR ''#''"

lemma HASH_val [simp]: "HASH = 35"
  by (simp add: HASH_def)

text \<open>The \<open>switch (activeSection)\<close> of the loop body: whether the byte is refused.\<close>

definition usb_byte_refused :: "nat \<Rightarrow> byte \<Rightarrow> bool" where
  "usb_byte_refused activeSection b =
     (if activeSection = USB_TYPE then \<not> checkUSBDeviceType b
      else if activeSection = USB_VERSION then \<not> checkUSBDeviceVersion b
      else if activeSection = USB_ID then \<not> checkUSBDeviceId b
      else False)"

function usb_loop :: "ustring \<Rightarrow> nat \<Rightarrow> nat \<Rightarrow> StateProcResult \<Rightarrow> StateProcResult" where
  "usb_loop data i activeSection r =
     (if i < length data then
        (let r = r\<lparr>procPosition := i\<rparr> in
         if data ! i = CR \<and> activeSection = USB_ID then r\<lparr>newState := 19\<rparr>
         else if data ! i = HASH then
           (if activeSection = USB_TYPE then usb_loop data (Suc i) USB_VERSION r
            else if activeSection = USB_VERSION then usb_loop data (Suc i) USB_ID r
            else r\<lparr>formatError := True\<rparr>)
         else if usb_byte_refused activeSection (data ! i) then r\<lparr>formatError := True\<rparr>
         else usb_loop data (Suc i) activeSection r)
      else r)"
  by pat_completeness auto
termination
  by (relation "measure (\<lambda>(data, i, sec, r). length data - i)") auto

declare usb_loop.simps [simp del]

definition processUSBInfo :: "ustring \<Rightarrow> nat \<Rightarrow> StateProcResult" where
  "processUSBInfo data pos =
     (let procResult = \<lparr>newState = 17, procPosition = pos, formatError = False\<rparr> in
      if pos + 1 = length data then procResult
      else usb_loop data pos USB_TYPE (procResult\<lparr>newState := 18\<rparr>))"

section \<open>State 21: TR module identification\<close>

definition MODULE_DATA_SIZE :: nat where "MODULE_DATA_SIZE = 32"
definition STANDARD_IDF_SIZE :: nat where "STANDARD_IDF_SIZE = 21"
definition EXTENDED_IDF_SIZE :: nat where "EXTENDED_IDF_SIZE = 37"

lemmas idf_sizes [cdc_defs] = MODULE_DATA_SIZE_def STANDARD_IDF_SIZE_def EXTENDED_IDF_SIZE_def

definition processTRInfo :: "ustring \<Rightarrow> nat \<Rightarrow> StateProcResult" where
  "processTRInfo data pos =
     (let procResult = \<lparr>newState = 21, procPosition = pos, formatError = False\<rparr> in
      if pos + 1 = length data then procResult
      else if length data \<le> EXTENDED_IDF_SIZE \<and>
          length data \<noteq> STANDARD_IDF_SIZE \<and> length data \<noteq> EXTENDED_IDF_SIZE
        then procResult
      else if length data \<le> EXTENDED_IDF_SIZE \<and>
          length data = STANDARD_IDF_SIZE \<and> data ! (STANDARD_IDF_SIZE - 1) \<noteq> CR
        then procResult
      else if length data - 1 > pos + MODULE_DATA_SIZE
        then procResult\<lparr>newState := 22, procPosition := pos + MODULE_DATA_SIZE - 1\<rparr>
        else procResult\<lparr>newState := 22, procPosition := length data - 2\<rparr>)"

section \<open>State 50: asynchronous data\<close>

definition processAsynData :: "ustring \<Rightarrow> nat \<Rightarrow> thrown + StateProcResult" where
  "processAsynData data pos =
     (let procResult = \<lparr>newState = 50, procPosition = pos, formatError = False\<rparr> in
      if pos + 1 = length data then Inr procResult
      else
        bindE (if pos < 2 then Inl OutOfRange else str_at data (pos - 2))
          (\<lambda>b. let dataLength = unat b in
             if pos + dataLength \<ge> length data
             then Inr (procResult\<lparr>newState := 51, procPosition := length data - 1\<rparr>)
             else Inr (procResult\<lparr>newState := 51, procPosition := (pos - 1) + dataLength\<rparr>)))"

section \<open>State 95: answers to PM commands\<close>

definition processPMRespData :: "ustring \<Rightarrow> nat \<Rightarrow> StateProcResult" where
  "processPMRespData data pos =
     (let procResult = \<lparr>newState = 95, procPosition = pos, formatError = False\<rparr> in
      if pos + 1 = length data then procResult
      else if length data = 7 \<or> length data = 9
        then procResult\<lparr>newState := 80, procPosition := pos - 1\<rparr>
        else procResult\<lparr>newState := 96, procPosition := length data - 2\<rparr>)"

section \<open>The switch\<close>

definition processSpecialState :: "nat \<Rightarrow> ustring \<Rightarrow> nat \<Rightarrow> thrown + StateProcResult" where
  "processSpecialState state data pos =
     (if state = 17 then Inr (processUSBInfo data pos)
      else if state = 21 then Inr (processTRInfo data pos)
      else if state = 50 then processAsynData data pos
      else if state = 95 then Inr (processPMRespData data pos)
      else Inl (Thrown (new_CDCMessageParserException
                  (''Unknown special state: '' @ show_nat state))))"

section \<open>Laws\<close>

lemma usb_loop_bounds:
  "i < length data \<Longrightarrow>
     i \<le> procPosition (usb_loop data i sec r) \<and> procPosition (usb_loop data i sec r) < length data"
proof (induction data i sec r rule: usb_loop.induct)
  case (1 data i sec r)
  show ?case
  proof (cases "Suc i < length data")
    case True
    with 1 show ?thesis
      by (subst (1 2) usb_loop.simps) (auto simp: Let_def Suc_le_eq less_imp_le)
  next
    case False
    then have "usb_loop data (Suc i) sec' r' = r'" for sec' r'
      by (subst usb_loop.simps) simp
    with "1.prems" show ?thesis
      by (subst (1 2) usb_loop.simps) (simp add: Let_def)
  qed
qed

text \<open>
  Progress: a special state either moves the position on, or hands the same position to
  an ordinary state.
\<close>

lemma special_progress:
  assumes "processSpecialState state data pos = Inr sp" and "pos < length data"
  shows "pos \<le> procPosition sp \<or>
    state \<in> {50, 95} \<and> newState sp \<notin> {50, 95} \<and> pos \<le> Suc (procPosition sp)"
  using assms
  by (auto simp: processSpecialState_def processUSBInfo_def processTRInfo_def cdc_defs
      processAsynData_def processPMRespData_def Let_def usb_loop_bounds
      split: if_splits sum.splits simp: bindE_eq_Inr)

lemma special_position_bound:
  assumes "processSpecialState state data pos = Inr sp" and "pos < length data"
  shows "procPosition sp < length data"
  using assms
  by (auto simp: processSpecialState_def processUSBInfo_def processTRInfo_def cdc_defs
      processAsynData_def processPMRespData_def Let_def usb_loop_bounds
      split: if_splits sum.splits simp: bindE_eq_Inr)

end
