(* ===== verification/Parser.thy ===== *)
theory Parser
  imports Parser_Special
begin

text \<open>
  \<open>CDCMessageParserPrivate::parseData\<close> (\<open>src/CDCMessageParser.cpp\<close>): the loop over the
  bytes of the buffer, which follows the transition table, hands special states to their
  functions and stops at a finite state or at an error. The parser object keeps the last
  parsed data and the last result; a result that is not \<open>PARSE_OK\<close> therefore still
  carries the message type of an earlier call.
\<close>

section \<open>The loop\<close>

text \<open>
  A finite state ends the parse with its message type. A state without information would
  dereference the end iterator of the map.
\<close>

definition finishParse :: "parser \<Rightarrow> nat \<Rightarrow> ParseResult \<Rightarrow> thrown + ParseResult" where
  "finishParse p state r =
     (case statesInfoMap p state of
        None \<Rightarrow> Inl UndefinedBehaviour
      | Some info \<Rightarrow> Inr (r\<lparr>msgType := info_msgType info, resultType := PARSE_OK\<rparr>))"

function parse_loop ::
  "parser \<Rightarrow> ustring \<Rightarrow> nat \<Rightarrow> nat \<Rightarrow> ParseResult \<Rightarrow> thrown + ParseResult" where
  "parse_loop p data pos state r =
     (if pos < length data then
        (let r = r\<lparr>lastPosition := pos\<rparr> in
         if isSpecialState p state then
           (case processSpecialState state data pos of
              Inl e \<Rightarrow> Inl e
            | Inr procResult \<Rightarrow>
                (let r = r\<lparr>lastPosition := procPosition procResult\<rparr> in
                 if formatError procResult then Inr (r\<lparr>resultType := PARSE_BAD_FORMAT\<rparr>)
                 else if isFiniteState p (newState procResult)
                   then finishParse p (newState procResult) r
                 else parse_loop p data (Suc (procPosition procResult)) (newState procResult) r))
         else
           (let state = doTransition p state (data ! pos) in
            if state = NO_TRANSITION then Inr (r\<lparr>resultType := PARSE_BAD_FORMAT\<rparr>)
            else if isFiniteState p state then finishParse p state r
            else parse_loop p data (Suc pos) state r))
      else Inr r)"
  by pat_completeness auto
termination
proof (relation "measure (\<lambda>(p, data, pos, state, r).
    2 * (length data - pos) + (if state = 50 \<or> state = 95 then 1 else 0))", goal_cases)
  case 1
  show ?case by simp
next
  case (2 p data pos state r x b xa)
  from special_progress [OF "2"(4) "2"(1)]
  have "2 * (length data - Suc (procPosition b)) + (if newState b = 50 \<or> newState b = 95 then 1 else 0)
      < 2 * (length data - pos) + (if state = 50 \<or> state = 95 then 1 else 0)"
    using "2"(1) by (cases "newState b = 50 \<or> newState b = 95") auto
  then show ?case by (simp only: in_measure prod.case)
next
  case (3 p data pos state r x xa)
  have "2 * (length data - Suc pos) + (if xa = 50 \<or> xa = 95 then 1 else 0)
      < 2 * (length data - pos) + (if state = 50 \<or> state = 95 then 1 else 0)"
    using "3"(1) by (cases "xa = 50 \<or> xa = 95") auto
  then show ?case by (simp only: in_measure prod.case)
qed

declare parse_loop.simps [simp del]

definition parseData :: "parser \<Rightarrow> ustring \<Rightarrow> thrown + (ParseResult \<times> parser)" where
  "parseData p data =
     (let p = p\<lparr>lastParsedData := data,
                lastParseResult := (lastParseResult p)\<lparr>resultType := PARSE_NOT_COMPLETE\<rparr>\<rparr>
      in bindE (parse_loop p (lastParsedData p) 0 INITIAL_STATE (lastParseResult p))
           (\<lambda>r. Inr (r, p\<lparr>lastParseResult := r\<rparr>)))"

section \<open>Types of the finite states\<close>

text \<open>The message type each finite state stands for.\<close>

definition final_types :: "(nat \<times> MessageType) list" where
  "final_types =
     [(5, MSG_ERROR), (8, MSG_TEST), (103, MSG_RES_USB), (15, MSG_RES_TR),
      (19, MSG_USB_INFO), (23, MSG_TR_INFO), (28, MSG_USB_CONN), (32, MSG_SPI_STAT),
      (38, MSG_DATA_SEND), (42, MSG_DATA_SEND), (47, MSG_DATA_SEND), (52, MSG_ASYNC),
      (57, MSG_SWITCH), (63, MSG_MODE_PROGRAM), (68, MSG_MODE_PROGRAM),
      (73, MSG_MODE_NORMAL), (78, MSG_MODE_NORMAL), (83, MSG_UPLOAD_DOWNLOAD),
      (88, MSG_UPLOAD_DOWNLOAD), (93, MSG_UPLOAD_DOWNLOAD), (97, MSG_DOWNLOAD_DATA)]"

lemma insertStatesInfo_apply:
  "insertStatesInfo ss n T m x =
     (case m x of Some v \<Rightarrow> Some v
      | None \<Rightarrow> if x \<in> set (take n ss) then Some \<lparr>info_msgType = T, multiType = False\<rparr> else None)"
proof -
  have "fold (\<lambda>s. insert_new s v) xs m x =
      (case m x of Some v \<Rightarrow> Some v | None \<Rightarrow> if x \<in> set xs then Some v else None)" for xs v
    by (induction xs arbitrary: m) (auto simp: insert_new_apply split: option.splits)
  then show ?thesis by (simp add: insertStatesInfo_def)
qed

lemma insertMultiTypeStatesInfo_apply:
  "insertMultiTypeStatesInfo ss n m x =
     (case m x of Some v \<Rightarrow> Some v
      | None \<Rightarrow> if x \<in> set (take n ss)
          then Some \<lparr>info_msgType = MSG_ERROR, multiType = True\<rparr> else None)"
proof -
  have "fold (\<lambda>s. insert_new s v) xs m x =
      (case m x of Some v \<Rightarrow> Some v | None \<Rightarrow> if x \<in> set xs then Some v else None)" for xs v
    by (induction xs arbitrary: m) (auto simp: insert_new_apply split: option.splits)
  then show ?thesis by (simp add: insertMultiTypeStatesInfo_def)
qed

lemma final_info_built:
  assumes "(s, T) \<in> set final_types" and "97 \<notin> set (words_behind behind)"
  shows "initStatesInfoMap behind Map.empty s = Some \<lparr>info_msgType = T, multiType = False\<rparr>"
proof -
  obtain a b c where behind: "behind = (a, b, c)" by (cases behind)
  with assms(2) have abc: "97 \<noteq> a" "97 \<noteq> b" "97 \<noteq> c" by auto
  have "list_all (\<lambda>(s, T). initStatesInfoMap behind Map.empty s =
      Some \<lparr>info_msgType = T, multiType = False\<rparr>) final_types"
    unfolding final_types_def behind
    by (simp add: initStatesInfoMap_def insertStatesInfo_apply insertMultiTypeStatesInfo_apply abc)
  with assms(1) show ?thesis by (auto simp: list_all_iff)
qed

lemma finishParse_ok [simp]:
  assumes "parser_ok p" and "(s, T) \<in> set final_types"
  shows "finishParse p s r = Inr (r\<lparr>msgType := T, resultType := PARSE_OK\<rparr>)"
proof -
  from assms(1) obtain behind where "97 \<notin> set (words_behind behind)"
    and "statesInfoMap p = initStatesInfoMap behind Map.empty"
    by (auto simp: parser_ok_def)
  with assms(2) show ?thesis by (simp add: finishParse_def final_info_built)
qed

lemma finite_final_types: "parser_ok p \<Longrightarrow> isFiniteState p s \<longleftrightarrow> s \<in> fst ` set final_types"
  by (auto simp: final_types_def)

text \<open>Only the tables matter to the invariant, and \<open>parseData\<close> leaves them alone.\<close>

lemma parser_ok_update [simp]:
  "parser_ok (p\<lparr>lastParsedData := d\<rparr>) = parser_ok p"
  "parser_ok (p\<lparr>lastParseResult := r\<rparr>) = parser_ok p"
  by (simp_all add: parser_ok_def)

lemma new_parser_ok:
  "97 \<notin> set (words_behind behind) \<Longrightarrow> parser_ok (new_CDCMessageParserPrivate behind)"
  unfolding parser_ok_def new_CDCMessageParserPrivate_def
  by (intro conjI exI [of _ behind]) simp_all

lemma parseData_keeps_ok: "parseData p d = Inr (r, p') \<Longrightarrow> parser_ok p' = parser_ok p"
  by (auto simp: parseData_def Let_def bindE_eq_Inr)

end
