(* ===== verification/Parser_Grammar.thy ===== *)
theory Parser_Grammar
  imports Parser
begin

text \<open>
  The language of the parser, as a specification that does not mention states:
  \<open>frame n T m\<close> says that \<open>m\<close> is a complete message of type \<open>T\<close> at the start of a
  buffer of \<open>n\<close> bytes. The length of the buffer is a parameter because two kinds of
  message are recognised by it: TR module identifications and answers to PM commands.
  The second half of the theory relates the rows of the transition table to the texts of
  the fixed messages.
\<close>

section \<open>Messages\<close>

definition fixed_frames :: "(MessageType \<times> string) list" where
  "fixed_frames =
     [(MSG_ERROR, ''<ERR''), (MSG_TEST, ''<OK''), (MSG_RES_USB, ''<R:OK''),
      (MSG_RES_TR, ''<RT:OK''), (MSG_USB_CONN, ''<B:OK''), (MSG_DATA_SEND, ''<DS:OK''),
      (MSG_DATA_SEND, ''<DS:ERR''), (MSG_DATA_SEND, ''<DS:BUSY''), (MSG_SWITCH, ''<U:OK''),
      (MSG_MODE_PROGRAM, ''<PE:OK''), (MSG_MODE_PROGRAM, ''<PE:ERR1''),
      (MSG_MODE_NORMAL, ''<PT:OK''), (MSG_MODE_NORMAL, ''<PT:ERR1'')]"

definition pm_codes :: "string list" where
  "pm_codes =
     [''<PM:OK'', ''<PM:ERR2'', ''<PM:ERR3'', ''<PM:ERR4'', ''<PM:ERR5'', ''<PM:ERR6'',
      ''<PM:ERR7'', ''<PM:BUSY'']"

definition crlf :: "string \<Rightarrow> ustring" where
  "crlf s = uchar_str s @ [CR]"

inductive frame :: "nat \<Rightarrow> MessageType \<Rightarrow> ustring \<Rightarrow> bool" where
  frame_fixed: "(T, s) \<in> set fixed_frames \<Longrightarrow> frame n T (crlf s)"
| frame_spi: "frame n MSG_SPI_STAT (uchar_str ''<S:'' @ [x, CR])"
| frame_usb: "HASH \<notin> set ty \<Longrightarrow> list_all checkUSBDeviceVersion ver \<Longrightarrow>
     list_all checkUSBDeviceId sn \<Longrightarrow>
     frame n MSG_USB_INFO (uchar_str ''<I:'' @ ty @ HASH # ver @ HASH # sn @ [CR])"
| frame_tr_std: "n = 21 \<Longrightarrow> length body = 16 \<Longrightarrow>
     frame n MSG_TR_INFO (uchar_str ''<IT:'' @ body @ [CR])"
| frame_tr_ext: "n \<ge> 37 \<Longrightarrow> length body = 32 \<Longrightarrow>
     frame n MSG_TR_INFO (uchar_str ''<IT:'' @ body @ [CR])"
| frame_async: "length body = unat len \<Longrightarrow> body \<noteq> [] \<or> n \<noteq> 6 \<Longrightarrow>
     frame n MSG_ASYNC (uchar_str ''<DR'' @ [len] @ uchar_str '':'' @ body @ [CR])"
| frame_pm_code: "n = 7 \<or> n = 9 \<Longrightarrow> s \<in> set pm_codes \<Longrightarrow>
     frame n MSG_UPLOAD_DOWNLOAD (crlf s)"
| frame_pm_data: "n = length body + 5 \<Longrightarrow> n \<noteq> 5 \<Longrightarrow> n \<noteq> 7 \<Longrightarrow> n \<noteq> 9 \<Longrightarrow>
     frame n MSG_DOWNLOAD_DATA (uchar_str ''<PM:'' @ body @ [CR])"

section \<open>The text read before an ordinary state\<close>

definition state_words :: "(nat \<times> string) list" where
  "state_words = [
     (0, []), (1, ''<''), (2, ''<E''), (3, ''<ER''), (4, ''<ERR''),
     (6, ''<O''), (7, ''<OK''), (9, ''<R''), (10, ''<R:''), (11, ''<RT''),
     (12, ''<RT:''), (13, ''<RT:O''), (14, ''<RT:OK''), (16, ''<I''), (17, ''<I:''),
     (20, ''<IT''), (21, ''<IT:''), (24, ''<B''), (25, ''<B:''), (26, ''<B:O''),
     (27, ''<B:OK''), (29, ''<S''), (30, ''<S:''), (33, ''<D''), (34, ''<DS''),
     (35, ''<DS:''), (36, ''<DS:O''), (37, ''<DS:OK''), (39, ''<DS:E''), (40, ''<DS:ER''),
     (41, ''<DS:ERR''), (43, ''<DS:B''), (44, ''<DS:BU''), (45, ''<DS:BUS''), (46, ''<DS:BUSY''),
     (48, ''<DR''), (53, ''<U''), (54, ''<U:''), (55, ''<U:O''), (56, ''<U:OK''),
     (58, ''<P''), (59, ''<PE''), (60, ''<PE:''), (61, ''<PE:O''), (62, ''<PE:OK''),
     (64, ''<PE:E''), (65, ''<PE:ER''), (66, ''<PE:ERR''), (67, ''<PE:ERR1''), (69, ''<PT''),
     (70, ''<PT:''), (71, ''<PT:O''), (72, ''<PT:OK''), (74, ''<PT:E''), (75, ''<PT:ER''),
     (76, ''<PT:ERR''), (77, ''<PT:ERR1''), (79, ''<PM''), (80, ''<PM:''), (81, ''<PM:O''),
     (82, ''<PM:OK''), (84, ''<PM:E''), (85, ''<PM:ER''), (86, ''<PM:ERR''), (89, ''<PM:B''),
     (90, ''<PM:BU''), (91, ''<PM:BUS''), (92, ''<PM:BUSY''), (95, ''<PM:''), (101, ''<R:O''),
     (102, ''<R:OK'')]"

text \<open>States whose next bytes are read outside the table or through its wildcard rows.\<close>

definition exit_states :: "nat list" where
  "exit_states = [17, 21, 95, 30, 48, 86]"

text \<open>States that are only entered for a buffer of 7 or 9 bytes.\<close>

definition pm_states :: "nat list" where
  "pm_states = [80, 81, 82, 84, 85, 86, 89, 90, 91, 92]"

definition row_fits :: "nat \<times> nat \<times> nat \<Rightarrow> bool" where
  "row_fits = (\<lambda>(s, i, t).
     List.member exit_states s \<or>
     (case map_of state_words s of
        None \<Rightarrow> True
      | Some w \<Rightarrow>
          (case map_of final_types t of
             None \<Rightarrow> map_option uchar_str (map_of state_words t) = Some (uchar_str w @ [of_nat i]) \<and>
               (List.member pm_states t \<longleftrightarrow> List.member pm_states s)
           | Some T \<Rightarrow> i = 13 \<and>
               (if List.member pm_states s then T = MSG_UPLOAD_DOWNLOAD \<and> List.member pm_codes w
                else List.member fixed_frames (T, w)))))"

lemma rows_fit: "list_all row_fits transition_calls"
  unfolding transition_calls_def row_fits_def state_words_def final_types_def
  by (simp add: exit_states_def pm_states_def fixed_frames_def pm_codes_def INPUT_ALL_def
      map_of_Cons_code del: map_of.simps cong: map_of_key_cong)

end
