(* ===== verification/Parser_Correct.thy ===== *)
theory Parser_Correct
  imports Parser_Grammar
begin

text \<open>
  Correctness of \<open>parseData\<close> against the language \<open>frame\<close>. \<open>parse_good\<close> states that a
  result names a message of the language; \<open>parse_loop\<close> ends with such a result from every
  ordinary state whose text has been read (\<open>loop_ordinary\<close>), given one lemma for each of
  the six exits of the table. Conversely every message of the language is found
  (\<open>loop_reads_word\<close> and the \<open>find_\<close> lemmas).
\<close>

section \<open>One step\<close>

lemma byte_of_unat: "unat (b :: byte) = n \<Longrightarrow> b = of_nat n"
  by auto

lemma byte_of_unat_numeral: "unat (b :: byte) = numeral k \<Longrightarrow> b = numeral k"
  by (drule byte_of_unat) simp

lemma wildcard_rows: "list_all (\<lambda>(s, i, t). i = INPUT_ALL \<longrightarrow> s = 30 \<or> s = 48) transition_calls"
  by (simp add: transition_calls_def INPUT_ALL_def)

lemma finite_map_of: "parser_ok p \<Longrightarrow> isFiniteState p s \<longleftrightarrow> map_of final_types s \<noteq> None"
  by (simp add: finite_final_types map_of_eq_None_iff del: finite_iff)

lemma linear_step:
  assumes w: "map_of state_words s = Some w" and s: "s \<notin> set exit_states"
    and t: "delta s b = t" "t \<noteq> NO_TRANSITION"
  shows "(case map_of final_types t of
      None \<Rightarrow> (\<exists>w'. map_of state_words t = Some w' \<and> uchar_str w' = uchar_str w @ [b] \<and>
        (t \<in> set pm_states \<longleftrightarrow> s \<in> set pm_states))
    | Some T \<Rightarrow> b = CR \<and>
        (if s \<in> set pm_states then T = MSG_UPLOAD_DOWNLOAD \<and> w \<in> set pm_codes
         else (T, w) \<in> set fixed_frames))"
proof -
  have "(s, INPUT_ALL, t) \<notin> set transition_calls"
    using wildcard_rows s by (auto simp: list_all_iff exit_states_def)
  with delta_row [OF t] have "(s, unat b, t) \<in> set transition_calls" by blast
  then have "row_fits (s, unat b, t)"
    using rows_fit by (auto simp: list_all_iff)
  with w s show ?thesis
    by (auto simp: row_fits_def byte_of_unat intro: byte_of_unat_numeral
        split: option.splits if_splits)
qed

definition parse_good :: "ustring \<Rightarrow> ParseResult \<Rightarrow> bool" where
  "parse_good d r \<longleftrightarrow>
     (d \<noteq> [] \<longrightarrow> lastPosition r < length d) \<and>
     (resultType r = PARSE_OK \<longrightarrow>
        d \<noteq> [] \<and> frame (length d) (msgType r) (take (Suc (lastPosition r)) d))"

definition ends_good :: "parser \<Rightarrow> ustring \<Rightarrow> nat \<Rightarrow> nat \<Rightarrow> ParseResult \<Rightarrow> bool" where
  "ends_good p d pos s r \<longleftrightarrow> (\<exists>r'. parse_loop p d pos s r = Inr r' \<and> parse_good d r')"

text \<open>One iteration in an ordinary state.\<close>

lemma loop_ordinary_step:
  assumes "parser_ok p" and "s \<notin> {17, 21, 50, 95}" and "pos < length d"
  shows "parse_loop p d pos s r =
    (let r' = r\<lparr>lastPosition := pos\<rparr>; t = delta s (d ! pos) in
     if t = NO_TRANSITION then Inr (r'\<lparr>resultType := PARSE_BAD_FORMAT\<rparr>)
     else case map_of final_types t of
         Some T \<Rightarrow> Inr (r'\<lparr>msgType := T, resultType := PARSE_OK\<rparr>)
       | None \<Rightarrow> parse_loop p d (Suc pos) t r')"
proof -
  have "finishParse p t r'' = Inr (r''\<lparr>msgType := T, resultType := PARSE_OK\<rparr>)"
    if "map_of final_types t = Some T" for t T r''
    using finishParse_ok [OF assms(1) map_of_SomeD [OF that]] .
  then show ?thesis
    using assms
    by (subst parse_loop.simps)
      (auto simp: Let_def finite_map_of [OF assms(1)] simp del: finite_iff split: option.splits)
qed

lemma loop_end: "length d \<le> pos \<Longrightarrow> parse_loop p d pos s r = Inr r"
  by (subst parse_loop.simps) simp

text \<open>One iteration in a special state, when its function does not reach a finite state.\<close>

lemma loop_special_step:
  assumes "parser_ok p" and "s \<in> {17, 21, 50, 95}" and "pos < length d"
    and "processSpecialState s d pos = Inr sp" and "map_of final_types (newState sp) = None"
    and "\<not> formatError sp"
  shows "parse_loop p d pos s r =
    parse_loop p d (Suc (procPosition sp)) (newState sp) (r\<lparr>lastPosition := procPosition sp\<rparr>)"
  using assms
  by (subst parse_loop.simps)
    (simp add: Let_def finite_map_of [OF assms(1)] del: finite_iff)

lemma bad_good [intro]: "d \<noteq> [] \<Longrightarrow> pos < length d \<Longrightarrow> lastPosition r = pos \<Longrightarrow>
    resultType r \<noteq> PARSE_OK \<Longrightarrow> parse_good d r"
  by (simp add: parse_good_def)

section \<open>Ordinary states\<close>

lemma crlf_snoc: "uchar_str w = take n d \<Longrightarrow> n < length d \<Longrightarrow> d ! n = CR \<Longrightarrow>
    crlf w = take (Suc n) d"
  by (simp add: crlf_def take_Suc_conv_app_nth)

text \<open>
  From any ordinary state whose text has been read, the loop ends with a good result,
  provided it does so from the six exits.
\<close>

lemma loop_ordinary:
  assumes ok: "parser_ok p"
    and exits: "\<And>s w r. s \<in> set exit_states \<Longrightarrow> map_of state_words s = Some w \<Longrightarrow>
      take (length w) d = uchar_str w \<Longrightarrow> length w \<le> length d \<Longrightarrow>
      resultType r = PARSE_NOT_COMPLETE \<Longrightarrow> lastPosition r = length w - 1 \<Longrightarrow>
      (s \<in> set pm_states \<longleftrightarrow> pm) \<Longrightarrow> ends_good p d (length w) s r"
    and "map_of state_words s = Some w" "take pos d = uchar_str w" "pos = length w"
    and "pos \<le> length d" "resultType r = PARSE_NOT_COMPLETE"
    and "pos = 0 \<or> lastPosition r = pos - 1"
    and "s \<in> set pm_states \<longleftrightarrow> pm" "pm \<Longrightarrow> length d \<in> {7, 9}"
    and "pos = 0 \<Longrightarrow> s \<notin> set exit_states"
  shows "ends_good p d pos s r"
  using assms(3-)
proof (induction "length d - pos" arbitrary: pos s w r)
  case 0
  then show ?case
    by (cases "w = []") (auto simp: ends_good_def loop_end parse_good_def)
next
  case (Suc k)
  show ?case
  proof (cases "s \<in> set exit_states")
    case True
    with exits [OF True Suc.prems(1)] Suc.prems show ?thesis by auto
  next
    case False
    define t where "t = delta s (d ! pos)"
    define r' where "r' = r\<lparr>lastPosition := pos\<rparr>"
    from Suc.hyps(2) have pos: "pos < length d" by simp
    have special: "s \<notin> {17, 21, 50, 95}"
      using False Suc.prems(1) by (auto simp: exit_states_def state_words_def)
    note step = loop_ordinary_step [OF ok special pos, folded t_def, of r]
    have nonempty: "d \<noteq> []" using pos by auto
    show ?thesis
    proof (cases "t = NO_TRANSITION")
      case True
      then show ?thesis
        using step nonempty pos Suc.prems(5) by (auto simp: ends_good_def Let_def)
    next
      case t: False
      note ls = linear_step [OF Suc.prems(1) False t_def [symmetric] t]
      show ?thesis
      proof (cases "map_of final_types t")
        case None
        with ls obtain w' where w': "map_of state_words t = Some w'"
          "uchar_str w' = uchar_str w @ [d ! pos]" "t \<in> set pm_states \<longleftrightarrow> s \<in> set pm_states"
          by auto
        have "length w' = Suc pos"
          using arg_cong [OF w'(2), of length] Suc.prems(3) by simp
        then have "ends_good p d (Suc pos) t r'"
          using Suc.hyps Suc.prems w' pos
          by (intro Suc.hyps(1) [of _ _ w']) (auto simp: take_Suc_conv_app_nth r'_def)
        with step t None show ?thesis by (simp add: ends_good_def Let_def r'_def)
      next
        case (Some T)
        with ls have cr: "d ! pos = CR" and fr: "if s \<in> set pm_states
            then T = MSG_UPLOAD_DOWNLOAD \<and> w \<in> set pm_codes else (T, w) \<in> set fixed_frames"
          by auto
        have "crlf w = take (Suc pos) d"
          using crlf_snoc [OF Suc.prems(2) [symmetric] pos cr] .
        with fr Suc.prems(7,8) have "frame (length d) T (take (Suc pos) d)"
          by (metis frame_fixed frame_pm_code insertE singletonD)
        with step t Some nonempty pos show ?thesis
          by (simp add: ends_good_def Let_def parse_good_def)
      qed
    qed
  qed
qed

section \<open>The exits of the table\<close>

lemma exit_words [simp]:
  "map_of state_words 0 = Some []" "map_of state_words 17 = Some ''<I:''"
  "map_of state_words 21 = Some ''<IT:''" "map_of state_words 95 = Some ''<PM:''"
  "map_of state_words 30 = Some ''<S:''" "map_of state_words 48 = Some ''<DR''"
  "map_of state_words 86 = Some ''<PM:ERR''" "map_of state_words 80 = Some ''<PM:''"
  by (simp_all add: state_words_def)

lemma delta_CR_only:
  "delta 31 b = (if b = CR then 32 else NO_TRANSITION)"
  "delta 22 b = (if b = CR then 23 else NO_TRANSITION)"
  "delta 51 b = (if b = CR then 52 else NO_TRANSITION)"
  "delta 87 b = (if b = CR then 88 else NO_TRANSITION)"
  "delta 96 b = (if b = CR then 97 else NO_TRANSITION)"
  using delta_row [of 31 b] delta_row [of 22 b] delta_row [of 51 b] delta_row [of 87 b]
    delta_row [of 96 b]
  by (auto simp: cdc_table transition_calls_def INPUT_ALL_def dest: byte_of_unat_numeral)

lemma delta_49: "delta 49 b = (if b = of_char CHR '':'' then 50 else NO_TRANSITION)"
  using delta_row [of 49 b]
  by (auto simp: cdc_table transition_calls_def INPUT_ALL_def dest: byte_of_unat_numeral)

lemma delta_86: "delta 86 b = (if b \<in> {50, 51, 52, 53, 54, 55} then 87 else NO_TRANSITION)"
  using delta_row [of 86 b]
  by (auto simp: cdc_table transition_calls_def INPUT_ALL_def dest: byte_of_unat_numeral)

lemma final_None [simp]:
  "map_of final_types 0 = None" "map_of final_types 1 = None"
  "map_of final_types 2 = None" "map_of final_types 3 = None"
  "map_of final_types 4 = None" "map_of final_types 6 = None"
  "map_of final_types 7 = None" "map_of final_types 9 = None"
  "map_of final_types 10 = None" "map_of final_types 11 = None"
  "map_of final_types 12 = None" "map_of final_types 13 = None"
  "map_of final_types 14 = None" "map_of final_types 16 = None"
  "map_of final_types 17 = None" "map_of final_types 18 = None"
  "map_of final_types 20 = None" "map_of final_types 21 = None"
  "map_of final_types 22 = None" "map_of final_types 24 = None"
  "map_of final_types 25 = None" "map_of final_types 26 = None"
  "map_of final_types 27 = None" "map_of final_types 29 = None"
  "map_of final_types 30 = None" "map_of final_types 31 = None"
  "map_of final_types 33 = None" "map_of final_types 34 = None"
  "map_of final_types 35 = None" "map_of final_types 36 = None"
  "map_of final_types 37 = None" "map_of final_types 39 = None"
  "map_of final_types 40 = None" "map_of final_types 41 = None"
  "map_of final_types 43 = None" "map_of final_types 44 = None"
  "map_of final_types 45 = None" "map_of final_types 46 = None"
  "map_of final_types 48 = None" "map_of final_types 49 = None"
  "map_of final_types 50 = None" "map_of final_types 51 = None"
  "map_of final_types 53 = None" "map_of final_types 54 = None"
  "map_of final_types 55 = None" "map_of final_types 56 = None"
  "map_of final_types 58 = None" "map_of final_types 59 = None"
  "map_of final_types 60 = None" "map_of final_types 61 = None"
  "map_of final_types 62 = None" "map_of final_types 64 = None"
  "map_of final_types 65 = None" "map_of final_types 66 = None"
  "map_of final_types 67 = None" "map_of final_types 69 = None"
  "map_of final_types 70 = None" "map_of final_types 71 = None"
  "map_of final_types 72 = None" "map_of final_types 74 = None"
  "map_of final_types 75 = None" "map_of final_types 76 = None"
  "map_of final_types 77 = None" "map_of final_types 79 = None"
  "map_of final_types 80 = None" "map_of final_types 81 = None"
  "map_of final_types 82 = None" "map_of final_types 84 = None"
  "map_of final_types 85 = None" "map_of final_types 86 = None"
  "map_of final_types 87 = None" "map_of final_types 89 = None"
  "map_of final_types 90 = None" "map_of final_types 91 = None"
  "map_of final_types 92 = None" "map_of final_types 95 = None"
  "map_of final_types 96 = None" "map_of final_types 101 = None"
  "map_of final_types 102 = None"
  unfolding final_types_def
  by (simp_all add: map_of_Cons_code del: map_of.simps cong: map_of_key_cong)

lemma final_Some [simp]:
  "map_of final_types 5 = Some MSG_ERROR"
  "map_of final_types 8 = Some MSG_TEST"
  "map_of final_types 103 = Some MSG_RES_USB"
  "map_of final_types 15 = Some MSG_RES_TR"
  "map_of final_types 19 = Some MSG_USB_INFO"
  "map_of final_types 23 = Some MSG_TR_INFO"
  "map_of final_types 28 = Some MSG_USB_CONN"
  "map_of final_types 32 = Some MSG_SPI_STAT"
  "map_of final_types 38 = Some MSG_DATA_SEND"
  "map_of final_types 42 = Some MSG_DATA_SEND"
  "map_of final_types 47 = Some MSG_DATA_SEND"
  "map_of final_types 52 = Some MSG_ASYNC"
  "map_of final_types 57 = Some MSG_SWITCH"
  "map_of final_types 63 = Some MSG_MODE_PROGRAM"
  "map_of final_types 68 = Some MSG_MODE_PROGRAM"
  "map_of final_types 73 = Some MSG_MODE_NORMAL"
  "map_of final_types 78 = Some MSG_MODE_NORMAL"
  "map_of final_types 83 = Some MSG_UPLOAD_DOWNLOAD"
  "map_of final_types 88 = Some MSG_UPLOAD_DOWNLOAD"
  "map_of final_types 93 = Some MSG_UPLOAD_DOWNLOAD"
  "map_of final_types 97 = Some MSG_DOWNLOAD_DATA"
  unfolding final_types_def
  by (simp_all add: map_of_Cons_code del: map_of.simps cong: map_of_key_cong)

lemma NO_TRANSITION_val [simp]: "NO_TRANSITION = 65535"
  by (simp add: NO_TRANSITION_def)

lemma ends_good_end:
  "length d \<le> pos \<Longrightarrow> resultType r \<noteq> PARSE_OK \<Longrightarrow> lastPosition r < length d \<Longrightarrow>
     ends_good p d pos s r"
  by (simp add: ends_good_def loop_end parse_good_def)

text \<open>The last byte of a message: a carriage return leads to a finite state.\<close>

lemma ends_good_CR:
  assumes "parser_ok p" and "s \<notin> {17, 21, 50, 95}" and "pos \<le> length d"
    and "delta s CR = t" and "map_of final_types t = Some T"
    and "\<And>b. b \<noteq> CR \<Longrightarrow> delta s b = NO_TRANSITION" and "t \<noteq> NO_TRANSITION"
    and "resultType r \<noteq> PARSE_OK" and "pos = length d \<Longrightarrow> lastPosition r < length d"
    and "pos < length d \<Longrightarrow> d ! pos = CR \<Longrightarrow> frame (length d) T (take pos d @ [CR])"
  shows "ends_good p d pos s r"
proof (cases "pos = length d")
  case True
  with assms show ?thesis by (simp add: ends_good_end)
next
  case False
  with assms(3) have pos: "pos < length d" by simp
  then have "d \<noteq> []" by auto
  with pos assms show ?thesis
    by (cases "d ! pos = CR")
      (auto simp: ends_good_def loop_ordinary_step Let_def parse_good_def take_Suc_conv_app_nth
        simp del: NO_TRANSITION_val)
qed

lemma exit_spi:
  assumes ok: "parser_ok p" and d: "take 3 d = uchar_str ''<S:''"
    and r: "resultType r = PARSE_NOT_COMPLETE" "lastPosition r = 2"
  shows "ends_good p d 3 30 r"
proof (cases "length d \<le> 3")
  case True
  with arg_cong [OF d, of length] r show ?thesis by (simp add: ends_good_end)
next
  case False
  then have "take 4 d = uchar_str ''<S:'' @ [d ! 3]"
    using d take_Suc_conv_app_nth [of 3 d] by simp
  then have "frame (length d) MSG_SPI_STAT (take 4 d @ [CR])"
    using frame_spi [of "length d" "d ! 3"] by simp
  then have "ends_good p d 4 31 (r\<lparr>lastPosition := 3\<rparr>)"
    using ok r False by (intro ends_good_CR [where t = 32]) (auto simp: delta_CR_only)
  then show ?thesis
    using loop_ordinary_step [OF ok, of 30 3 d r] False by (simp add: ends_good_def cdc_table)
qed

lemma pm_err_code:
  "b \<in> {50, 51, 52, 53, 54, 55} \<Longrightarrow>
     \<exists>s \<in> set pm_codes. (uchar_str ''<PM:ERR'' @ [b]) @ [CR] = crlf s"
  by (elim insertE emptyE) (simp_all add: pm_codes_def crlf_def)

lemma exit_86:
  assumes ok: "parser_ok p" and d: "take 7 d = uchar_str ''<PM:ERR''" and len: "length d \<in> {7, 9}"
    and r: "resultType r = PARSE_NOT_COMPLETE" "lastPosition r = 6"
  shows "ends_good p d 7 86 r"
proof (cases "length d = 7")
  case True
  with r show ?thesis by (simp add: ends_good_end)
next
  case False
  with len have len: "length d = 9" by simp
  then have d8: "take 8 d = uchar_str ''<PM:ERR'' @ [d ! 7]"
    using d take_Suc_conv_app_nth [of 7 d] by simp
  show ?thesis
  proof (cases "d ! 7 \<in> {50, 51, 52, 53, 54, 55}")
    case True
    from pm_err_code [OF True, folded d8]
    have "frame (length d) MSG_UPLOAD_DOWNLOAD (take 8 d @ [CR])"
      using frame_pm_code len by fastforce
    then have "ends_good p d 8 87 (r\<lparr>lastPosition := 7\<rparr>)"
      using ok r len by (intro ends_good_CR [where t = 88]) (auto simp: delta_CR_only)
    then show ?thesis
      using loop_ordinary_step [OF ok, of 86 7 d r] len True by (simp add: ends_good_def delta_86)
  next
    case False
    then have "parse_loop p d 7 86 r =
        Inr (r\<lparr>lastPosition := 7, resultType := PARSE_BAD_FORMAT\<rparr>)"
      using loop_ordinary_step [OF ok, of 86 7 d r] len by (simp add: delta_86)
    then show ?thesis using len by (simp add: ends_good_def parse_good_def)
  qed
qed

lemma take_after: "take k d = w \<Longrightarrow> k \<le> n \<Longrightarrow> take n d = w @ take (n - k) (drop k d)"
  using take_add [of k "n - k" d] by simp

text \<open>
  A buffer of the wrong size keeps the parser in state 21 to its end.
\<close>

lemma tr_stuck:
  assumes ok: "parser_ok p" and "length d \<le> 37"
    and "length d \<noteq> 21 \<and> length d \<noteq> 37 \<or> length d = 21 \<and> d ! 20 \<noteq> CR"
    and "pos \<le> length d" "resultType r = PARSE_NOT_COMPLETE"
    and "pos = length d \<Longrightarrow> lastPosition r < length d"
  shows "ends_good p d pos 21 r"
  using assms(4-)
proof (induction "length d - pos" arbitrary: pos r)
  case 0
  then show ?case by (simp add: ends_good_end)
next
  case (Suc k)
  from Suc.hyps(2) have pos: "pos < length d" by simp
  have "processSpecialState 21 d pos =
      Inr \<lparr>newState = 21, procPosition = pos, formatError = False\<rparr>"
    using assms(2,3) by (auto simp: processSpecialState_def processTRInfo_def cdc_defs Let_def)
  from loop_special_step [OF ok _ pos this]
  have "parse_loop p d pos 21 r = parse_loop p d (Suc pos) 21 (r\<lparr>lastPosition := pos\<rparr>)"
    by simp
  moreover have "ends_good p d (Suc pos) 21 (r\<lparr>lastPosition := pos\<rparr>)"
    using Suc.hyps Suc.prems pos by (intro Suc.hyps(1)) auto
  ultimately show ?case by (simp add: ends_good_def)
qed

lemma exit_tr:
  assumes ok: "parser_ok p" and d: "take 4 d = uchar_str ''<IT:''" and "4 \<le> length d"
    and r: "resultType r = PARSE_NOT_COMPLETE" "lastPosition r = 3"
  shows "ends_good p d 4 21 r"
proof -
  consider "length d \<le> 37" "length d \<noteq> 21 \<and> length d \<noteq> 37 \<or> length d = 21 \<and> d ! 20 \<noteq> CR"
    | "length d = 21" "d ! 20 = CR" | "37 \<le> length d"
    by fastforce
  then show ?thesis
  proof cases
    case 1
    then show ?thesis using tr_stuck [OF ok] assms by simp
  next
    case 2
    have sp: "processSpecialState 21 d 4 =
        Inr \<lparr>newState = 22, procPosition = 19, formatError = False\<rparr>"
      using 2 by (simp add: processSpecialState_def processTRInfo_def cdc_defs Let_def)
    have "frame (length d) MSG_TR_INFO (take 20 d @ [CR])"
      using frame_tr_std [of "length d" "take 16 (drop 4 d)"] 2 take_after [OF d, of 20] by simp
    then have "ends_good p d 20 22 (r\<lparr>lastPosition := 19\<rparr>)"
      using ok r 2 by (intro ends_good_CR [where t = 23]) (auto simp: delta_CR_only)
    then show ?thesis
      using loop_special_step [OF ok _ _ sp, of r] 2 by (simp add: ends_good_def)
  next
    case 3
    then have sp: "processSpecialState 21 d 4 =
        Inr \<lparr>newState = 22, procPosition = 35, formatError = False\<rparr>"
      by (auto simp: processSpecialState_def processTRInfo_def cdc_defs Let_def)
    have "frame (length d) MSG_TR_INFO (take 36 d @ [CR])"
      using frame_tr_ext [of "length d" "take 32 (drop 4 d)"] 3 take_after [OF d, of 36] by simp
    then have "ends_good p d 36 22 (r\<lparr>lastPosition := 35\<rparr>)"
      using ok r 3 by (intro ends_good_CR [where t = 23]) (auto simp: delta_CR_only)
    then show ?thesis
      using loop_special_step [OF ok _ _ sp, of r] 3 by (simp add: ends_good_def)
  qed
qed

lemma asyn_end:
  assumes ok: "parser_ok p" and d: "take 5 d = uchar_str ''<DR'' @ [len, 58]" and "5 \<le> length d"
    and r: "resultType r = PARSE_NOT_COMPLETE" "lastPosition r = 4"
  shows "ends_good p d 5 50 r"
proof -
  define n where "n = unat len"
  from d have "take 5 d ! 3 = len" by simp
  with assms(3) have d3: "d ! 3 = len" by simp
  have asyn: "processSpecialState 50 d 5 =
      (if length d = 6 then Inr \<lparr>newState = 50, procPosition = 5, formatError = False\<rparr>
       else if length d \<le> 5 + n
         then Inr \<lparr>newState = 51, procPosition = length d - 1, formatError = False\<rparr>
       else Inr \<lparr>newState = 51, procPosition = 4 + n, formatError = False\<rparr>)"
    if "5 < length d"
    using that d3 by (auto simp: processSpecialState_def processAsynData_def Let_def n_def)
  consider "length d = 5" | "length d = 6" | "6 < length d" "length d \<le> 5 + n"
    | "6 < length d" "5 + n < length d"
    using assms(3) by linarith
  then show ?thesis
  proof cases
    case 1
    then show ?thesis using r by (simp add: ends_good_end)
  next
    case 2
    then show ?thesis
      using loop_special_step [OF ok, of 50 5 d _ r] asyn r
      by (simp add: ends_good_def loop_end parse_good_def)
  next
    case 3
    then show ?thesis
      using loop_special_step [OF ok, of 50 5 d _ r] asyn r
      by (simp add: ends_good_def loop_end parse_good_def)
  next
    case 4
    have "take (5 + n) d = uchar_str ''<DR'' @ [len] @ uchar_str '':'' @ take n (drop 5 d)"
      using take_after [OF d, of "5 + n"] by simp
    moreover have "n \<noteq> 0 \<or> length d \<noteq> 6" "length (take n (drop 5 d)) = unat len"
      using 4 by (auto simp: n_def)
    ultimately have "frame (length d) MSG_ASYNC (take (5 + n) d @ [CR])"
      using frame_async [of "take n (drop 5 d)" len "length d"] 4 by auto
    then have "ends_good p d (5 + n) 51 (r\<lparr>lastPosition := 4 + n\<rparr>)"
      using ok r 4 by (intro ends_good_CR [where t = 52]) (auto simp: delta_CR_only)
    then show ?thesis
      using loop_special_step [OF ok, of 50 5 d _ r] asyn 4 by (simp add: ends_good_def)
  qed
qed

lemma exit_async:
  assumes ok: "parser_ok p" and d: "take 3 d = uchar_str ''<DR''" and "3 \<le> length d"
    and r: "resultType r = PARSE_NOT_COMPLETE" "lastPosition r = 2"
  shows "ends_good p d 3 48 r"
proof -
  consider "length d = 3" | "length d = 4" | "4 < length d" "d ! 4 \<noteq> 58"
    | "4 < length d" "d ! 4 = 58"
    using assms(3) by linarith
  then show ?thesis
  proof cases
    case 1
    then show ?thesis using r by (simp add: ends_good_end)
  next
    case 2
    then show ?thesis
      using loop_ordinary_step [OF ok, of 48 3 d r] r
      by (simp add: ends_good_def cdc_table loop_end parse_good_def)
  next
    case 3
    then show ?thesis
      using loop_ordinary_step [OF ok, of 48 3 d r]
        loop_ordinary_step [OF ok, of 49 4 d "r\<lparr>lastPosition := 3\<rparr>"] r
      by (auto simp: ends_good_def cdc_table delta_49 parse_good_def)
  next
    case 4
    have "take 5 d = uchar_str ''<DR'' @ [d ! 3, 58]"
      using d 4 take_Suc_conv_app_nth [of 3 d] take_Suc_conv_app_nth [of 4 d] by simp
    then have "ends_good p d 5 50 (r\<lparr>lastPosition := 4\<rparr>)"
      using asyn_end [OF ok] 4 r by simp
    then show ?thesis
      using loop_ordinary_step [OF ok, of 48 3 d r]
        loop_ordinary_step [OF ok, of 49 4 d "r\<lparr>lastPosition := 3\<rparr>"] 4
      by (simp add: ends_good_def cdc_table delta_49)
  qed
qed

lemma exit_pm:
  assumes ok: "parser_ok p" and d: "take 4 d = uchar_str ''<PM:''" and "4 \<le> length d"
    and r: "resultType r = PARSE_NOT_COMPLETE" "lastPosition r = 3"
  shows "ends_good p d 4 95 r"
proof -
  have pm: "processSpecialState 95 d 4 =
      (if length d = 5 then Inr \<lparr>newState = 95, procPosition = 4, formatError = False\<rparr>
       else if length d = 7 \<or> length d = 9
         then Inr \<lparr>newState = 80, procPosition = 3, formatError = False\<rparr>
       else Inr \<lparr>newState = 96, procPosition = length d - 2, formatError = False\<rparr>)"
    by (auto simp: processSpecialState_def processPMRespData_def Let_def)
  consider "length d = 4" | "length d = 5" | "length d \<in> {7, 9}"
    | "5 < length d" "length d \<noteq> 7" "length d \<noteq> 9"
    using assms(3) by fastforce
  then show ?thesis
  proof cases
    case 1
    then show ?thesis using r by (simp add: ends_good_end)
  next
    case 2
    then show ?thesis
      using loop_special_step [OF ok, of 95 4 d _ r] pm r
      by (simp add: ends_good_def loop_end parse_good_def)
  next
    case 3
    have "ends_good p d 4 80 (r\<lparr>lastPosition := 3\<rparr>)"
    proof (rule loop_ordinary [OF ok, where pm = True and w = "''<PM:''"])
      fix s w and r :: ParseResult
      assume "s \<in> set exit_states" and "map_of state_words s = Some w"
        and w: "take (length w) d = uchar_str w" "length w \<le> length d"
          "resultType r = PARSE_NOT_COMPLETE" "lastPosition r = length w - 1"
        and "s \<in> set pm_states \<longleftrightarrow> True"
      then have "s = 86" by (auto simp: exit_states_def pm_states_def)
      with \<open>map_of state_words s = Some w\<close> have "w = ''<PM:ERR''" by simp
      moreover from this have "length w = 7" by simp
      ultimately show "ends_good p d (length w) s r"
        using w 3 \<open>s = 86\<close> exit_86 [OF ok] by (simp del: list.size)
    qed (use d r assms(3) 3 in \<open>auto simp: pm_states_def\<close>)
    then show ?thesis
      using loop_special_step [OF ok, of 95 4 d _ r] pm 3 by (auto simp: ends_good_def)
  next
    case 4
    define n where "n = length d - 5"
    from 4 have n: "length d - 2 = 3 + n" "length d = n + 5" by (auto simp: n_def)
    have "frame (length d) MSG_DOWNLOAD_DATA (take (4 + n) d @ [CR])"
      using frame_pm_data [of "length d" "take n (drop 4 d)"] 4 n take_after [OF d, of "4 + n"]
      by simp
    then have "ends_good p d (4 + n) 96 (r\<lparr>lastPosition := 3 + n\<rparr>)"
      using ok r n by (intro ends_good_CR [where t = 97]) (auto simp: delta_CR_only)
    then show ?thesis
      using loop_special_step [OF ok, of 95 4 d _ r] pm 4 n by (simp add: ends_good_def)
  qed
qed

section \<open>The USB identification\<close>

text \<open>The rest of a USB identification, read in a given section.\<close>

fun usb_text :: "nat \<Rightarrow> ustring \<Rightarrow> bool" where
  "usb_text sec [] = False"
| "usb_text sec (b # w) =
     (if b = CR \<and> sec = USB_ID then w = []
      else if b = HASH then
        (if sec = USB_TYPE then usb_text USB_VERSION w
         else if sec = USB_VERSION then usb_text USB_ID w else False)
      else if usb_byte_refused sec b then False
      else usb_text sec w)"

lemma usb_id_text:
  "usb_text USB_ID w \<longleftrightarrow>
     (\<exists>sn rest. list_all checkUSBDeviceId sn \<and> w = sn @ CR # rest \<and> rest = [])"
proof (induction w)
  case (Cons b w)
  have "\<not> checkUSBDeviceId CR" "\<not> checkUSBDeviceId HASH"
    by (simp_all add: checkUSBDeviceId_def)
  then show ?case
    unfolding split_at_Cons Cons.IH [symmetric] by (auto simp: usb_byte_refused_def cdc_defs)
qed simp

lemma usb_version_text:
  "usb_text USB_VERSION w \<longleftrightarrow>
     (\<exists>ver rest. list_all checkUSBDeviceVersion ver \<and> w = ver @ HASH # rest \<and>
        usb_text USB_ID rest)"
proof (induction w)
  case (Cons b w)
  have "\<not> checkUSBDeviceVersion HASH"
    by (simp add: checkUSBDeviceVersion_def)
  then show ?case
    unfolding split_at_Cons Cons.IH [symmetric] by (auto simp: usb_byte_refused_def cdc_defs)
qed simp

lemma usb_type_text:
  "usb_text USB_TYPE w \<longleftrightarrow>
     (\<exists>ty rest. list_all (\<lambda>b. b \<noteq> HASH) ty \<and> w = ty @ HASH # rest \<and>
        usb_text USB_VERSION rest)"
proof (induction w)
  case (Cons b w)
  show ?case
    unfolding split_at_Cons Cons.IH [symmetric]
    by (auto simp: usb_byte_refused_def checkUSBDeviceType_def cdc_defs)
qed simp

lemma usb_textI:
  assumes "HASH \<notin> set ty" "list_all checkUSBDeviceVersion ver" "list_all checkUSBDeviceId sn"
  shows "usb_text USB_TYPE (ty @ HASH # ver @ HASH # sn @ [CR])"
proof -
  have "usb_text USB_ID (sn @ [CR])"
    unfolding usb_id_text using assms(3) by blast
  then have "usb_text USB_VERSION (ver @ HASH # sn @ [CR])"
    unfolding usb_version_text using assms(2) by blast
  moreover have "list_all (\<lambda>b. b \<noteq> HASH) ty" using assms(1) by (auto simp: list_all_iff)
  ultimately show ?thesis
    unfolding usb_type_text by blast
qed

lemma frame_usb_text: "frame n MSG_USB_INFO (uchar_str ''<I:'' @ w)" if "usb_text USB_TYPE w"
proof -
  from that obtain ty ver sn where "w = ty @ HASH # ver @ HASH # sn @ [CR]"
    and "list_all (\<lambda>b. b \<noteq> HASH) ty" "list_all checkUSBDeviceVersion ver"
    "list_all checkUSBDeviceId sn"
    unfolding usb_type_text usb_version_text usb_id_text by auto
  then show ?thesis
    using frame_usb [of ty ver sn n] by (auto simp: list_all_iff)
qed

text \<open>The loop reads such a text, and stops behind it.\<close>

lemma usb_loop_step:
  "i < length d \<Longrightarrow> usb_loop d i sec r =
     (if d ! i = CR \<and> sec = USB_ID then r\<lparr>procPosition := i, newState := 19\<rparr>
      else if d ! i = HASH then
        (if sec = USB_TYPE then usb_loop d (Suc i) USB_VERSION (r\<lparr>procPosition := i\<rparr>)
         else if sec = USB_VERSION then usb_loop d (Suc i) USB_ID (r\<lparr>procPosition := i\<rparr>)
         else r\<lparr>procPosition := i, formatError := True\<rparr>)
      else if usb_byte_refused sec (d ! i) then r\<lparr>procPosition := i, formatError := True\<rparr>
      else usb_loop d (Suc i) sec (r\<lparr>procPosition := i\<rparr>))"
  by (subst usb_loop.simps) (simp add: Let_def)

lemma usb_loop_end: "length d \<le> i \<Longrightarrow> usb_loop d i sec r = r"
  by (subst usb_loop.simps) simp

lemma usb_loop_reads:
  "drop i d = w @ rest \<Longrightarrow> usb_text sec w \<Longrightarrow>
     usb_loop d i sec r = r\<lparr>newState := 19, procPosition := i + length w - 1\<rparr>"
proof (induction w arbitrary: i sec r)
  case (Cons b w)
  then have "drop i d = b # (w @ rest)" by simp
  note i = drop_ConsD [OF this]
  show ?case
    using Cons.prems(2) by (auto simp: usb_loop_step [OF i(1)] i(2) Cons.IH [OF i(3)] split: if_splits)
qed simp

lemma usb_loop_sound:
  assumes "newState (usb_loop d i sec r) \<noteq> newState r" "\<not> formatError (usb_loop d i sec r)"
  shows "newState (usb_loop d i sec r) = 19 \<and>
    (\<exists>w. usb_text sec w \<and> take (Suc (procPosition (usb_loop d i sec r))) d = take i d @ w)"
  using assms
proof (induction "length d - i" arbitrary: i sec r)
  case 0
  then show ?case by (simp add: usb_loop_end)
next
  case (Suc k)
  from Suc.hyps(2) have i: "i < length d" by simp
  then have snoc: "take (Suc i) d @ w = take i d @ (d ! i # w)" for w
    by (simp add: take_Suc_conv_app_nth)
  have IH: "newState (usb_loop d (Suc i) sec' (r\<lparr>procPosition := i\<rparr>)) = 19 \<and>
      (\<exists>w. usb_text sec' w \<and> take (Suc (procPosition (usb_loop d (Suc i) sec'
        (r\<lparr>procPosition := i\<rparr>)))) d = take i d @ (d ! i # w))"
    if "usb_loop d i sec r = usb_loop d (Suc i) sec' (r\<lparr>procPosition := i\<rparr>)" for sec'
    unfolding snoc [symmetric] using Suc.hyps Suc.prems that by (intro Suc.hyps(1)) auto
  note step = usb_loop_step [OF i, of sec r]
  consider "d ! i = CR" "sec = USB_ID" | "d ! i = HASH" "sec = USB_TYPE"
    | "d ! i = HASH" "sec = USB_VERSION"
    | "d ! i \<noteq> HASH" "\<not> (d ! i = CR \<and> sec = USB_ID)" "\<not> usb_byte_refused sec (d ! i)"
    using Suc.prems(2) by (fastforce simp: step split: if_splits)
  then show ?case
  proof cases
    case 1
    then show ?thesis
      using i by (auto simp: usb_loop_step take_Suc_conv_app_nth intro!: exI [of _ "[CR]"])
  next
    case 2
    then have st: "usb_loop d i sec r = usb_loop d (Suc i) USB_VERSION (r\<lparr>procPosition := i\<rparr>)"
      using i by (simp add: usb_loop_step cdc_defs)
    from IH [OF st] obtain w where "usb_text USB_VERSION w"
      "take (Suc (procPosition (usb_loop d i sec r))) d = take i d @ (d ! i # w)"
      "newState (usb_loop d i sec r) = 19"
      unfolding st by blast
    with 2 show ?thesis by (auto simp: cdc_defs intro!: exI [of _ "HASH # w"])
  next
    case 3
    then have st: "usb_loop d i sec r = usb_loop d (Suc i) USB_ID (r\<lparr>procPosition := i\<rparr>)"
      using i by (simp add: usb_loop_step cdc_defs)
    from IH [OF st] obtain w where "usb_text USB_ID w"
      "take (Suc (procPosition (usb_loop d i sec r))) d = take i d @ (d ! i # w)"
      "newState (usb_loop d i sec r) = 19"
      unfolding st by blast
    with 3 show ?thesis by (auto simp: cdc_defs intro!: exI [of _ "HASH # w"])
  next
    case 4
    then have st: "usb_loop d i sec r = usb_loop d (Suc i) sec (r\<lparr>procPosition := i\<rparr>)"
      by (auto simp: step)
    from IH [OF st] obtain w where "usb_text sec w"
      "take (Suc (procPosition (usb_loop d i sec r))) d = take i d @ (d ! i # w)"
      "newState (usb_loop d i sec r) = 19"
      unfolding st by blast
    with 4 show ?thesis by (auto intro!: exI [of _ "d ! i # w"])
  qed
qed

lemma usb_loop_cases:
  assumes "i < length d" and "newState (usb_loop d i sec r) \<noteq> 19"
    and "\<not> formatError (usb_loop d i sec r)"
  shows "\<exists>sec'. usb_loop d i sec r = usb_loop d (Suc i) sec' (r\<lparr>procPosition := i\<rparr>)"
  using assms(2,3) by (auto simp: usb_loop_step [OF assms(1)] split: if_splits)

lemma usb_loop_unfinished:
  "i < length d \<Longrightarrow> newState (usb_loop d i sec r) = newState r \<Longrightarrow> newState r \<noteq> 19 \<Longrightarrow>
     \<not> formatError (usb_loop d i sec r) \<Longrightarrow> procPosition (usb_loop d i sec r) = length d - 1"
proof (induction "length d - i" arbitrary: i sec r)
  case (Suc k)
  show ?case
  proof (cases "Suc i = length d")
    case True
    with Suc.prems obtain sec' where
      "usb_loop d i sec r = usb_loop d (Suc i) sec' (r\<lparr>procPosition := i\<rparr>)"
      using usb_loop_cases [of i d sec r] by auto
    with True show ?thesis by (auto simp: usb_loop_end)
  next
    case False
    with Suc.prems obtain sec' where
      st: "usb_loop d i sec r = usb_loop d (Suc i) sec' (r\<lparr>procPosition := i\<rparr>)"
      using usb_loop_cases [of i d sec r] by auto
    show ?thesis
      unfolding st using Suc.hyps Suc.prems False st by (intro Suc.hyps(1)) auto
  qed
qed simp

lemma exit_usb:
  assumes ok: "parser_ok p" and d: "take 3 d = uchar_str ''<I:''" and "3 \<le> length d"
    and r: "resultType r = PARSE_NOT_COMPLETE" "lastPosition r = 2"
  shows "ends_good p d 3 17 r"
proof -
  define sp where
    "sp = usb_loop d 3 USB_TYPE \<lparr>newState = 18, procPosition = 3, formatError = False\<rparr>"
  have usb: "processSpecialState 17 d 3 =
      (if length d = 4 then Inr \<lparr>newState = 17, procPosition = 3, formatError = False\<rparr>
       else Inr sp)"
    by (auto simp: processSpecialState_def processUSBInfo_def sp_def Let_def)
  have bound: "procPosition sp < length d" if "3 < length d"
    using usb_loop_bounds [of 3 d] that unfolding sp_def by blast
  consider "length d = 3" | "length d = 4" | "4 < length d" "formatError sp"
    | "4 < length d" "\<not> formatError sp" "newState sp = 18"
    | "4 < length d" "\<not> formatError sp" "newState sp \<noteq> 18"
    using assms(3) by linarith
  then show ?thesis
  proof cases
    case 1
    then show ?thesis using r by (simp add: ends_good_end)
  next
    case 2
    then show ?thesis
      using loop_special_step [OF ok, of 17 3 d _ r] usb r
      by (simp add: ends_good_def loop_end parse_good_def)
  next
    case 3
    then have "parse_loop p d 3 17 r = Inr (r\<lparr>lastPosition := procPosition sp,
        resultType := PARSE_BAD_FORMAT\<rparr>)"
      using ok usb by (subst parse_loop.simps) (simp add: Let_def)
    then show ?thesis using bound 3 by (simp add: ends_good_def parse_good_def)
  next
    case 4
    have "procPosition sp = length d - 1"
      using usb_loop_unfinished [of 3 d USB_TYPE] 4 unfolding sp_def by simp
    then show ?thesis
      using loop_special_step [OF ok, of 17 3 d sp r] usb r 4
      by (simp add: ends_good_def loop_end parse_good_def)
  next
    case 5
    with usb_loop_sound [of d 3 USB_TYPE "\<lparr>newState = 18, procPosition = 3, formatError = False\<rparr>"]
    obtain w where w: "newState sp = 19" "usb_text USB_TYPE w"
      "take (Suc (procPosition sp)) d = take 3 d @ w"
      unfolding sp_def [symmetric] by auto
    with ok usb 5 have "parse_loop p d 3 17 r = Inr (r\<lparr>lastPosition := procPosition sp,
        msgType := MSG_USB_INFO, resultType := PARSE_OK\<rparr>)"
      by (subst parse_loop.simps) (simp add: Let_def final_types_def)
    with w bound 5 d frame_usb_text [OF w(2)] show ?thesis
      by (auto simp: ends_good_def parse_good_def)
  qed
qed

section \<open>Soundness of parseData\<close>

lemma all_exits:
  assumes "parser_ok p" and "s \<in> set exit_states" and "map_of state_words s = Some w"
    and "take (length w) d = uchar_str w" and "length w \<le> length d"
    and "resultType r = PARSE_NOT_COMPLETE" and "lastPosition r = length w - 1"
    and "s \<notin> set pm_states"
  shows "ends_good p d (length w) s r"
proof -
  have len: "length ''<I:'' = 3" "length ''<IT:'' = 4" "length ''<PM:'' = 4" "length ''<S:'' = 3"
    "length ''<DR'' = 3"
    by simp_all
  have "s \<in> {17, 21, 95, 30, 48}" using assms(2,8) by (auto simp: exit_states_def pm_states_def)
  then consider "s = 17" | "s = 21" | "s = 95" | "s = 30" | "s = 48" by blast
  then show ?thesis
  proof cases
    case 1
    with assms(3) have "w = ''<I:''" by simp
    with 1 assms exit_usb len show ?thesis by (simp del: list.size)
  next
    case 2
    with assms(3) have "w = ''<IT:''" by simp
    with 2 assms exit_tr len show ?thesis by (simp del: list.size)
  next
    case 3
    with assms(3) have "w = ''<PM:''" by simp
    with 3 assms exit_pm len show ?thesis by (simp del: list.size)
  next
    case 4
    with assms(3) have "w = ''<S:''" by simp
    with 4 assms exit_spi len show ?thesis by (simp del: list.size)
  next
    case 5
    with assms(3) have "w = ''<DR''" by simp
    with 5 assms exit_async len show ?thesis by (simp del: list.size)
  qed
qed

lemma parse_loop_good:
  assumes "parser_ok p" and "resultType r = PARSE_NOT_COMPLETE"
  shows "ends_good p d 0 0 r"
  by (rule loop_ordinary [OF assms(1), where pm = False and w = "[]"])
    (use assms all_exits in \<open>auto simp: exit_states_def pm_states_def\<close>)

section \<open>Every message is found\<close>

text \<open>The state reached by reading a text through ordinary states.\<close>

fun path :: "nat \<Rightarrow> ustring \<Rightarrow> nat option" where
  "path s [] = Some s"
| "path s (b # w) =
     (if s \<in> {17, 21, 50, 95} then None
      else if delta s b = NO_TRANSITION then None
      else if map_of final_types (delta s b) \<noteq> None then None
      else path (delta s b) w)"

definition moved :: "ParseResult \<Rightarrow> nat \<Rightarrow> nat \<Rightarrow> ParseResult" where
  "moved r pos n = (if n = 0 then r else r\<lparr>lastPosition := pos + n - 1\<rparr>)"

definition found :: "ParseResult \<Rightarrow> MessageType \<Rightarrow> nat \<Rightarrow> ParseResult" where
  "found r T k = r\<lparr>lastPosition := k - 1, msgType := T, resultType := PARSE_OK\<rparr>"

lemma loop_path:
  assumes "parser_ok p" and "path s w = Some t" and "drop pos d = w @ rest"
  shows "parse_loop p d pos s r = parse_loop p d (pos + length w) t (moved r pos (length w))"
  using assms(2,3)
proof (induction w arbitrary: pos s r)
  case Nil
  then show ?case by (simp add: moved_def)
next
  case (Cons b w)
  then have "drop pos d = b # (w @ rest)" by simp
  note i = drop_ConsD [OF this]
  from Cons.prems(1) have s: "s \<notin> {17, 21, 50, 95}" and t: "delta s b \<noteq> NO_TRANSITION"
    "map_of final_types (delta s b) = None" "path (delta s b) w = Some t"
    by (auto split: if_splits)
  have "parse_loop p d pos s r = parse_loop p d (Suc pos) (delta s b) (r\<lparr>lastPosition := pos\<rparr>)"
    using loop_ordinary_step [OF assms(1) s i(1), of r] i(2) t by simp
  also have "\<dots> = parse_loop p d (pos + length (b # w)) t (moved r pos (length (b # w)))"
    using Cons.IH [OF t(3) i(3)] by (simp add: moved_def)
  finally show ?case .
qed

text \<open>A carriage return after the text ends the message.\<close>

lemma loop_final:
  assumes "parser_ok p" and "s \<notin> {17, 21, 50, 95}" and "drop pos d = CR # rest"
    and "map_of final_types (delta s CR) = Some T" and "delta s CR \<noteq> NO_TRANSITION"
  shows "parse_loop p d pos s r = Inr (found r T (Suc pos))"
  using loop_ordinary_step [OF assms(1,2) drop_ConsD(1) [OF assms(3)], of r]
    drop_ConsD(2) [OF assms(3)] assms(4,5)
  by (simp add: found_def)

lemma found_moved [simp]: "found (moved r pos n) T k = found r T k"
  by (simp add: found_def moved_def)

lemma found_update [simp]: "found (r\<lparr>lastPosition := n\<rparr>) T k = found r T k"
  by (simp add: found_def)

definition path_ends :: "nat \<Rightarrow> ustring \<Rightarrow> MessageType \<Rightarrow> bool" where
  "path_ends s w T =
     (case path s w of
        None \<Rightarrow> False
      | Some t \<Rightarrow> t \<notin> {17, 21, 50, 95} \<and> delta t CR \<noteq> NO_TRANSITION \<and>
          map_of final_types (delta t CR) = Some T)"

lemma loop_path_ends:
  assumes "parser_ok p" and "path_ends s w T" and "drop pos d = w @ CR # rest"
  shows "parse_loop p d pos s r = Inr (found r T (pos + length w + 1))"
proof -
  from assms(2) obtain t where t: "path s w = Some t" "t \<notin> {17, 21, 50, 95}"
    "delta t CR \<noteq> NO_TRANSITION" "map_of final_types (delta t CR) = Some T"
    by (auto simp: path_ends_def split: option.splits)
  from assms(3) have "drop (length w) (drop pos d) = CR # rest" by simp
  then have "drop (pos + length w) d = CR # rest" by (simp only: drop_drop add.commute)
  from loop_final [OF assms(1) t(2) this t(4,3)] loop_path [OF assms(1) t(1) assms(3)]
  show ?thesis by simp
qed

lemma fixed_path_ends: "list_all (\<lambda>(T, w). path_ends 0 (uchar_str w) T) fixed_frames"
  unfolding fixed_frames_def path_ends_def by (simp add: cdc_table del: One_nat_def)

lemma pm_path_ends:
  "list_all (\<lambda>s. take 4 s = ''<PM:'' \<and> path_ends 80 (uchar_str (drop 4 s)) MSG_UPLOAD_DOWNLOAD)
     pm_codes"
  unfolding pm_codes_def path_ends_def by (simp add: cdc_table del: One_nat_def)

lemma special_paths:
  "path 0 (uchar_str ''<I:'') = Some 17" "path 0 (uchar_str ''<IT:'') = Some 21"
  "path 0 (uchar_str ''<PM:'') = Some 95" "path 0 (uchar_str ''<S:'' @ [x]) = Some 31"
  "path 0 (uchar_str ''<DR'' @ [x, 58]) = Some 50"
  by (simp_all add: cdc_table del: One_nat_def)

lemma loop_from_start:
  assumes "parser_ok p" and "path 0 w = Some t" and "d = w @ rest"
  shows "parse_loop p d 0 0 r = parse_loop p d (length w) t (moved r 0 (length w))"
  using loop_path [OF assms(1,2), of 0 d rest r] assms(3) by simp

lemma start_exits:
  assumes ok: "parser_ok p"
  shows "parse_loop p (uchar_str ''<I:'' @ t) 0 0 r =
      parse_loop p (uchar_str ''<I:'' @ t) 3 17 (moved r 0 3)"
    and "parse_loop p (uchar_str ''<IT:'' @ t) 0 0 r =
      parse_loop p (uchar_str ''<IT:'' @ t) 4 21 (moved r 0 4)"
    and "parse_loop p (uchar_str ''<PM:'' @ t) 0 0 r =
      parse_loop p (uchar_str ''<PM:'' @ t) 4 95 (moved r 0 4)"
    and "parse_loop p ((uchar_str ''<DR'' @ [x, 58]) @ t) 0 0 r =
      parse_loop p ((uchar_str ''<DR'' @ [x, 58]) @ t) 5 50 (moved r 0 5)"
proof -
  have len: "length (uchar_str ''<I:'') = 3" "length (uchar_str ''<IT:'') = 4"
    "length (uchar_str ''<PM:'') = 4" "length (uchar_str ''<DR'' @ [x, 58]) = 5"
    by simp_all
  note start = loop_from_start [OF ok _ refl]
  show "parse_loop p (uchar_str ''<I:'' @ t) 0 0 r =
      parse_loop p (uchar_str ''<I:'' @ t) 3 17 (moved r 0 3)"
    by (simp only: start [OF special_paths(1)] len)
  show "parse_loop p (uchar_str ''<IT:'' @ t) 0 0 r =
      parse_loop p (uchar_str ''<IT:'' @ t) 4 21 (moved r 0 4)"
    by (simp only: start [OF special_paths(2)] len)
  show "parse_loop p (uchar_str ''<PM:'' @ t) 0 0 r =
      parse_loop p (uchar_str ''<PM:'' @ t) 4 95 (moved r 0 4)"
    by (simp only: start [OF special_paths(3)] len)
  show "parse_loop p ((uchar_str ''<DR'' @ [x, 58]) @ t) 0 0 r =
      parse_loop p ((uchar_str ''<DR'' @ [x, 58]) @ t) 5 50 (moved r 0 5)"
    by (simp only: start [OF special_paths(5)] len)
qed

lemma find_fixed:
  assumes "parser_ok p" and "(T, w) \<in> set fixed_frames"
  shows "parse_loop p (crlf w @ rest) 0 0 r = Inr (found r T (length (crlf w)))"
proof -
  from assms(2) fixed_path_ends have "path_ends 0 (uchar_str w) T"
    by (auto simp: list_all_iff)
  from loop_path_ends [OF assms(1) this, of 0 "crlf w @ rest" rest r]
  show ?thesis by (simp add: crlf_def)
qed

lemma find_spi:
  assumes "parser_ok p" and "m = uchar_str ''<S:'' @ [x, CR]"
  shows "parse_loop p (m @ rest) 0 0 r = Inr (found r MSG_SPI_STAT (length m))"
proof -
  have "path_ends 0 (uchar_str ''<S:'' @ [x]) MSG_SPI_STAT"
    unfolding path_ends_def special_paths by (simp add: delta_CR_only)
  from loop_path_ends [OF assms(1) this, of 0 "m @ rest" rest r] assms(2)
  show ?thesis by simp
qed

lemma find_usb:
  assumes ok: "parser_ok p" and "usb_text USB_TYPE w" and m: "m = uchar_str ''<I:'' @ w"
  shows "parse_loop p (m @ rest) 0 0 r = Inr (found r MSG_USB_INFO (length m))"
proof -
  let ?d = "m @ rest"
  have d: "drop 3 ?d = w @ rest" "length ?d = 3 + length w + length rest"
    by (simp_all add: m)
  have w: "length w \<ge> 2"
    using assms(2) by (cases w rule: remdups_adj.cases) (auto simp: cdc_defs split: if_splits)
  then have usb: "processSpecialState 17 ?d 3 =
      Inr \<lparr>newState = 19, procPosition = 3 + length w - 1, formatError = False\<rparr>"
    using usb_loop_reads [OF d(1) assms(2)] d(2)
    by (simp add: processSpecialState_def processUSBInfo_def Let_def)
  have "parse_loop p ?d 3 17 r' = Inr (found r' MSG_USB_INFO (length m))" for r'
    using ok usb d(2) w
    by (subst parse_loop.simps) (cases w, simp_all add: Let_def final_types_def found_def m)
  then show ?thesis
    using start_exits(1) [OF ok, of "w @ rest" r] by (simp add: m)
qed

lemma find_tr:
  assumes ok: "parser_ok p" and m: "m = uchar_str ''<IT:'' @ body @ [CR]"
    and sizes: "length (m @ rest) = 21 \<and> length body = 16 \<or>
      37 \<le> length (m @ rest) \<and> length body = 32"
  shows "parse_loop p (m @ rest) 0 0 r = Inr (found r MSG_TR_INFO (length m))"
proof -
  let ?d = "m @ rest"
  have lm: "length m = 5 + length body" by (simp add: m)
  have "drop (length body) (drop 4 ?d) = CR # rest" by (simp add: m)
  then have last: "drop (4 + length body) ?d = CR # rest" by (simp only: drop_drop add.commute)
  from drop_ConsD [OF this] sizes
  have "processSpecialState 21 ?d 4 =
      Inr \<lparr>newState = 22, procPosition = 3 + length body, formatError = False\<rparr>"
    by (auto simp: processSpecialState_def processTRInfo_def cdc_defs Let_def)
  from loop_special_step [OF ok _ _ this] sizes
  have "parse_loop p ?d 4 21 r' =
      parse_loop p ?d (4 + length body) 22 (r'\<lparr>lastPosition := 3 + length body\<rparr>)" for r'
    by auto
  also have "\<dots> r' = Inr (found r' MSG_TR_INFO (length m))" for r'
    using loop_final [OF ok _ last] by (simp add: delta_CR_only lm)
  finally show ?thesis
    using start_exits(2) [OF ok, of "body @ CR # rest" r] by (simp add: m)
qed

lemma find_async:
  assumes ok: "parser_ok p" and m: "m = uchar_str ''<DR'' @ [len] @ uchar_str '':'' @ body @ [CR]"
    and len: "length body = unat len" and rest: "body \<noteq> [] \<or> length (m @ rest) \<noteq> 6"
  shows "parse_loop p (m @ rest) 0 0 r = Inr (found r MSG_ASYNC (length m))"
proof -
  let ?d = "m @ rest"
  have lm: "length m = 6 + length body" by (simp add: m)
  have "drop (length body) (drop 5 ?d) = CR # rest" by (simp add: m)
  then have last: "drop (5 + length body) ?d = CR # rest" by (simp only: drop_drop add.commute)
  have "length ?d \<noteq> 6" "?d ! 3 = len" "5 + length body < length ?d"
    using rest by (auto simp: m)
  then have "processSpecialState 50 ?d 5 =
      Inr \<lparr>newState = 51, procPosition = 4 + length body, formatError = False\<rparr>"
    using len by (simp add: processSpecialState_def processAsynData_def Let_def)
  from loop_special_step [OF ok _ _ this] \<open>5 + length body < length ?d\<close>
  have "parse_loop p ?d 5 50 r' =
      parse_loop p ?d (5 + length body) 51 (r'\<lparr>lastPosition := 4 + length body\<rparr>)" for r'
    by auto
  also have "\<dots> r' = Inr (found r' MSG_ASYNC (length m))" for r'
    using loop_final [OF ok _ last] by (simp add: delta_CR_only lm)
  finally show ?thesis
    using start_exits(4) [OF ok, of len "body @ CR # rest" r] by (simp add: m)
qed

lemma find_pm_code:
  assumes ok: "parser_ok p" and s: "s \<in> set pm_codes" and len: "length (crlf s @ rest) \<in> {7, 9}"
  shows "parse_loop p (crlf s @ rest) 0 0 r = Inr (found r MSG_UPLOAD_DOWNLOAD (length (crlf s)))"
proof -
  let ?d = "crlf s @ rest"
  from s pm_path_ends have t: "take 4 s = ''<PM:''"
    and e: "path_ends 80 (uchar_str (drop 4 s)) MSG_UPLOAD_DOWNLOAD"
    by (auto simp: list_all_iff)
  from t have split: "s = ''<PM:'' @ drop 4 s" by (metis append_take_drop_id)
  have d: "?d = uchar_str ''<PM:'' @ uchar_str (drop 4 s) @ CR # rest"
    by (subst split) (simp add: crlf_def)
  then have d4: "drop 4 ?d = uchar_str (drop 4 s) @ CR # rest" by simp
  have "processSpecialState 95 ?d 4 =
      Inr \<lparr>newState = 80, procPosition = 3, formatError = False\<rparr>"
    using len by (auto simp: processSpecialState_def processPMRespData_def Let_def)
  from loop_special_step [OF ok _ _ this] len
  have "parse_loop p ?d 4 95 r' = parse_loop p ?d 4 80 (r'\<lparr>lastPosition := 3\<rparr>)" for r'
    by auto
  also have "\<dots> r' = Inr (found r' MSG_UPLOAD_DOWNLOAD (length (crlf s)))" for r'
    using loop_path_ends [OF ok e d4] arg_cong [OF d, of length] by (simp add: crlf_def)
  finally show ?thesis
    using start_exits(3) [OF ok, of "uchar_str (drop 4 s) @ CR # rest" r] unfolding d by simp
qed

lemma find_pm_data:
  assumes ok: "parser_ok p" and m: "m = uchar_str ''<PM:'' @ body @ [CR]"
    and len: "length body \<noteq> 0" "length body \<noteq> 2" "length body \<noteq> 4"
  shows "parse_loop p m 0 0 r = Inr (found r MSG_DOWNLOAD_DATA (length m))"
proof -
  have "drop (length body) (drop 4 m) = [CR]" by (simp add: m)
  then have last: "drop (4 + length body) m = CR # []" by (simp only: drop_drop add.commute)
  have l: "length m = length body + 5" by (simp add: m)
  then have "processSpecialState 95 m 4 =
      Inr \<lparr>newState = 96, procPosition = 3 + length body, formatError = False\<rparr>"
    using len by (auto simp: processSpecialState_def processPMRespData_def Let_def)
  from loop_special_step [OF ok _ _ this] l
  have "parse_loop p m 4 95 r' =
      parse_loop p m (4 + length body) 96 (r'\<lparr>lastPosition := 3 + length body\<rparr>)" for r'
    by auto
  also have "\<dots> r' = Inr (found r' MSG_DOWNLOAD_DATA (length m))" for r'
    using loop_final [OF ok _ last] by (simp add: delta_CR_only l add.commute)
  finally show ?thesis
    using start_exits(3) [OF ok, of "body @ [CR]" r] by (simp add: m)
qed

lemma frame_found:
  assumes ok: "parser_ok p" and "frame (length (m @ rest)) T m"
  shows "parse_loop p (m @ rest) 0 0 r = Inr (found r T (length m))"
  using assms(2)
proof (cases rule: frame.cases)
  case (frame_fixed s)
  then show ?thesis using find_fixed [OF ok] by simp
next
  case (frame_spi x)
  then show ?thesis using find_spi [OF ok] by simp
next
  case (frame_usb ty ver sn)
  then have "usb_text USB_TYPE (ty @ HASH # ver @ HASH # sn @ [CR])"
    by (intro usb_textI)
  from find_usb [OF ok this frame_usb(2), of rest r] show ?thesis
    by (simp only: frame_usb(1))
next
  case (frame_tr_std body)
  then show ?thesis using find_tr [OF ok] by simp
next
  case (frame_tr_ext body)
  then show ?thesis using find_tr [OF ok] by simp
next
  case (frame_async body len)
  then show ?thesis using find_async [OF ok] by auto
next
  case (frame_pm_code s)
  then show ?thesis using find_pm_code [OF ok] by auto
next
  case (frame_pm_data body)
  then have "rest = []" by simp
  with frame_pm_data show ?thesis using find_pm_data [OF ok] by auto
qed

lemma frame_nonempty: "frame n T m \<Longrightarrow> m \<noteq> []"
  by (cases rule: frame.cases) (auto simp: crlf_def)

section \<open>The parser recognises exactly its language\<close>

text \<open>What the callers of the parser use: its result, in terms of the language.\<close>

lemma parseData_result:
  assumes ok: "parser_ok p"
  obtains r p' where "parseData p d = Inr (r, p')" and "parser_ok p'"
    and "d \<noteq> [] \<Longrightarrow> lastPosition r < length d"
    and "\<And>T k. resultType r = PARSE_OK \<and> msgType r = T \<and> Suc (lastPosition r) = k \<longleftrightarrow>
          k \<le> length d \<and> frame (length d) T (take k d)"
proof -
  define q where "q = p\<lparr>lastParsedData := d,
      lastParseResult := (lastParseResult p)\<lparr>resultType := PARSE_NOT_COMPLETE\<rparr>\<rparr>"
  have q: "parser_ok q" using ok by (simp add: q_def)
  have "ends_good q d 0 0 (lastParseResult q)"
    using parse_loop_good [OF q] by (simp add: q_def)
  then obtain r where r: "parse_loop q d 0 0 (lastParseResult q) = Inr r" "parse_good d r"
    by (auto simp: ends_good_def)
  then have parse: "parseData p d = Inr (r, q\<lparr>lastParseResult := r\<rparr>)"
    by (simp add: parseData_def q_def INITIAL_STATE_def)
  have "resultType r = PARSE_OK \<and> msgType r = T \<and> Suc (lastPosition r) = k \<longleftrightarrow>
      k \<le> length d \<and> frame (length d) T (take k d)" (is "?L \<longleftrightarrow> ?R") for T k
  proof
    assume ?L
    with r(2) show ?R by (auto simp: parse_good_def Suc_le_eq)
  next
    assume k: ?R
    then have "frame (length (take k d @ drop k d)) T (take k d)" by simp
    from frame_found [OF q this, of "lastParseResult q"] r(1) k
    have "r = found (lastParseResult q) T k" by (simp add: min_absorb2)
    moreover have "0 < k" using k frame_nonempty by fastforce
    ultimately show ?L by (simp add: found_def)
  qed
  with parse q r(2) that show thesis by (simp add: parse_good_def)
qed

text \<open>
  C1. Exactness of the parser. For a parser object whose tables are intact, \<open>parseData\<close>
  reports \<open>PARSE_OK\<close> with message type \<open>T\<close> and a last position behind which \<open>k\<close> bytes have
  been consumed if and only if the first \<open>k\<close> bytes of the buffer are a message of type \<open>T\<close>
  of the protocol's language \<open>frame\<close>. Nothing else is accepted and no message is missed.
\<close>

theorem parseData_exact:
  assumes "parser_ok p"
  shows "(\<exists>r p'. parseData p d = Inr (r, p') \<and> resultType r = PARSE_OK \<and> msgType r = T \<and>
      Suc (lastPosition r) = k) \<longleftrightarrow>
    k \<le> length d \<and> frame (length d) T (take k d)"
proof -
  obtain r p' where "parseData p d = Inr (r, p')"
    and "\<And>T k. resultType r = PARSE_OK \<and> msgType r = T \<and> Suc (lastPosition r) = k \<longleftrightarrow>
          k \<le> length d \<and> frame (length d) T (take k d)"
    by (rule parseData_result [OF assms, where d = d]) blast
  then show ?thesis by auto
qed

theorem parseData_exact_witness:
  "parser_ok (new_CDCMessageParserPrivate (0, 0, 0)) \<and>
   (\<exists>r p'. parseData (new_CDCMessageParserPrivate (0, 0, 0)) (crlf ''<DS:BUSY'' @ [60]) = Inr (r, p') \<and>
      resultType r = PARSE_OK \<and> msgType r = MSG_DATA_SEND \<and> Suc (lastPosition r) = 9)"
proof -
  have ok: "parser_ok (new_CDCMessageParserPrivate (0, 0, 0))"
    by (rule new_parser_ok) simp
  have "frame n MSG_DATA_SEND (crlf ''<DS:BUSY'')" for n
    by (rule frame_fixed) (simp add: fixed_frames_def)
  then show ?thesis
    using ok parseData_exact [OF ok, of "crlf ''<DS:BUSY'' @ [60]" MSG_DATA_SEND 9]
    by (simp add: crlf_def)
qed

text \<open>
  C11. Totality. With intact tables \<open>parseData\<close> returns for every buffer: no exception of the
  library or of \<open>std::basic_string\<close> is raised, no undefined look-up is made, and the parser
  object stays intact. On a non-empty buffer the reported position lies inside the buffer.
\<close>

theorem parseData_total:
  assumes "parser_ok p"
  shows "\<exists>r p'. parseData p d = Inr (r, p') \<and> parser_ok p' \<and> lastParsedData p' = d \<and>
    lastParseResult p' = r \<and> (d \<noteq> [] \<longrightarrow> lastPosition r < length d)"
proof -
  obtain r p' where "parseData p d = Inr (r, p')" "parser_ok p'"
    and "d \<noteq> [] \<Longrightarrow> lastPosition r < length d"
    by (rule parseData_result [OF assms, where d = d]) blast
  then show ?thesis by (auto simp: parseData_def Let_def bindE_eq_Inr)
qed

theorem parseData_total_witness:
  "\<exists>r p'. parseData (new_CDCMessageParserPrivate (1, 2, 3)) (uchar_str ''<Q'') = Inr (r, p') \<and>
     parser_ok p' \<and> lastPosition r < 2"
proof -
  have "parser_ok (new_CDCMessageParserPrivate (1, 2, 3))"
    by (rule new_parser_ok) simp
  from parseData_total [OF this, of "uchar_str ''<Q''"] show ?thesis by auto
qed

end
