(* ===== verification/Decoders.thy ===== *)
theory Decoders
  imports Parser_Correct
begin

text \<open>
  The decoders of \<open>CDCMessageParser\<close> (\<open>src/CDCMessageParser.cpp\<close>, \<open>getParsed*\<close>): from a
  message to the value the public interface returns. They index into the message without
  looking at its type, so each of them can throw on a message it was not meant for; the
  lemmas show what they return on every message of their own type. Sizes are \<open>size_t\<close>
  words with their wrap-around. Each method holds the mutex \<open>mtxUI\<close> for its whole body and
  calls no other method that takes it, so it is one step here.
\<close>

section \<open>Helpers\<close>

text \<open>
  \<open>new char[n]\<close>: a request beyond \<open>PTRDIFF_MAX\<close> always fails. Whether a smaller one is
  granted is up to the allocator; the model assumes that it is.
\<close>

definition new_char_array :: "size_t \<Rightarrow> thrown + unit" where
  "new_char_array n = (if unat n \<ge> 2 ^ 63 then Inl BadAlloc else Inr ())"

text \<open>\<open>data.substr(start, data.length() - 1 - start)\<close>: all but the header and the last byte.\<close>

definition msg_body :: "ustring \<Rightarrow> size_t \<Rightarrow> thrown + ustring" where
  "msg_body data start = (let bodyLen = size_of data - 1 - start in substr data start bodyLen)"

text \<open>A byte string as \<open>operator<<\<close> prints its \<open>c_str()\<close>: up to the first zero byte.\<close>

definition c_text :: "ustring \<Rightarrow> string" where
  "c_text s = map (char_of \<circ> unat) (takeWhile (\<lambda>b. b \<noteq> 0) s)"

fun read_bytes :: "ustring \<Rightarrow> nat \<Rightarrow> nat \<Rightarrow> thrown + ustring" where
  "read_bytes data pos 0 = Inr []"
| "read_bytes data pos (Suc n) =
     bindE (str_at data pos) (\<lambda>b. bindE (read_bytes data (Suc pos) n) (\<lambda>bs. Inr (b # bs)))"

section \<open>USB device and TR module identification\<close>

definition getParsedDeviceInfo :: "ustring \<Rightarrow> thrown + DeviceInfo" where
  "getParsedDeviceInfo data =
     (let firstHashPos = find_pos data HASH 3;
          typeSize = firstHashPos - 3
      in bindE (substr data 3 typeSize) (\<lambda>typeStr.
         bindE (new_char_array (typeSize + 1)) (\<lambda>_.
     (let secondHashPos = find_pos data HASH (firstHashPos + 1);
          fmSize = secondHashPos - firstHashPos - 1
      in bindE (substr data (firstHashPos + 1) fmSize) (\<lambda>fmStr.
         bindE (new_char_array (fmSize + 1)) (\<lambda>_.
     (let crPos = find_pos data CR (secondHashPos + 1);
          snSize = crPos - secondHashPos - 1
      in bindE (substr data (secondHashPos + 1) snSize) (\<lambda>snStr.
         bindE (new_char_array (snSize + 1)) (\<lambda>_.
         Inr \<lparr>devType = typeStr, typeLen = ucast typeSize,
              firmwareVersion = fmStr, fwLen = ucast fmSize,
              devSerialNumber = snStr, snLen = ucast snSize\<rparr>)))))))))"

definition getParsedModuleInfo :: "ustring \<Rightarrow> thrown + ModuleInfo option" where
  "getParsedModuleInfo data =
     (if length data \<noteq> STANDARD_IDF_SIZE \<and> length data \<noteq> EXTENDED_IDF_SIZE then Inr None
      else
        (let msgBodyPos = 4; infoId = SN_SIZE in
         bindE (read_bytes data msgBodyPos SN_SIZE) (\<lambda>sn.
         bindE (str_at data (msgBodyPos + infoId)) (\<lambda>osv.
         (let infoId = infoId + 1 in
         bindE (str_at data (msgBodyPos + infoId)) (\<lambda>trt.
         (let infoId = infoId + 1 in
         bindE (read_bytes data (msgBodyPos + infoId) BUILD_SIZE) (\<lambda>build.
         (let infoId = infoId + BUILD_SIZE in
         bindE (read_bytes data (msgBodyPos + infoId) RESERVED_SIZE) (\<lambda>res.
         (let infoId = infoId + RESERVED_SIZE;
              extendedIdfFormat = (length data = EXTENDED_IDF_SIZE)
          in bindE (if extendedIdfFormat then read_bytes data (msgBodyPos + infoId) IBK_SIZE
                    else Inr (replicate IBK_SIZE 0)) (\<lambda>key.
         Inr (Some \<lparr>serialNumber = sn, osVersion = osv, trType = trt, osBuild = build,
                    reserved = res, ibk = key\<rparr>)))))))))))))"

section \<open>SPI status\<close>

definition getParsedSPIStatus :: "parser \<Rightarrow> ustring \<Rightarrow> thrown + SPIStatus" where
  "getParsedSPIStatus p data =
     bindE (str_at data 3) (\<lambda>b.
       (let parsedValue = uint b;
            parsedValue = (if parsedValue < 0 then parsedValue + 256 else parsedValue)
        in if parsedValue \<in> spiModes p
           then Inr \<lparr>isDataReady = False, spi_union = parsedValue\<rparr>
           else Inr \<lparr>isDataReady = True, spi_union = parsedValue\<rparr>))"

section \<open>Response codes\<close>

definition unknown_response :: "string \<Rightarrow> ustring \<Rightarrow> thrown" where
  "unknown_response kind msgBody =
     Thrown (new_CDCMessageParserException
       (''Unknown '' @ kind @ '' response value: '' @ c_text msgBody))"

definition getParsedDSResponse :: "ustring \<Rightarrow> thrown + DSResponse" where
  "getParsedDSResponse data =
     bindE (msg_body data 4) (\<lambda>msgBody.
       if msgBody = uchar_str ''OK'' then Inr DS_OK
       else if msgBody = uchar_str ''ERR'' then Inr DS_ERR
       else if msgBody = uchar_str ''BUSY'' then Inr DS_BUSY
       else Inl (unknown_response ''DS'' msgBody))"

definition getParsedDRData :: "ustring \<Rightarrow> thrown + ustring" where
  "getParsedDRData data = msg_body data 5"

definition getParsedPEResponse :: "ustring \<Rightarrow> thrown + PTEResponse" where
  "getParsedPEResponse data =
     bindE (msg_body data 4) (\<lambda>msgBody.
       if msgBody = uchar_str ''OK'' then Inr PTE_OK
       else if msgBody = uchar_str ''ERR1'' then Inr PTE_ERR1
       else Inl (unknown_response ''PE'' msgBody))"

definition getParsedPTResponse :: "ustring \<Rightarrow> thrown + PTEResponse" where
  "getParsedPTResponse data =
     bindE (msg_body data 4) (\<lambda>msgBody.
       if msgBody = uchar_str ''OK'' then Inr PTE_OK
       else if msgBody = uchar_str ''ERR1'' then Inr PTE_ERR1
       else Inl (unknown_response ''PT'' msgBody))"

definition getParsedPMResponse :: "ustring \<Rightarrow> thrown + PMResponse" where
  "getParsedPMResponse data =
     bindE (msg_body data 4) (\<lambda>msgBody.
       if msgBody = uchar_str ''OK'' then Inr PM_OK
       else if msgBody = uchar_str ''ERR2'' then Inr PM_ERR2
       else if msgBody = uchar_str ''ERR3'' then Inr PM_ERR3
       else if msgBody = uchar_str ''ERR4'' then Inr PM_ERR4
       else if msgBody = uchar_str ''ERR5'' then Inr PM_ERR5
       else if msgBody = uchar_str ''ERR6'' then Inr PM_ERR6
       else if msgBody = uchar_str ''ERR7'' then Inr PM_ERR7
       else if msgBody = uchar_str ''BUSY'' then Inr PM_BUSY
       else Inl (unknown_response ''PM'' msgBody))"

definition getParsedPMData :: "ustring \<Rightarrow> thrown + ustring" where
  "getParsedPMData data = msg_body data 4"

section \<open>Laws of the helpers\<close>

lemma unat_size_of: "length d < 2 ^ 63 \<Longrightarrow> unat (size_of d) = length d"
  by (simp add: size_of_def unsigned_of_nat take_bit_nat_eq_self)

lemma msg_body_split:
  assumes "length pre = unat start" and "length (pre @ body @ [c]) < 2 ^ 63"
  shows "msg_body (pre @ body @ [c]) start = Inr body"
proof -
  have "size_of (pre @ body @ [c]) - 1 - start = of_nat (length body)"
    using arg_cong [OF assms(1), of "of_nat :: nat \<Rightarrow> size_t"] by (simp add: size_of_def)
  moreover have "unat (of_nat (length body) :: size_t) = length body"
    using assms(2) by (simp add: unsigned_of_nat take_bit_nat_eq_self)
  ultimately show ?thesis
    using assms(1) by (simp add: msg_body_def substr_def)
qed

lemma read_bytes_Inr:
  "pos + n \<le> length data \<Longrightarrow> read_bytes data pos n = Inr (take n (drop pos data))"
proof (induction n arbitrary: pos)
  case (Suc n)
  then have "drop pos data = data ! pos # drop (Suc pos) data"
    by (simp add: Cons_nth_drop_Suc)
  with Suc show ?case by simp
qed simp

section \<open>Decoding the messages of the language\<close>

lemmas msg_eval = msg_body_def substr_def size_of_def crlf_def Let_def

lemma decode_DS:
  "getParsedDSResponse (crlf ''<DS:OK'') = Inr DS_OK"
  "getParsedDSResponse (crlf ''<DS:ERR'') = Inr DS_ERR"
  "getParsedDSResponse (crlf ''<DS:BUSY'') = Inr DS_BUSY"
  by (simp_all add: getParsedDSResponse_def msg_eval)

lemma decode_PE:
  "getParsedPEResponse (crlf ''<PE:OK'') = Inr PTE_OK"
  "getParsedPEResponse (crlf ''<PE:ERR1'') = Inr PTE_ERR1"
  by (simp_all add: getParsedPEResponse_def msg_eval)

lemma decode_PT:
  "getParsedPTResponse (crlf ''<PT:OK'') = Inr PTE_OK"
  "getParsedPTResponse (crlf ''<PT:ERR1'') = Inr PTE_ERR1"
  by (simp_all add: getParsedPTResponse_def msg_eval)

lemma decode_PM:
  "getParsedPMResponse (crlf ''<PM:OK'') = Inr PM_OK"
  "getParsedPMResponse (crlf ''<PM:ERR2'') = Inr PM_ERR2"
  "getParsedPMResponse (crlf ''<PM:ERR3'') = Inr PM_ERR3"
  "getParsedPMResponse (crlf ''<PM:ERR4'') = Inr PM_ERR4"
  "getParsedPMResponse (crlf ''<PM:ERR5'') = Inr PM_ERR5"
  "getParsedPMResponse (crlf ''<PM:ERR6'') = Inr PM_ERR6"
  "getParsedPMResponse (crlf ''<PM:ERR7'') = Inr PM_ERR7"
  "getParsedPMResponse (crlf ''<PM:BUSY'') = Inr PM_BUSY"
  by (simp_all add: getParsedPMResponse_def msg_eval)

lemma frame_DS: "frame n MSG_DATA_SEND m \<Longrightarrow>
    m \<in> {crlf ''<DS:OK'', crlf ''<DS:ERR'', crlf ''<DS:BUSY''}"
  by (cases rule: frame.cases) (auto simp: fixed_frames_def)

lemma frame_PE: "frame n MSG_MODE_PROGRAM m \<Longrightarrow> m \<in> {crlf ''<PE:OK'', crlf ''<PE:ERR1''}"
  by (cases rule: frame.cases) (auto simp: fixed_frames_def)

lemma frame_PT: "frame n MSG_MODE_NORMAL m \<Longrightarrow> m \<in> {crlf ''<PT:OK'', crlf ''<PT:ERR1''}"
  by (cases rule: frame.cases) (auto simp: fixed_frames_def)

lemma frame_PM: "frame n MSG_UPLOAD_DOWNLOAD m \<Longrightarrow> m \<in> crlf ` set pm_codes"
  by (cases rule: frame.cases) (auto simp: fixed_frames_def)

lemma decode_DR:
  assumes "length body = unat len"
  shows "getParsedDRData (uchar_str ''<DR'' @ [len] @ uchar_str '':'' @ body @ [CR]) = Inr body"
proof -
  have "unat len < 256" using unsigned_less [of len] by simp
  with assms msg_body_split [of "uchar_str ''<DR'' @ [len] @ uchar_str '':''" 5 body CR]
  show ?thesis by (simp add: getParsedDRData_def)
qed

lemma decode_PM_data:
  "length body < 2 ^ 62 \<Longrightarrow> getParsedPMData (uchar_str ''<PM:'' @ body @ [CR]) = Inr body"
  using msg_body_split [of "uchar_str ''<PM:''" 4 body CR] by (simp add: getParsedPMData_def)

lemma decode_SPI:
  assumes "parser_ok p"
  shows "getParsedSPIStatus p (uchar_str ''<S:'' @ [x, CR]) =
    Inr \<lparr>isDataReady = (uint x \<notin> spi_value ` UNIV), spi_union = uint x\<rparr>"
proof -
  have u: "(UNIV :: SPIModes set) = {DISABLED, SUSPENDED, BUFF_PROTECT, CRCM_ERR, READY_COMM,
      READY_PROG, READY_DEBUG, SLOW_MODE, HW_ERROR}"
    using SPIModes.exhaust by blast
  from assms have "spiModes p = spi_value ` UNIV"
    unfolding u by (simp add: parser_ok_def initSpiModes_def insert_commute)
  moreover have "\<not> uint x < 0" using uint_ge_0 [of x] by linarith
  ultimately show ?thesis
    by (auto simp: getParsedSPIStatus_def Let_def)
qed

lemma decode_TR_std:
  "length sn = 4 \<Longrightarrow> length build = 2 \<Longrightarrow> length res = 8 \<Longrightarrow>
   getParsedModuleInfo
     (uchar_str ''<IT:'' @ (sn @ [osv, trt] @ build @ res) @ [CR]) =
   Inr (Some \<lparr>serialNumber = sn, osVersion = osv, trType = trt, osBuild = build,
     reserved = res, ibk = replicate 16 0\<rparr>)"
  by (simp add: getParsedModuleInfo_def read_bytes_Inr cdc_defs nth_append Let_def)

lemma decode_TR_ext:
  "length sn = 4 \<Longrightarrow> length build = 2 \<Longrightarrow> length res = 8 \<Longrightarrow> length key = 16 \<Longrightarrow>
   getParsedModuleInfo
     (uchar_str ''<IT:'' @ (sn @ [osv, trt] @ build @ res @ key) @ [CR]) =
   Inr (Some \<lparr>serialNumber = sn, osVersion = osv, trType = trt, osBuild = build,
     reserved = res, ibk = key\<rparr>)"
  by (simp add: getParsedModuleInfo_def read_bytes_Inr cdc_defs nth_append Let_def)

lemma find_pos_at:
  assumes "length xs = unat from" and "c \<notin> set ys" and "length (xs @ ys @ c # zs) < 2 ^ 63"
  shows "find_pos (xs @ ys @ c # zs) c from = of_nat (length xs + length ys)"
  using assms by (simp add: find_pos_def)

lemma new_char_array_ok: "n < 2 ^ 63 \<Longrightarrow> new_char_array (of_nat n) = Inr ()"
  by (simp add: new_char_array_def unsigned_of_nat take_bit_nat_eq_self)

lemma substr_mid:
  assumes "unat pos = length xs" and "unat n = length ys"
  shows "substr (xs @ ys @ zs) pos n = Inr ys"
  using assms by (simp add: substr_def)

lemma unat_small: "n < 2 ^ 63 \<Longrightarrow> unat (of_nat n :: size_t) = n"
  by (simp add: unsigned_of_nat take_bit_nat_eq_self)

lemma ucast_size: "(ucast (of_nat n :: size_t) :: 32 word) = of_nat n"
  by transfer (simp add: take_bit_take_bit)

lemma decode_USB:
  assumes "HASH \<notin> set ty" and "HASH \<notin> set ver" and "CR \<notin> set sn"
    and len: "length ty + length ver + length sn < 2 ^ 62"
  shows "getParsedDeviceInfo (uchar_str ''<I:'' @ ty @ HASH # ver @ HASH # sn @ [CR]) =
    Inr \<lparr>devType = ty, typeLen = of_nat (length ty),
         firmwareVersion = ver, fwLen = of_nat (length ver),
         devSerialNumber = sn, snLen = of_nat (length sn)\<rparr>"
proof -
  define d where "d = uchar_str ''<I:'' @ ty @ HASH # ver @ HASH # sn @ [CR]"
  have d1: "d = uchar_str ''<I:'' @ ty @ HASH # (ver @ HASH # sn @ [CR])"
    by (simp add: d_def)
  have d2: "d = (uchar_str ''<I:'' @ ty @ [HASH]) @ ver @ HASH # (sn @ [CR])"
    by (simp add: d_def)
  have d3: "d = (uchar_str ''<I:'' @ ty @ [HASH] @ ver @ [HASH]) @ sn @ CR # []"
    by (simp add: d_def)
  have small: "length d < 2 ^ 63" using len by (simp add: d_def)
  have h1: "find_pos d HASH 3 = of_nat (3 + length ty)"
    unfolding d1 by (subst find_pos_at) (use assms small in \<open>simp_all add: d_def\<close>)
  have u1: "unat (of_nat (4 + length ty) :: size_t) = 4 + length ty"
    using len by (intro unat_small) simp
  have h2: "find_pos d HASH (of_nat (4 + length ty)) = of_nat (4 + length ty + length ver)"
    unfolding d2 by (subst find_pos_at) (use assms small u1 in \<open>simp_all add: d_def\<close>)
  have u2: "unat (of_nat (5 + length ty + length ver) :: size_t) = 5 + length ty + length ver"
    using len by (intro unat_small) simp
  have h3: "find_pos d CR (of_nat (5 + length ty + length ver)) =
      of_nat (5 + length ty + length ver + length sn)"
    unfolding d3 by (subst find_pos_at) (use assms small u2 in \<open>simp_all add: d_def\<close>)
  have s1: "substr d 3 (of_nat (length ty)) = Inr ty"
    unfolding d1 by (rule substr_mid) (use len in \<open>simp_all add: unat_small\<close>)
  have s2: "substr d (of_nat (4 + length ty)) (of_nat (length ver)) = Inr ver"
    unfolding d2 by (rule substr_mid) (use len u1 in \<open>simp_all add: unat_small\<close>)
  have s3: "substr d (of_nat (5 + length ty + length ver)) (of_nat (length sn)) = Inr sn"
    unfolding d3 by (rule substr_mid) (use len u2 in \<open>simp_all add: unat_small\<close>)
  have e1: "of_nat (3 + length ty) - 3 = (of_nat (length ty) :: size_t)"
    "of_nat (3 + length ty) + 1 = (of_nat (4 + length ty) :: size_t)"
    "of_nat (4 + length ty + length ver) - of_nat (3 + length ty) - 1 =
      (of_nat (length ver) :: size_t)"
    "of_nat (4 + length ty + length ver) + 1 = (of_nat (5 + length ty + length ver) :: size_t)"
    "of_nat (5 + length ty + length ver + length sn) - of_nat (4 + length ty + length ver) - 1 =
      (of_nat (length sn) :: size_t)"
    by (simp_all add: algebra_simps)
  have n: "new_char_array (of_nat (length s) + 1) = Inr ()" if "length s < 2 ^ 62" for s :: ustring
    using new_char_array_ok [of "length s + 1"] that by (simp add: add.commute)
  have l: "length ty < 2 ^ 62" "length ver < 2 ^ 62" "length sn < 2 ^ 62" using len by auto
  show ?thesis
    unfolding d_def [symmetric] getParsedDeviceInfo_def Let_def
    by (simp only: h1 e1 h2 h3 s1 s2 s3 n [OF l(1)] n [OF l(2)] n [OF l(3)] bindE_Inr ucast_size)
qed

section \<open>From the buffer to the decoded value\<close>

text \<open>The parser finds the message \<open>m\<close> of type \<open>T\<close> at the start of the buffer \<open>d\<close>.\<close>

definition parsed_as :: "parser \<Rightarrow> ustring \<Rightarrow> MessageType \<Rightarrow> ustring \<Rightarrow> bool" where
  "parsed_as p d T m =
     (case parseData p d of
        Inl e \<Rightarrow> False
      | Inr (r, p') \<Rightarrow>
          resultType r = PARSE_OK \<and> msgType r = T \<and> take (Suc (lastPosition r)) d = m)"

lemma parsed_as_iff:
  assumes "parser_ok p"
  shows "parsed_as p d T m \<longleftrightarrow> (\<exists>rest. d = m @ rest) \<and> frame (length d) T m"
    (is "_ \<longleftrightarrow> ?R")
proof -
  obtain r p' where r: "parseData p d = Inr (r, p')"
    and iff: "\<And>T k. resultType r = PARSE_OK \<and> msgType r = T \<and> Suc (lastPosition r) = k \<longleftrightarrow>
          k \<le> length d \<and> frame (length d) T (take k d)"
    by (rule parseData_result [OF assms, where d = d]) blast
  have "parsed_as p d T m \<longleftrightarrow>
      (\<exists>k. (resultType r = PARSE_OK \<and> msgType r = T \<and> Suc (lastPosition r) = k) \<and> take k d = m)"
    by (simp add: parsed_as_def r)
  also have "\<dots> \<longleftrightarrow> (\<exists>k. (k \<le> length d \<and> frame (length d) T (take k d)) \<and> take k d = m)"
    by (simp only: iff)
  also have "\<dots> \<longleftrightarrow> ?R"
  proof
    assume "\<exists>k. (k \<le> length d \<and> frame (length d) T (take k d)) \<and> take k d = m"
    then show ?R by (metis append_take_drop_id)
  next
    assume ?R
    then show "\<exists>k. (k \<le> length d \<and> frame (length d) T (take k d)) \<and> take k d = m"
      by (intro exI [of _ "length m"]) auto
  qed
  finally show ?thesis .
qed

text \<open>The sizes a client may rely on.\<close>

definition device_info_ok :: "DeviceInfo \<Rightarrow> bool" where
  "device_info_ok d \<longleftrightarrow>
     unat (typeLen d) \<le> length (devType d) \<and> unat (fwLen d) \<le> length (firmwareVersion d) \<and>
     unat (snLen d) \<le> length (devSerialNumber d)"

definition module_info_ok :: "ModuleInfo \<Rightarrow> bool" where
  "module_info_ok i \<longleftrightarrow>
     length (serialNumber i) = 4 \<and> length (osBuild i) = 2 \<and> length (ibk i) = 16"

lemma frame_SPI: "frame n MSG_SPI_STAT m \<Longrightarrow> \<exists>x. m = uchar_str ''<S:'' @ [x, CR]"
  by (cases rule: frame.cases) (auto simp: fixed_frames_def)

lemma usb_separators:
  "list_all checkUSBDeviceVersion ver \<Longrightarrow> HASH \<notin> set ver"
  "list_all checkUSBDeviceId sn \<Longrightarrow> CR \<notin> set sn"
  by (auto simp: list_all_iff checkUSBDeviceVersion_def checkUSBDeviceId_def split: if_splits)

lemma module_body:
  assumes "length body = 16 \<or> length body = 32"
  obtains sn osv trt build res key where
    "body = sn @ [osv, trt] @ build @ res @ key" and "length sn = 4" and "length build = 2"
    and "length res = 8" and "length key = length body - 16"
proof
  have "drop 4 body = body ! 4 # body ! 5 # drop 6 body"
    using assms by (auto simp: Cons_nth_drop_Suc numeral_eq_Suc)
  then have "body = take 4 body @ [body ! 4, body ! 5] @ drop 6 body"
    by (metis append_Cons append_Nil append_take_drop_id)
  moreover have "drop 6 body = take 2 (drop 6 body) @ take 8 (drop 8 body) @ drop 16 body"
    using append_take_drop_id [of 2 "drop 6 body"] append_take_drop_id [of 8 "drop 8 body"]
    by simp
  ultimately show "body = take 4 body @ [body ! 4, body ! 5] @ take 2 (drop 6 body) @
      take 8 (drop 8 body) @ drop 16 body" by simp
qed (use assms in auto)

lemma frame_TR:
  assumes "frame n MSG_TR_INFO m"
  obtains info where "getParsedModuleInfo m = Inr (Some info)" and "module_info_ok info"
proof -
  from assms obtain body where m: "m = uchar_str ''<IT:'' @ body @ [CR]"
    and body: "length body = 16 \<or> length body = 32"
    by (cases rule: frame.cases) (auto simp: fixed_frames_def)
  from module_body [OF body] obtain sn osv trt build res key where
    b: "body = sn @ [osv, trt] @ build @ res @ key" and l: "length sn = 4" "length build = 2"
    "length res = 8" "length key = length body - 16" by blast
  show thesis
  proof (cases "key = []")
    case True
    show thesis
    proof (rule that)
      show "getParsedModuleInfo m = Inr (Some \<lparr>serialNumber = sn, osVersion = osv, trType = trt,
          osBuild = build, reserved = res, ibk = replicate 16 0\<rparr>)"
        using decode_TR_std [OF l(1-3), of osv trt] m b True by simp
    qed (use l in \<open>simp add: module_info_ok_def\<close>)
  next
    case False
    with l body have k: "length key = 16" by auto
    show thesis
    proof (rule that)
      show "getParsedModuleInfo m = Inr (Some \<lparr>serialNumber = sn, osVersion = osv, trType = trt,
          osBuild = build, reserved = res, ibk = key\<rparr>)"
        using decode_TR_ext [OF l(1-3) k, of osv trt] m b by simp
    qed (use l k in \<open>simp add: module_info_ok_def\<close>)
  qed
qed

text \<open>Each decoder accepts every message of its type.\<close>

lemma accept_DS: "frame n MSG_DATA_SEND m \<Longrightarrow> \<exists>x. getParsedDSResponse m = Inr x"
  by (auto dest!: frame_DS simp: decode_DS)

lemma accept_PE: "frame n MSG_MODE_PROGRAM m \<Longrightarrow> \<exists>x. getParsedPEResponse m = Inr x"
  by (auto dest!: frame_PE simp: decode_PE)

lemma accept_PT: "frame n MSG_MODE_NORMAL m \<Longrightarrow> \<exists>x. getParsedPTResponse m = Inr x"
  by (auto dest!: frame_PT simp: decode_PT)

lemma accept_PM: "frame n MSG_UPLOAD_DOWNLOAD m \<Longrightarrow> \<exists>x. getParsedPMResponse m = Inr x"
  by (drule frame_PM) (auto simp: pm_codes_def decode_PM)

lemma accept_SPI: "frame n MSG_SPI_STAT m \<Longrightarrow> parser_ok p \<Longrightarrow> \<exists>x. getParsedSPIStatus p m = Inr x"
  by (auto dest!: frame_SPI simp: decode_SPI simp del: uchar_str_Cons)

lemma accept_PM_data:
  "frame n MSG_DOWNLOAD_DATA m \<Longrightarrow> length m < 2 ^ 62 \<Longrightarrow> \<exists>x. getParsedPMData m = Inr x"
  by (cases rule: frame.cases, assumption)
    (auto simp: fixed_frames_def decode_PM_data simp del: uchar_str_Cons)

lemma accept_DR: "frame n MSG_ASYNC m \<Longrightarrow> \<exists>x. getParsedDRData m = Inr x"
  by (cases rule: frame.cases, assumption)
    (auto simp: fixed_frames_def decode_DR [unfolded append_Cons append_Nil] simp del: uchar_str_Cons)

lemma accept_USB_ok:
  assumes "frame n MSG_USB_INFO m" and "length m < 2 ^ 62"
  shows "\<exists>x. getParsedDeviceInfo m = Inr x \<and> device_info_ok x"
proof -
  from assms obtain ty ver sn where
    m: "m = uchar_str ''<I:'' @ ty @ HASH # ver @ HASH # sn @ [CR]" "HASH \<notin> set ty"
    "list_all checkUSBDeviceVersion ver" "list_all checkUSBDeviceId sn"
    by (cases rule: frame.cases) (auto simp: fixed_frames_def)
  from assms(2) have "length ty + length ver + length sn < 2 ^ 62" by (simp add: m(1))
  from decode_USB [OF m(2) usb_separators(1) [OF m(3)] usb_separators(2) [OF m(4)] this] m(1)
  show ?thesis by (simp add: device_info_ok_def unsigned_of_nat take_bit_nat_less_eq_self)
qed

lemma accept_USB: "frame n MSG_USB_INFO m \<Longrightarrow> length m < 2 ^ 62 \<Longrightarrow> \<exists>x. getParsedDeviceInfo m = Inr x"
  using accept_USB_ok by blast

section \<open>Properties\<close>

text \<open>
  C20. A message is always decoded by the decoder of its type. For every buffer below 2^62
  bytes (where the allocations of \<open>getParsedDeviceInfo\<close> are granted), when the
  parser has found a message of a type that carries a response, the decoder the public
  interface calls for that type returns a value: no \<open>CDCMessageParserException\<close>, no
  \<open>std::out_of_range\<close> from \<open>at\<close> or \<open>substr\<close>, and no NULL module information.
\<close>

theorem parsed_message_decodes:
  assumes "parser_ok p" and "parsed_as p d T m" and "length d < 2 ^ 62"
  shows "case T of
      MSG_DATA_SEND \<Rightarrow> \<not> isl (getParsedDSResponse m)
    | MSG_MODE_PROGRAM \<Rightarrow> \<not> isl (getParsedPEResponse m)
    | MSG_MODE_NORMAL \<Rightarrow> \<not> isl (getParsedPTResponse m)
    | MSG_UPLOAD_DOWNLOAD \<Rightarrow> \<not> isl (getParsedPMResponse m)
    | MSG_SPI_STAT \<Rightarrow> \<not> isl (getParsedSPIStatus p m)
    | MSG_DOWNLOAD_DATA \<Rightarrow> \<not> isl (getParsedPMData m)
    | MSG_ASYNC \<Rightarrow> \<not> isl (getParsedDRData m)
    | MSG_USB_INFO \<Rightarrow> \<not> isl (getParsedDeviceInfo m)
    | MSG_TR_INFO \<Rightarrow> (\<exists>info. getParsedModuleInfo m = Inr (Some info))
    | _ \<Rightarrow> True"
proof -
  from assms have f: "frame (length d) T m" and len: "length m < 2 ^ 62"
    by (auto simp: parsed_as_iff)
  show ?thesis
    using f len assms(1)
    by (cases T)
      (auto dest!: accept_DS accept_PE accept_PT accept_PM accept_SPI accept_PM_data accept_DR
        accept_USB elim!: frame_TR)
qed

theorem parsed_message_decodes_witness:
  "\<exists>p m. parsed_as p (crlf ''<PM:ERR4'') MSG_UPLOAD_DOWNLOAD m \<and> \<not> isl (getParsedPMResponse m)"
proof -
  define p where "p = new_CDCMessageParserPrivate (0, 0, 0)"
  have ok: "parser_ok p" unfolding p_def by (rule new_parser_ok) simp
  have "frame (length (crlf ''<PM:ERR4'')) MSG_UPLOAD_DOWNLOAD (crlf ''<PM:ERR4'')"
    by (rule frame_pm_code) (simp_all add: pm_codes_def crlf_def)
  then have "parsed_as p (crlf ''<PM:ERR4'') MSG_UPLOAD_DOWNLOAD (crlf ''<PM:ERR4'')"
    using ok by (simp add: parsed_as_iff)
  moreover from parsed_message_decodes [OF ok this]
  have "\<not> isl (getParsedPMResponse (crlf ''<PM:ERR4''))" by (simp add: crlf_def)
  ultimately show ?thesis by blast
qed

text \<open>
  Identification of the USB device: parsed as \<open>MSG_USB_INFO\<close> however the buffer goes on, and decoded
  into exactly its three texts and their lengths.
\<close>

lemma device_info_roundtrip:
  assumes "parser_ok p" and "HASH \<notin> set ty" and "list_all checkUSBDeviceVersion ver"
    and "list_all checkUSBDeviceId sn" and "length ty + length ver + length sn < 2 ^ 62"
  shows "\<exists>m. parsed_as p (uchar_str ''<I:'' @ ty @ HASH # ver @ HASH # sn @ CR # rest)
      MSG_USB_INFO m \<and>
    getParsedDeviceInfo m =
      Inr \<lparr>devType = ty, typeLen = of_nat (length ty),
           firmwareVersion = ver, fwLen = of_nat (length ver),
           devSerialNumber = sn, snLen = of_nat (length sn)\<rparr>"
proof -
  from decode_USB [OF assms(2) usb_separators(1) [OF assms(3)] usb_separators(2) [OF assms(4)]
      assms(5)]
    frame_usb [OF assms(2-4)]
  show ?thesis
    using assms(1) by (intro exI conjI) (auto simp: parsed_as_iff simp del: uchar_str_Cons)
qed

text \<open>
  C21. Data from the network, end to end. The message that carries the non-empty data
  \<open>body\<close> (at most 255 bytes, any bytes, carriage returns and \<open><\<close> included) behind its
  length byte is recognised at the start of every buffer, its end found by the length and
  not by the first carriage return, and \<open>getParsedDRData\<close> returns exactly \<open>body\<close>.
\<close>

theorem async_data_roundtrip:
  assumes "parser_ok p" and "body \<noteq> []" and "length body \<le> 255"
  shows "\<exists>m. parsed_as p
      (uchar_str ''<DR'' @ [of_nat (length body)] @ uchar_str '':'' @ body @ CR # rest) MSG_ASYNC m \<and>
    getParsedDRData m = Inr body"
proof -
  have "unat (of_nat (length body) :: byte) = length body"
    using assms(3) by (simp add: unsigned_of_nat take_bit_nat_eq_self)
  then have l: "length body = unat (of_nat (length body) :: byte)" by simp
  show ?thesis
    using assms(1) decode_DR [OF l] frame_async [OF l] assms(2)
    by (intro exI conjI) (auto simp: parsed_as_iff simp del: uchar_str_Cons)
qed

theorem async_data_roundtrip_witness:
  "\<exists>p m. parsed_as p (uchar_str ''<DR'' @ [2] @ uchar_str '':'' @ [13, 60] @ CR # [1])
      MSG_ASYNC m \<and> getParsedDRData m = Inr [13, 60]"
proof -
  have "parser_ok (new_CDCMessageParserPrivate (0, 0, 0))"
    by (rule new_parser_ok) simp
  from async_data_roundtrip [OF this, of "[13, 60]" "[1]"] show ?thesis
    by (intro exI [of _ "new_CDCMessageParserPrivate (0, 0, 0)"]) (simp del: uchar_str_Cons)
qed

end
