(* ===== verification/Message_Events.thy ===== *)
theory Message_Events
  imports Cdc_Exceptions
begin

text \<open>
  The events \<open>newMsgEvent\<close>, \<open>readStartEvent\<close>, \<open>readEndEvent\<close> and \<open>readEndResponse\<close> by which
  the reading thread and the client's thread signal each other: the interface the portable
  code (\<open>src/CDCImpl.cpp\<close>) uses, as the locale \<open>message_event\<close>, and its two
  implementations. On Linux (\<open>src/CDCImpl_Lin.cpp\<close>) an event is an \<open>eventfd\<close> counter, on
  Windows (\<open>src/CDCImpl_Win.cpp\<close>) a manual-reset event object. They differ in what their
  operations promise: waiting consumes the Linux event and leaves the Windows one set, and
  \<open>resetMyEvent\<close> clears the Windows event and does nothing on Linux. Each extension of
  the locale states one of the two contracts.

  What the operating system does is its documented behaviour: \<open>eventfd(0, 0)\<close> creates a
  counter of 0, writing 1 increments it, reading returns it and sets it to 0, it is ready for
  reading when it is not 0; system calls on a closed descriptor or handle fail. The counter
  is a natural number: the write would block only at the value 2^64 - 2.
\<close>

section \<open>Handles\<close>

datatype 'a handle = Closed | Open 'a

fun is_open :: "'a handle \<Rightarrow> bool" where
  "is_open Closed = False"
| "is_open (Open x) = True"

lemma is_openE: "is_open h \<Longrightarrow> (\<And>x. h = Open x \<Longrightarrow> P) \<Longrightarrow> P"
  by (cases h) auto

type_synonym linux_event = "nat handle"
type_synonym windows_event = "bool handle"

definition EBADF :: nat where "EBADF = 9"
definition ERROR_INVALID_HANDLE :: nat where "ERROR_INVALID_HANDLE = 6"

section \<open>Linux\<close>

fun event_ready_Lin :: "linux_event \<Rightarrow> bool" where
  "event_ready_Lin Closed = False"
| "event_ready_Lin (Open n) = (n > 0)"

definition createMyEvent_Lin :: "int \<Rightarrow> nat \<Rightarrow> thrown + linux_event" where
  "createMyEvent_Lin fd errno =
     (if fd = - 1
      then Inl (THROW_EXCEPT CDCImplException ''CDCImpl_Lin.cpp'' 170
             (''Create new message event failed with error '' @ show_nat errno))
      else Inr (Open 0))"

fun setMyEvent_Lin :: "linux_event \<Rightarrow> thrown + linux_event" where
  "setMyEvent_Lin Closed =
     Inl (THROW_EXCEPT CDCImplException ''CDCImpl_Lin.cpp'' 157
       (''Signaling new message event failed with error '' @ show_nat EBADF))"
| "setMyEvent_Lin (Open n) = Inr (Open (n + 1))"

definition resetMyEvent_Lin :: "linux_event \<Rightarrow> thrown + linux_event" where
  "resetMyEvent_Lin e = Inr e"

definition destroyMyEvent_Lin :: "linux_event \<Rightarrow> linux_event" where
  "destroyMyEvent_Lin e = Closed"

text \<open>
  \<open>waitForMyEvent\<close>: \<open>waitResult\<close> is what \<open>select\<close> returns for the one descriptor,
  negative for an error, 0 when the time is over, and 1 when the descriptor is ready, which
  the callers of this definition guarantee by \<open>wait_result_Lin\<close>.
\<close>

fun waitForMyEvent_Lin :: "int \<Rightarrow> nat \<Rightarrow> linux_event \<Rightarrow> thrown + (int \<times> linux_event)" where
  "waitForMyEvent_Lin waitResult errno e =
     (if waitResult = - 1
      then Inl (THROW_EXCEPT CDCReceiveException ''CDCImpl_Lin.cpp'' 190
             (''Waiting in selectEvents failed with error '' @ show_nat errno))
      else if waitResult = 0
      then Inl (THROW_EXCEPT CDCReceiveException ''CDCImpl_Lin.cpp'' 193
             ''Waiting for event timeout'')
      else
        (case e of
           Closed \<Rightarrow> Inl (THROW_EXCEPT CDCReceiveException ''CDCImpl_Lin.cpp'' 200
             (''Waiting for response failed with error '' @ show_nat EBADF))
         | Open n \<Rightarrow> Inr (waitResult, Open 0)))"

text \<open>
  What the wait amounts to: \<open>select\<close> fails on a closed descriptor, reports one that is ready
  at once, and returns 0 otherwise when the time is over.
\<close>

definition wait_result_Lin :: "linux_event \<Rightarrow> int" where
  "wait_result_Lin e = (case e of Closed \<Rightarrow> - 1 | Open n \<Rightarrow> if n > 0 then 1 else 0)"

definition wait_Lin :: "linux_event \<Rightarrow> thrown + linux_event" where
  "wait_Lin e = bindE (waitForMyEvent_Lin (wait_result_Lin e) EBADF e) (\<lambda>(r, e'). Inr e')"

section \<open>Windows\<close>

fun event_ready_Win :: "windows_event \<Rightarrow> bool" where
  "event_ready_Win Closed = False"
| "event_ready_Win (Open b) = b"

text \<open>\<open>CreateEvent(NULL, TRUE, FALSE, NULL)\<close>: manual reset, not signalled.\<close>

definition createMyEvent_Win :: "bool \<Rightarrow> nat \<Rightarrow> thrown + windows_event" where
  "createMyEvent_Win created lastError =
     (if \<not> created
      then Inl (THROW_EXCEPT CDCImplException ''CDCImpl_Win.cpp'' 329
             (''Create anew message event failed with error '' @ show_nat lastError))
      else Inr (Open False))"

fun setMyEvent_Win :: "windows_event \<Rightarrow> thrown + windows_event" where
  "setMyEvent_Win Closed =
     Inl (THROW_EXCEPT CDCImplException ''CDCImpl_Win.cpp'' 316
       (''Signaling anew message event failed with error '' @ show_nat ERROR_INVALID_HANDLE))"
| "setMyEvent_Win (Open b) = Inr (Open True)"

fun resetMyEvent_Win :: "windows_event \<Rightarrow> thrown + windows_event" where
  "resetMyEvent_Win Closed =
     Inl (THROW_EXCEPT CDCImplException ''CDCImpl_Win.cpp'' 322
       (''Reset start read event failed with error '' @ show_nat ERROR_INVALID_HANDLE))"
| "resetMyEvent_Win (Open b) = Inr (Open False)"

definition destroyMyEvent_Win :: "windows_event \<Rightarrow> windows_event" where
  "destroyMyEvent_Win e = Closed"

datatype wait_result = WAIT_OBJECT_0 | WAIT_TIMEOUT | WAIT_FAILED

definition waitForMyEvent_Win ::
  "wait_result \<Rightarrow> nat \<Rightarrow> windows_event \<Rightarrow> thrown + (wait_result \<times> windows_event)" where
  "waitForMyEvent_Win waitResult lastError e =
     (case waitResult of
        WAIT_OBJECT_0 \<Rightarrow> Inr (waitResult, e)
      | WAIT_TIMEOUT \<Rightarrow> Inl (THROW_EXCEPT CDCReceiveException ''CDCImpl_Win.cpp'' 352
          ''Waiting for event timeouted'')
      | _ \<Rightarrow> Inl (THROW_EXCEPT CDCReceiveException ''CDCImpl_Win.cpp'' 354
          (''WaitForSingleObject failed with error '' @ show_nat lastError)))"

definition wait_result_Win :: "windows_event \<Rightarrow> wait_result" where
  "wait_result_Win e =
     (case e of Closed \<Rightarrow> WAIT_FAILED | Open b \<Rightarrow> if b then WAIT_OBJECT_0 else WAIT_TIMEOUT)"

definition wait_Win :: "windows_event \<Rightarrow> thrown + windows_event" where
  "wait_Win e =
     bindE (waitForMyEvent_Win (wait_result_Win e) ERROR_INVALID_HANDLE e) (\<lambda>(r, e'). Inr e')"

section \<open>The interface of the portable code\<close>

locale message_event =
  fixes set_ev :: "'e \<Rightarrow> thrown + 'e"
    and reset_ev :: "'e \<Rightarrow> thrown + 'e"
    and wait_ev :: "'e \<Rightarrow> thrown + 'e"
    and ready :: "'e \<Rightarrow> bool"
    and usable :: "'e \<Rightarrow> bool"
  assumes set_law: "usable e \<Longrightarrow> \<exists>e'. set_ev e = Inr e' \<and> usable e' \<and> ready e'"
    and reset_law: "usable e \<Longrightarrow> \<exists>e'. reset_ev e = Inr e' \<and> usable e'"
    and wait_ready: "usable e \<Longrightarrow> ready e \<Longrightarrow> \<exists>e'. wait_ev e = Inr e' \<and> usable e'"
    and wait_unready: "usable e \<Longrightarrow> \<not> ready e \<Longrightarrow>
      \<exists>x. wait_ev e = Inl x \<and> is_thrown CDCReceiveException x"
begin

lemma set_obtain:
  assumes "usable e"
  obtains e' where "set_ev e = Inr e'" and "usable e'" and "ready e'"
  using set_law [OF assms] by blast

lemma wait_Inr_iff: "usable e \<Longrightarrow> (\<exists>e'. wait_ev e = Inr e') \<longleftrightarrow> ready e"
  using wait_ready wait_unready by fastforce

lemma set_then_wait: "usable e \<Longrightarrow> set_ev e = Inr e' \<Longrightarrow> \<exists>e''. wait_ev e' = Inr e''"
  using set_law wait_ready by fastforce

end

text \<open>Waiting takes the signal away.\<close>

locale consuming_event = message_event +
  assumes wait_consumes: "usable e \<Longrightarrow> wait_ev e = Inr e' \<Longrightarrow> \<not> ready e'"
begin

lemma second_wait_fails:
  assumes "usable e" and "wait_ev e = Inr e'" and "usable e'"
  shows "\<exists>x. wait_ev e' = Inl x \<and> is_thrown CDCReceiveException x"
  using wait_unready [OF assms(3)] wait_consumes [OF assms(1,2)] by blast

end

text \<open>Resetting takes the signal away.\<close>

locale clearing_event = message_event +
  assumes reset_clears: "usable e \<Longrightarrow> reset_ev e = Inr e' \<Longrightarrow> \<not> ready e'"
begin

lemma wait_after_reset_fails:
  assumes "usable e" and "reset_ev e = Inr e'"
  shows "\<exists>x. wait_ev e' = Inl x \<and> is_thrown CDCReceiveException x"
proof -
  have "usable e'" using reset_law [OF assms(1)] assms(2) by simp
  from wait_unready [OF this] reset_clears [OF assms] show ?thesis by blast
qed

end

interpretation lin_ev: consuming_event
  setMyEvent_Lin resetMyEvent_Lin wait_Lin event_ready_Lin is_open
  by unfold_locales
    (auto elim!: is_openE simp: resetMyEvent_Lin_def wait_Lin_def wait_result_Lin_def
      split: if_splits)

interpretation win_ev: clearing_event
  setMyEvent_Win resetMyEvent_Win wait_Win event_ready_Win is_open
  by unfold_locales
    (auto elim!: is_openE simp: wait_Win_def wait_result_Win_def waitForMyEvent_Win_def
      split: if_splits)

end
