(* ===== verification/Impl_State.thy ===== *)
theory Impl_State
  imports Decoders Message_Events
begin

text \<open>
  The object \<open>CDCImplPrivate\<close> (\<open>src/CDCImplPri.h\<close>): its fields as a record over the type of
  the platform's events, the small nested structures, the initialisations and the accessors
  that hold a mutex for their whole body (\<open>src/CDCImpl.cpp\<close>). The last two fields are
  ghosts: the calls of listeners so far, each with the listener, the bytes behind its first
  argument and the length it is given, and the bytes written to the port.
\<close>

section \<open>Structures\<close>

record Command =
  cmd_msgType :: MessageType
  cmd_data :: ustring

record ParsedMessage =
  message :: ustring
  parseResult :: ParseResult

text \<open>A registered \<open>AsyncMsgListenerF\<close> is a name; its body is the user's.\<close>

type_synonym listener = nat

record 'e CDCImplPrivate =
  portHandle :: "int handle"
  m_commPort :: string
  newMsgEvent :: 'e
  readStartEvent :: 'e
  readEndEvent :: 'e
  readEndResponse :: 'e
  messageHeaders :: "MessageType \<rightharpoonup> string"
  msgParser :: parser
  lastResponse :: ParsedMessage
  asyncListener :: "listener option"
  receptionStopped :: bool
  lastReceptionError :: string
  m_transmitBuffer :: "byte option list"
  m_transmitBufferLen :: nat
  listenerCalls :: "(listener \<times> ustring \<times> 32 word) list"
  portOutput :: ustring

type_synonym 'e impl = "'e CDCImplPrivate"

section \<open>Initialisation\<close>

text \<open>
  The object at the entry of a constructor's body: the members of class type are empty, the
  others hold what was in the memory, the handle of the port nothing that is open (\<open>e\<close> for the events, \<open>p\<close> for the parser, \<open>b\<close> for the flag,
  \<open>r\<close> for the scalar fields of the last response).
\<close>

definition blank_object :: "string \<Rightarrow> 'e \<Rightarrow> parser \<Rightarrow> bool \<Rightarrow> ParseResult \<Rightarrow> 'e impl" where
  "blank_object portName e p b r =
     \<lparr>portHandle = Closed, m_commPort = portName, newMsgEvent = e, readStartEvent = e, readEndEvent = e,
      readEndResponse = e, messageHeaders = Map.empty, msgParser = p,
      lastResponse = \<lparr>message = [], parseResult = r\<rparr>, asyncListener = None,
      receptionStopped = b, lastReceptionError = [], m_transmitBuffer = [],
      m_transmitBufferLen = 0, listenerCalls = [], portOutput = []\<rparr>"

definition initMessageHeaders :: "'e impl \<Rightarrow> 'e impl" where
  "initMessageHeaders s =
     s\<lparr>messageHeaders := fold (\<lambda>(t, h). insert_new t h)
        [(MSG_TEST, ''OK''), (MSG_RES_USB, ''R''), (MSG_RES_TR, ''RT''), (MSG_USB_INFO, ''I''),
         (MSG_TR_INFO, ''IT''), (MSG_USB_CONN, ''B''), (MSG_SPI_STAT, ''S''),
         (MSG_DATA_SEND, ''DS''), (MSG_SWITCH, ''U''), (MSG_ASYNC, ''DR''),
         (MSG_MODE_NORMAL, ''PT''), (MSG_MODE_PROGRAM, ''PE''),
         (MSG_UPLOAD_DOWNLOAD, ''PM''), (MSG_DOWNLOAD_DATA, ''PM'')]
        (messageHeaders s)\<rparr>"

definition initLastResponse :: "'e impl \<Rightarrow> 'e impl" where
  "initLastResponse s =
     s\<lparr>lastResponse :=
        \<lparr>message = [],
         parseResult = \<lparr>msgType = MSG_ERROR, resultType = PARSE_NOT_COMPLETE, lastPosition = 0\<rparr>\<rparr>\<rparr>"

section \<open>Accessors\<close>

definition setAsyncListener :: "listener option \<Rightarrow> 'e impl \<Rightarrow> 'e impl" where
  "setAsyncListener l s = s\<lparr>asyncListener := l\<rparr>"

definition getReceptionStopped :: "'e impl \<Rightarrow> bool" where
  "getReceptionStopped s = receptionStopped s"

definition setReceptionStopped :: "bool \<Rightarrow> 'e impl \<Rightarrow> 'e impl" where
  "setReceptionStopped v s = s\<lparr>receptionStopped := v\<rparr>"

definition setLastReceptionError :: "string \<Rightarrow> 'e impl \<Rightarrow> 'e impl" where
  "setLastReceptionError d s = s\<lparr>lastReceptionError := d\<rparr>"

text \<open>The copy is made from \<open>c_str()\<close>: it ends before a NUL character.\<close>

definition cloneLastReceptionError :: "'e impl \<Rightarrow> string" where
  "cloneLastReceptionError s = takeWhile (\<lambda>c. c \<noteq> CHR 0x00) (lastReceptionError s)"

definition registerAsyncMsgListener :: "listener \<Rightarrow> 'e impl \<Rightarrow> 'e impl" where
  "registerAsyncMsgListener l s = setAsyncListener (Some l) s"

definition unregisterAsyncMsgListener :: "'e impl \<Rightarrow> 'e impl" where
  "unregisterAsyncMsgListener s = setAsyncListener None s"

definition isReceptionStopped :: "'e impl \<Rightarrow> bool" where
  "isReceptionStopped s = getReceptionStopped s"

definition getLastReceptionError :: "'e impl \<Rightarrow> string" where
  "getLastReceptionError s = cloneLastReceptionError s"

lemmas accessors [cdc_defs] =
  setAsyncListener_def getReceptionStopped_def setReceptionStopped_def
  setLastReceptionError_def registerAsyncMsgListener_def unregisterAsyncMsgListener_def
  isReceptionStopped_def getLastReceptionError_def

section \<open>The headers of the commands\<close>

lemma headers_init:
  assumes "messageHeaders s = Map.empty"
  shows "messageHeaders (initMessageHeaders s) t = (if t = MSG_ERROR then None else Some (
     case t of MSG_TEST \<Rightarrow> ''OK'' | MSG_RES_USB \<Rightarrow> ''R'' | MSG_RES_TR \<Rightarrow> ''RT'' | MSG_USB_INFO \<Rightarrow> ''I''
     | MSG_TR_INFO \<Rightarrow> ''IT'' | MSG_USB_CONN \<Rightarrow> ''B'' | MSG_SPI_STAT \<Rightarrow> ''S''
     | MSG_DATA_SEND \<Rightarrow> ''DS'' | MSG_SWITCH \<Rightarrow> ''U'' | MSG_ASYNC \<Rightarrow> ''DR''
     | MSG_MODE_NORMAL \<Rightarrow> ''PT'' | MSG_MODE_PROGRAM \<Rightarrow> ''PE'' | _ \<Rightarrow> ''PM''))"
  unfolding initMessageHeaders_def fold_insert_new_empty assms
  by (cases t) simp_all

end
