(* ===== verification/Parser_Prefix.thy ===== *)
theory Parser_Prefix
  imports Parser_Correct
begin

text \<open>
  Incomplete messages: what the parser says while a message is still arriving. The messages
  whose recognition does not depend on the length of the buffer (all but module
  identifications, answers to PM commands and empty asynchronous data) are called
  self-delimiting; every proper prefix of one is \<open>PARSE_NOT_COMPLETE\<close>, never
  \<open>PARSE_BAD_FORMAT\<close>. The second part states the contract the framing relies on as the locale
  \<open>message_parser\<close> and instantiates it with \<open>parseData\<close>.
\<close>

section \<open>Self-delimiting messages\<close>

definition self_delimiting :: "MessageType \<Rightarrow> ustring \<Rightarrow> bool" where
  "self_delimiting T m \<longleftrightarrow> frame 0 T m \<and> frame 6 T m"

lemma self_delimiting_cases [consumes 1, case_names fixed spi usb async]:
  assumes "self_delimiting T m"
  obtains (fixed) s where "(T, s) \<in> set fixed_frames" "m = crlf s"
  | (spi) x where "T = MSG_SPI_STAT" "m = uchar_str ''<S:'' @ [x, CR]"
  | (usb) w where "T = MSG_USB_INFO" "m = uchar_str ''<I:'' @ w" "usb_text USB_TYPE w"
  | (async) len body where "T = MSG_ASYNC" "length body = unat len" "body \<noteq> []"
      "m = uchar_str ''<DR'' @ [len] @ uchar_str '':'' @ body @ [CR]"
proof -
  from assms have f0: "frame 0 T m" and f6: "frame 6 T m" by (simp_all add: self_delimiting_def)
  from f0 show thesis
  proof (cases rule: frame.cases)
    case (frame_fixed s)
    then show thesis using that(1) by blast
  next
    case (frame_spi x)
    then show thesis using that(2) by blast
  next
    case (frame_usb ty ver sn)
    then show thesis using that(3) usb_textI by blast
  next
    case (frame_async body len)
    have "body \<noteq> []"
    proof
      assume "body = []"
      with f6 frame_async show False by (cases rule: frame.cases) (auto simp: fixed_frames_def)
    qed
    with frame_async that(4) show thesis by blast
  qed (auto simp: pm_codes_def)
qed

lemma self_delimiting_frame: "self_delimiting T m \<Longrightarrow> frame n T m"
  by (cases rule: self_delimiting_cases, assumption)
    (auto intro: frame_fixed frame_spi frame_usb_text frame_async simp del: uchar_str_Cons append_Cons)

section \<open>Prefixes\<close>

lemma path_append:
  "path s (u @ v) = (case path s u of None \<Rightarrow> None | Some t \<Rightarrow> path t v)"
  by (induction u arbitrary: s) simp_all

text \<open>The parser runs out of bytes.\<close>

definition waits :: "parser \<Rightarrow> ustring \<Rightarrow> bool" where
  "waits p d \<longleftrightarrow> (\<forall>r. \<exists>r'. parse_loop p d 0 0 r = Inr r' \<and> resultType r' = resultType r)"

lemma waits_path:
  assumes "parser_ok p" and "path 0 (q @ u) = Some t"
  shows "waits p q"
proof -
  from assms(2) obtain t' where "path 0 q = Some t'"
    by (auto simp: path_append split: option.splits)
  from loop_from_start [OF assms(1) this, of q "[]"] show ?thesis
    by (auto simp: waits_def loop_end moved_def)
qed

lemma usb_loop_waits:
  "drop i d = v \<Longrightarrow> v \<noteq> [] \<Longrightarrow> usb_text sec (v @ u) \<Longrightarrow> u \<noteq> [] \<Longrightarrow>
     usb_loop d i sec r = r\<lparr>procPosition := length d - 1\<rparr>"
proof (induction v arbitrary: i sec r)
  case (Cons b v)
  note i = drop_ConsD [OF Cons.prems(1)]
  have "usb_loop d (Suc i) sec' r' =
      (if v = [] then r' else r'\<lparr>procPosition := length d - 1\<rparr>)"
    if "usb_text sec' (v @ u)" for sec' r'
    using Cons.IH [OF i(3) _ that Cons.prems(4)] i(3) by (auto simp: usb_loop_end)
  moreover have "v = [] \<Longrightarrow> length d - 1 = i" using i by simp
  ultimately show ?case
    using Cons.prems by (auto simp: usb_loop_step [OF i(1)] i(2) split: if_splits)
qed simp

lemma waits_usb:
  assumes ok: "parser_ok p" and "usb_text USB_TYPE (v @ u)" and "u \<noteq> []" and "v \<noteq> []"
  shows "waits p (uchar_str ''<I:'' @ v)"
  unfolding waits_def
proof
  fix r
  let ?d = "uchar_str ''<I:'' @ v"
  have d: "drop 3 ?d = v" by simp
  define sp where "sp = (if length ?d = 4 then \<lparr>newState = 17, procPosition = 3, formatError = False\<rparr>
      else \<lparr>newState = 18, procPosition = length ?d - 1, formatError = False\<rparr>)"
  have l: "3 < length ?d" using assms(4) by simp
  have "processSpecialState 17 ?d 3 = Inr sp"
    using usb_loop_waits [OF d assms(4,2,3)]
    by (simp add: processSpecialState_def processUSBInfo_def sp_def Let_def)
  from loop_special_step [OF ok _ l this, of "moved r 0 3"]
  show "\<exists>r'. parse_loop p ?d 0 0 r = Inr r' \<and> resultType r' = resultType r"
    unfolding start_exits(1) [OF ok] by (auto simp: sp_def loop_end moved_def)
qed

lemma waits_async:
  assumes ok: "parser_ok p" and "length v \<le> unat len" and "v \<noteq> []"
  shows "waits p ((uchar_str ''<DR'' @ [len, 58]) @ v)"
  unfolding waits_def
proof
  fix r
  let ?d = "(uchar_str ''<DR'' @ [len, 58]) @ v"
  define sp where "sp = (if length ?d = 6 then \<lparr>newState = 50, procPosition = 5, formatError = False\<rparr>
      else \<lparr>newState = 51, procPosition = length ?d - 1, formatError = False\<rparr>)"
  have l: "5 < length ?d" using assms(3) by simp
  have "processSpecialState 50 ?d 5 = Inr sp"
    using assms(2) by (simp add: processSpecialState_def processAsynData_def sp_def Let_def)
  from loop_special_step [OF ok _ l this, of "moved r 0 5"]
  show "\<exists>r'. parse_loop p ?d 0 0 r = Inr r' \<and> resultType r' = resultType r"
    unfolding start_exits(4) [OF ok] by (auto simp: sp_def loop_end moved_def)
qed

lemma prefix_cases:
  assumes "a @ b = q @ u"
  obtains q' where "a = q @ q'" | v where "q = a @ v" "v \<noteq> []" "b = v @ u"
proof -
  from assms consider us where "a = q @ us" | us where "q = a @ us" "b = us @ u"
    by (auto simp: append_eq_append_conv2)
  then show thesis
  proof cases
    case (2 us)
    with that show thesis by (cases "us = []") simp_all
  qed (rule that(1))
qed

lemma self_delimiting_waits:
  assumes ok: "parser_ok p" and "self_delimiting T m" and m: "m = q @ u" and u: "u \<noteq> []"
  shows "waits p q"
  using assms(2)
proof (cases rule: self_delimiting_cases)
  case (fixed s)
  then have "path_ends 0 (uchar_str s) T" using fixed_path_ends by (auto simp: list_all_iff)
  then obtain t where t: "path 0 (uchar_str s) = Some t"
    by (auto simp: path_ends_def split: option.splits)
  from fixed(2) m have "uchar_str s @ [CR] = q @ u" by (simp add: crlf_def)
  then have "uchar_str s = q @ butlast u" using u by (metis butlast_append butlast_snoc)
  with t waits_path [OF ok, of q "butlast u"] show ?thesis by simp
next
  case (spi x)
  have "(uchar_str ''<S:'' @ [x]) @ [CR] = q @ u" using spi m by simp
  then have "uchar_str ''<S:'' @ [x] = q @ butlast u" using u by (metis butlast_append butlast_snoc)
  with special_paths(4) [of x] waits_path [OF ok, of q "butlast u"] show ?thesis by metis
next
  case (usb w)
  with m have "uchar_str ''<I:'' @ w = q @ u" by simp
  then show ?thesis
  proof (cases rule: prefix_cases)
    case (1 q')
    with special_paths(1) waits_path [OF ok, of q q'] show ?thesis by metis
  next
    case (2 v)
    with waits_usb [OF ok _ u] usb show ?thesis by metis
  qed
next
  case (async len body)
  with m have "(uchar_str ''<DR'' @ [len, 58]) @ (body @ [CR]) = q @ u" by simp
  then show ?thesis
  proof (cases rule: prefix_cases)
    case (1 q')
    with special_paths(5) [of len] waits_path [OF ok, of q q'] show ?thesis by metis
  next
    case (2 v)
    then have "body = v @ butlast u" using u by (metis butlast_append butlast_snoc)
    then have "length v \<le> unat len" using async(2) by simp
    with waits_async [OF ok _ 2(2)] 2(1) show ?thesis by metis
  qed
qed

lemma parseData_waits:
  assumes "parser_ok p" and "self_delimiting T (q @ u)" and "u \<noteq> []"
  shows "\<exists>r p'. parseData p q = Inr (r, p') \<and> resultType r = PARSE_NOT_COMPLETE"
proof -
  define p0 where "p0 = p\<lparr>lastParsedData := q,
      lastParseResult := (lastParseResult p)\<lparr>resultType := PARSE_NOT_COMPLETE\<rparr>\<rparr>"
  have "parser_ok p0" using assms(1) by (simp add: p0_def)
  from self_delimiting_waits [OF this assms(2) refl assms(3)]
  obtain r where "parse_loop p0 q 0 0 (lastParseResult p0) = Inr r"
    "resultType r = PARSE_NOT_COMPLETE"
    by (force simp: waits_def p0_def)
  then show ?thesis by (simp add: parseData_def p0_def INITIAL_STATE_def)
qed

text \<open>
  C10. Nothing is thrown away while a message is arriving. For every proper prefix of a
  self-delimiting message \<open>parseData\<close> reports \<open>PARSE_NOT_COMPLETE\<close>: the reader keeps the
  bytes and waits for the rest.
\<close>

theorem prefix_incomplete:
  assumes "parser_ok p" and "self_delimiting T (q @ u)" and "u \<noteq> []"
  shows "\<exists>r p'. parseData p q = Inr (r, p') \<and> resultType r = PARSE_NOT_COMPLETE"
  using assms by (rule parseData_waits)

theorem prefix_incomplete_witness:
  "\<exists>p r p'. parseData p (uchar_str ''<DR'' @ [2] @ uchar_str '':'' @ [13]) = Inr (r, p') \<and>
     resultType r = PARSE_NOT_COMPLETE"
proof -
  have ok: "parser_ok (new_CDCMessageParserPrivate (0, 0, 0))"
    by (rule new_parser_ok) simp
  have "frame n MSG_ASYNC (uchar_str ''<DR'' @ [2] @ uchar_str '':'' @ [13, 60] @ [CR])" for n
    by (rule frame_async) simp_all
  then have "self_delimiting MSG_ASYNC
      ((uchar_str ''<DR'' @ [2] @ uchar_str '':'' @ [13]) @ [60, CR])"
    by (simp add: self_delimiting_def)
  from prefix_incomplete [OF ok this] show ?thesis by auto
qed

section \<open>The contract of the parser\<close>

locale message_parser =
  fixes parse :: "'p \<Rightarrow> ustring \<Rightarrow> thrown + (ParseResult \<times> 'p)"
    and ok :: "'p \<Rightarrow> bool"
    and lang :: "nat \<Rightarrow> MessageType \<Rightarrow> ustring \<Rightarrow> bool"
  assumes parse_total: "ok p \<Longrightarrow> \<exists>r p'. parse p d = Inr (r, p') \<and> ok p' \<and>
      (d \<noteq> [] \<longrightarrow> lastPosition r < length d)"
    and parse_exact: "ok p \<Longrightarrow> parse p d = Inr (r, p') \<Longrightarrow>
      (resultType r = PARSE_OK \<and> msgType r = T \<and> Suc (lastPosition r) = k) =
      (k \<le> length d \<and> lang (length d) T (take k d))"
begin

text \<open>A parser is a function: at most one message starts a buffer.\<close>

lemma lang_unambiguous:
  assumes "ok p" and "d = m @ rest" and "d = m' @ rest'"
    and "lang (length d) T m" and "lang (length d) T' m'"
  shows "T' = T \<and> m' = m"
proof -
  obtain r p' where r: "parse p d = Inr (r, p')" using parse_total [OF assms(1), of d] by blast
  note ex = parse_exact [OF assms(1) r]
  from assms(2,4) have "length m \<le> length d" "lang (length d) T (take (length m) d)" by simp_all
  then have a: "msgType r = T \<and> Suc (lastPosition r) = length m" using ex by blast
  from assms(3,5) have "length m' \<le> length d" "lang (length d) T' (take (length m') d)" by simp_all
  then have b: "msgType r = T' \<and> Suc (lastPosition r) = length m'" using ex by blast
  from a b have "length m' = length m" by simp
  with assms(2,3) a b show ?thesis by auto
qed

lemma parse_message:
  assumes "ok p" and "d = m @ rest" and "lang (length d) T m"
  shows "\<exists>r p'. parse p d = Inr (r, p') \<and> ok p' \<and> resultType r = PARSE_OK \<and> msgType r = T \<and>
    Suc (lastPosition r) = length m"
proof -
  obtain r p' where r: "parse p d = Inr (r, p')" "ok p'"
    using parse_total [OF assms(1), of d] by blast
  with parse_exact [OF assms(1) r(1), of T "length m"] assms(2,3) show ?thesis by auto
qed

lemma parse_no_message:
  assumes "ok p" and "\<nexists>T m rest. d = m @ rest \<and> lang (length d) T m"
  shows "\<exists>r p'. parse p d = Inr (r, p') \<and> ok p' \<and> resultType r \<noteq> PARSE_OK"
proof -
  obtain r p' where r: "parse p d = Inr (r, p')" "ok p'"
    using parse_total [OF assms(1), of d] by blast
  moreover have "resultType r \<noteq> PARSE_OK"
    using parse_exact [OF assms(1) r(1)] assms(2) by (metis append_take_drop_id)
  ultimately show ?thesis by blast
qed

end

lemma parseData_law:
  assumes "parser_ok p"
  shows "\<exists>r p'. parseData p d = Inr (r, p') \<and> parser_ok p' \<and>
    (d \<noteq> [] \<longrightarrow> lastPosition r < length d)"
    and "parseData p d = Inr (r, p') \<Longrightarrow>
      (resultType r = PARSE_OK \<and> msgType r = T \<and> Suc (lastPosition r) = k) =
      (k \<le> length d \<and> frame (length d) T (take k d))"
proof -
  obtain r0 p0 where r0: "parseData p d = Inr (r0, p0)" "parser_ok p0"
    "d \<noteq> [] \<Longrightarrow> lastPosition r0 < length d"
    "\<And>T k. resultType r0 = PARSE_OK \<and> msgType r0 = T \<and> Suc (lastPosition r0) = k \<longleftrightarrow>
          k \<le> length d \<and> frame (length d) T (take k d)"
    by (rule parseData_result [OF assms, where d = d]) blast
  then show "\<exists>r p'. parseData p d = Inr (r, p') \<and> parser_ok p' \<and>
      (d \<noteq> [] \<longrightarrow> lastPosition r < length d)" by blast
  show "parseData p d = Inr (r, p') \<Longrightarrow>
      (resultType r = PARSE_OK \<and> msgType r = T \<and> Suc (lastPosition r) = k) =
      (k \<le> length d \<and> frame (length d) T (take k d))"
    using r0 by simp
qed

interpretation cdc: message_parser parseData parser_ok frame
  by unfold_locales (rule parseData_law, assumption)+

text \<open>
  The language is unambiguous: no buffer starts with two different messages, nor with the same
  bytes under two types.
\<close>

lemma frame_unambiguous:
  assumes "frame (length d) T m" and "frame (length d) T' m'" and "d = m @ rest"
    and "d = m' @ rest'"
  shows "T' = T \<and> m' = m"
proof -
  have "parser_ok (new_CDCMessageParserPrivate (0, 0, 0))"
    by (rule new_parser_ok) simp
  then show ?thesis using assms cdc.lang_unambiguous by blast
qed

end
