(* ===== verification/Framing.thy ===== *)
theory Framing
  imports Impl_State Parser_Prefix
begin

text \<open>
  The framing of the received bytes (\<open>src/CDCImpl.cpp\<close>): \<open>parseNextMessage\<close>,
  \<open>processMessage\<close> and the loop \<open>processAllMessages\<close>, which the reading thread runs on its
  buffer whenever it holds a carriage return. The functions return their outcome, the buffer
  they have updated and the object; on an exception the two are as the C++ code leaves them.

  The specification \<open>framed\<close> says how a buffer falls into messages of the language and
  discarded pieces without mentioning the loop; the refinement lemma shows that the loop
  follows it and what the object looks like afterwards.
\<close>

section \<open>Definitions\<close>

definition GT :: byte where "GT = of_char CHR ''>''"
definition LT :: byte where "LT = of_char CHR ''<''"

lemmas bracket_defs = GT_def LT_def

text \<open>The work-around for a firmware error: a leading \<open>>\<close> is replaced.\<close>

definition fix_head :: "ustring \<Rightarrow> ustring" where
  "fix_head msgBuffer =
     (if length msgBuffer > 0 \<and> msgBuffer ! 0 = GT then msgBuffer[0 := LT] else msgBuffer)"

definition parseNextMessage ::
  "ustring \<Rightarrow> 'e impl \<Rightarrow> (thrown + ParsedMessage) \<times> ustring \<times> 'e impl" where
  "parseNextMessage msgBuffer s =
     (let msgBuffer = fix_head msgBuffer in
      case parseData (msgParser s) msgBuffer of
        Inl e \<Rightarrow> (Inl e, msgBuffer, s)
      | Inr (r, p) \<Rightarrow>
          (let parsedMsg =
             (case resultType r of
                PARSE_OK \<Rightarrow> take (lastPosition r + 1) msgBuffer
              | PARSE_NOT_COMPLETE \<Rightarrow> []
              | PARSE_BAD_FORMAT \<Rightarrow> [])
           in (Inr \<lparr>message = parsedMsg, parseResult = r\<rparr>, msgBuffer, s\<lparr>msgParser := p\<rparr>)))"

text \<open>A listener gets the data with a zero byte behind it, and its length.\<close>

definition call_listener :: "listener \<Rightarrow> ustring \<Rightarrow> 'e impl \<Rightarrow> 'e impl" where
  "call_listener l userData s =
     s\<lparr>listenerCalls := listenerCalls s @ [(l, userData @ [0], of_nat (length userData))]\<rparr>"

definition processMessage ::
  "('e \<Rightarrow> thrown + 'e) \<Rightarrow> ParsedMessage \<Rightarrow> 'e impl \<Rightarrow> (thrown + unit) \<times> 'e impl" where
  "processMessage set_ev parsedMessage s =
     (if msgType (parseResult parsedMessage) = MSG_ASYNC then
        (case asyncListener s of
           None \<Rightarrow> (Inr (), s)
         | Some l \<Rightarrow>
             (case getParsedDRData (message parsedMessage) of
                Inl e \<Rightarrow> (Inl e, s)
              | Inr userData \<Rightarrow>
                  (case new_char_array (size_of userData + 1) of
                     Inl e \<Rightarrow> (Inl e, s)
                   | Inr _ \<Rightarrow> (Inr (), call_listener l userData s))))
      else
        (let s = s\<lparr>lastResponse :=
                     (lastResponse s)\<lparr>parseResult := parseResult parsedMessage\<rparr>\<rparr>;
             s = s\<lparr>lastResponse := (lastResponse s)\<lparr>message := message parsedMessage\<rparr>\<rparr>
         in case set_ev (newMsgEvent s) of
              Inl e \<Rightarrow> (Inl e, s)
            | Inr ev \<Rightarrow> (Inr (), s\<lparr>newMsgEvent := ev\<rparr>)))"

text \<open>What \<open>processAllMessages\<close> leaves of a badly formatted buffer.\<close>

definition skip_bad :: "ustring \<Rightarrow> nat \<Rightarrow> ustring" where
  "skip_bad msgBuffer from =
     (case find_index msgBuffer CR from of
        None \<Rightarrow> []
      | Some endMsgPos \<Rightarrow> erase_front (endMsgPos + 1) msgBuffer)"

lemma length_fix_head [simp]: "length (fix_head d) = length d"
  by (simp add: fix_head_def)

lemma fix_head_eq_Nil [simp]: "fix_head d = [] \<longleftrightarrow> d = []"
  by (simp add: fix_head_def)

lemma parseNextMessage_buffer: "parseNextMessage d s = (r, d', s') \<Longrightarrow> d' = fix_head d"
  by (auto simp: parseNextMessage_def Let_def split: sum.splits prod.splits)

lemma length_skip_bad: "d \<noteq> [] \<Longrightarrow> length (skip_bad d n) < length d"
  by (auto simp: skip_bad_def split: option.splits)

function processAllMessages ::
  "('e \<Rightarrow> thrown + 'e) \<Rightarrow> ustring \<Rightarrow> 'e impl \<Rightarrow> (thrown + unit) \<times> ustring \<times> 'e impl" where
  "processAllMessages set_ev msgBuffer s =
     (if msgBuffer = [] then (Inr (), msgBuffer, s)
      else
        (case parseNextMessage msgBuffer s of
           (Inl e, buf, s) \<Rightarrow> (Inl e, buf, s)
         | (Inr parsedMessage, buf, s) \<Rightarrow>
             (case resultType (parseResult parsedMessage) of
                PARSE_NOT_COMPLETE \<Rightarrow> (Inr (), buf, s)
              | PARSE_BAD_FORMAT \<Rightarrow>
                  processAllMessages set_ev
                    (skip_bad buf (lastPosition (parseResult parsedMessage)))
                    (setLastReceptionError ''Bad message format'' s)
              | PARSE_OK \<Rightarrow>
                  (let buf = erase_front (lastPosition (parseResult parsedMessage) + 1) buf in
                   case processMessage set_ev parsedMessage s of
                     (Inl e, s) \<Rightarrow> (Inl e, buf, s)
                   | (Inr _, s) \<Rightarrow> processAllMessages set_ev buf s))))"
  by pat_completeness auto
termination
  by (relation "measure (\<lambda>(set_ev, d, s). length d)")
    (auto dest!: sym [THEN parseNextMessage_buffer] parseNextMessage_buffer
      intro!: length_skip_bad [THEN less_le_trans])

declare processAllMessages.simps [simp del]

section \<open>Specification\<close>

text \<open>
  A buffer as a sequence of pieces: messages, each of which is a message of the language with
  respect to the bytes in the buffer at that moment, and pieces that no message starts and that
  end with a carriage return or with the buffer. What is left is empty or starts no message.
\<close>

datatype piece = Message MessageType ustring | Junk ustring

definition starts_message :: "ustring \<Rightarrow> bool" where
  "starts_message d = (\<exists>T m rest. d = m @ rest \<and> frame (length d) T m)"

inductive framed :: "ustring \<Rightarrow> piece list \<Rightarrow> ustring \<Rightarrow> bool" where
  framed_empty: "framed [] [] []"
| framed_rest: "d \<noteq> [] \<Longrightarrow> \<not> starts_message (fix_head d) \<Longrightarrow> framed d [] (fix_head d)"
| framed_message: "fix_head d = m @ rest \<Longrightarrow> frame (length d) T m \<Longrightarrow> framed rest ps b \<Longrightarrow>
     framed d (Message T m # ps) b"
| framed_junk: "fix_head d = junk @ rest \<Longrightarrow> junk \<noteq> [] \<Longrightarrow> \<not> starts_message (fix_head d) \<Longrightarrow>
     last junk = CR \<or> rest = [] \<Longrightarrow> framed rest ps b \<Longrightarrow> framed d (Junk junk # ps) b"

inductive_cases framed_NilE: "framed [] ps b"

text \<open>What a client can see of the object, and how a piece changes it.\<close>

record view =
  shown :: "MessageType \<times> ustring"
  heard :: "(listener \<times> ustring \<times> 32 word) list"
  complaint :: string
  listening :: "listener option"
  halted :: bool

definition view :: "'e impl \<Rightarrow> view" where
  "view s =
     \<lparr>shown = (msgType (parseResult (lastResponse s)), message (lastResponse s)),
      heard = listenerCalls s, complaint = lastReceptionError s, listening = asyncListener s,
      halted = receptionStopped s\<rparr>"

definition async_body :: "ustring \<Rightarrow> ustring" where
  "async_body m = take (length m - 6) (drop 5 m)"

fun absorb :: "piece \<Rightarrow> view \<Rightarrow> view" where
  "absorb (Message T m) v =
     (if T = MSG_ASYNC then
        (case listening v of
           None \<Rightarrow> v
         | Some l \<Rightarrow>
             v\<lparr>heard := heard v @ [(l, async_body m @ [0], of_nat (length (async_body m)))]\<rparr>)
      else v\<lparr>shown := (T, m)\<rparr>)"
| "absorb (Junk j) v = v\<lparr>complaint := ''Bad message format''\<rparr>"

fun is_response :: "piece \<Rightarrow> bool" where
  "is_response (Message T m) = (T \<noteq> MSG_ASYNC)"
| "is_response (Junk j) = False"

lemma view_simps [simp]:
  "view (s\<lparr>msgParser := p\<rparr>) = view s"
  "view (s\<lparr>newMsgEvent := ev\<rparr>) = view s"
  "view (setLastReceptionError d s) = (view s)\<lparr>complaint := d\<rparr>"
  by (simp_all add: view_def setLastReceptionError_def)

lemma fields_setLastReceptionError [simp]:
  "msgParser (setLastReceptionError d s) = msgParser s"
  "newMsgEvent (setLastReceptionError d s) = newMsgEvent s"
  by (simp_all add: setLastReceptionError_def)

section \<open>Parsing the next message\<close>

lemma frame_async_decoded:
  assumes "frame n MSG_ASYNC m"
  shows "getParsedDRData m = Inr (async_body m)" and "length m < 262"
proof -
  from assms obtain body len where
    m: "m = uchar_str ''<DR'' @ [len] @ uchar_str '':'' @ body @ [CR]" "length body = unat len"
    by (cases rule: frame.cases) (auto simp: fixed_frames_def)
  have "async_body m = body" by (simp add: m(1) async_body_def)
  with decode_DR [OF m(2)] m(1) show "getParsedDRData m = Inr (async_body m)" by simp
  show "length m < 262" using unsigned_less [of len] m by simp
qed

lemma next_message:
  assumes "parser_ok (msgParser s)" and "d \<noteq> []"
  obtains r s' where
      "parseNextMessage d s = (Inr \<lparr>message = (if resultType r = PARSE_OK
         then take (Suc (lastPosition r)) (fix_head d) else []), parseResult = r\<rparr>, fix_head d, s')"
    and "parser_ok (msgParser s')" and "view s' = view s" and "newMsgEvent s' = newMsgEvent s"
    and "lastPosition r < length d"
    and "resultType r = PARSE_OK \<Longrightarrow>
      frame (length d) (msgType r) (take (Suc (lastPosition r)) (fix_head d))"
    and "resultType r \<noteq> PARSE_OK \<Longrightarrow> \<not> starts_message (fix_head d)"
proof -
  obtain r p' where r: "parseData (msgParser s) (fix_head d) = Inr (r, p')" "parser_ok p'"
    and pos0: "fix_head d \<noteq> [] \<Longrightarrow> lastPosition r < length (fix_head d)"
    and iff0: "\<And>T k. resultType r = PARSE_OK \<and> msgType r = T \<and> Suc (lastPosition r) = k \<longleftrightarrow>
          k \<le> length (fix_head d) \<and> frame (length (fix_head d)) T (take k (fix_head d))"
    by (rule parseData_result [OF assms(1), where d = "fix_head d"]) blast
  note iff = iff0 [unfolded length_fix_head]
  have pos: "lastPosition r < length d" using pos0 assms(2) by simp
  have "resultType r = PARSE_OK" if st: "starts_message (fix_head d)"
  proof -
    from st obtain T m rest where "fix_head d = m @ rest" "frame (length d) T m"
      by (auto simp: starts_message_def)
    moreover from this(1) have "length m \<le> length d"
      by (metis length_append length_fix_head le_add1)
    ultimately show ?thesis using iff [of T "length m"] by simp
  qed
  moreover have "frame (length d) (msgType r) (take (Suc (lastPosition r)) (fix_head d))"
    if "resultType r = PARSE_OK"
    using that iff by blast
  moreover have "parseNextMessage d s = (Inr \<lparr>message = (if resultType r = PARSE_OK
         then take (Suc (lastPosition r)) (fix_head d) else []), parseResult = r\<rparr>, fix_head d,
         s\<lparr>msgParser := p'\<rparr>)"
    using r by (simp add: parseNextMessage_def Let_def split: ParseResultType.split)
  ultimately show thesis using that r(2) pos by fastforce
qed

lemma skip_bad_split:
  assumes "n < length d"
  obtains junk where "d = junk @ skip_bad d n" and "junk \<noteq> []"
    and "last junk = CR \<or> skip_bad d n = []"
proof (cases "find_index d CR n")
  case None
  with assms show thesis by (intro that [of d]) (auto simp: skip_bad_def)
next
  case (Some k)
  from find_index_bounds [OF this] have k: "k < length d" "d ! k = CR" by simp_all
  show thesis
  proof (rule that [of "take (Suc k) d"])
    show "last (take (Suc k) d) = CR \<or> skip_bad d n = []"
      using k by (simp add: take_Suc_snoc)
  qed (use k Some in \<open>auto simp: skip_bad_def erase_front_def\<close>)
qed

section \<open>The loop refines the specification\<close>

context message_event
begin

lemma processMessage_absorbs:
  assumes "usable (newMsgEvent s)" and "frame n (msgType r) m"
  obtains s' where "processMessage set_ev \<lparr>message = m, parseResult = r\<rparr> s = (Inr (), s')"
    and "view s' = absorb (Message (msgType r) m) (view s)" and "msgParser s' = msgParser s"
    and "usable (newMsgEvent s')"
    and "ready (newMsgEvent s') \<longleftrightarrow> ready (newMsgEvent s) \<or> is_response (Message (msgType r) m)"
proof (cases "msgType r = MSG_ASYNC")
  case True
  with assms(2) have f: "frame n MSG_ASYNC m" by simp
  have "length (async_body m) + 1 < 2 ^ 63"
    using frame_async_decoded(2) [OF f] by (simp add: async_body_def)
  from new_char_array_ok [OF this] True assms that frame_async_decoded(1) [OF f]
  show thesis
    by (cases "asyncListener s")
      (auto simp: processMessage_def view_def call_listener_def size_of_def add.commute)
next
  case False
  from set_obtain [OF assms(1)] obtain e' where
    e': "set_ev (newMsgEvent s) = Inr e'" "usable e'" "ready e'" .
  with False show thesis
    by (intro that [of "s\<lparr>lastResponse := \<lparr>message = m, parseResult = r\<rparr>, newMsgEvent := e'\<rparr>"])
      (simp_all add: processMessage_def Let_def view_def)
qed

lemma processAllMessages_refines:
  "usable (newMsgEvent s) \<Longrightarrow> parser_ok (msgParser s) \<Longrightarrow>
   \<exists>ps b s'. processAllMessages set_ev d s = (Inr (), b, s') \<and> framed d ps b \<and>
     view s' = fold absorb ps (view s) \<and> usable (newMsgEvent s') \<and> parser_ok (msgParser s') \<and>
     (ready (newMsgEvent s') \<longleftrightarrow> ready (newMsgEvent s) \<or> list_ex is_response ps)"
proof (induction "length d" arbitrary: d s rule: less_induct)
  case less
  show ?case
  proof (cases "d = []")
    case True
    with less.prems show ?thesis
      by (intro exI [of _ "[]"]) (auto simp: processAllMessages.simps intro: framed.intros)
  next
    case False
    obtain r s1 where parse: "parseNextMessage d s = (Inr \<lparr>message = (if resultType r = PARSE_OK
         then take (Suc (lastPosition r)) (fix_head d) else []), parseResult = r\<rparr>, fix_head d, s1)"
      and s1: "parser_ok (msgParser s1)" "view s1 = view s" "newMsgEvent s1 = newMsgEvent s"
      and pos: "lastPosition r < length d"
      and ok: "resultType r = PARSE_OK \<Longrightarrow>
        frame (length d) (msgType r) (take (Suc (lastPosition r)) (fix_head d))"
      and no: "resultType r \<noteq> PARSE_OK \<Longrightarrow> \<not> starts_message (fix_head d)"
      using next_message [OF less.prems(2) False] by blast
    show ?thesis
    proof (cases "resultType r")
      case PARSE_NOT_COMPLETE
      with False less.prems parse s1 no show ?thesis
        by (intro exI [of _ "[]"] exI [of _ "fix_head d"] exI [of _ s1])
          (simp add: processAllMessages.simps framed_rest)
    next
      case PARSE_BAD_FORMAT
      define b where "b = skip_bad (fix_head d) (lastPosition r)"
      define s2 where "s2 = setLastReceptionError ''Bad message format'' s1"
      from pos have "lastPosition r < length (fix_head d)" by simp
      then obtain junk where j: "fix_head d = junk @ b" "junk \<noteq> []" "last junk = CR \<or> b = []"
        unfolding b_def by (rule skip_bad_split)
      have "length b < length d"
        using length_skip_bad [of "fix_head d" "lastPosition r"] False by (simp add: b_def)
      from less.hyps [OF this, of s2] obtain ps c s' where
        "processAllMessages set_ev b s2 = (Inr (), c, s')" "framed b ps c"
        "view s' = fold absorb ps (view s2)" "usable (newMsgEvent s')" "parser_ok (msgParser s')"
        "ready (newMsgEvent s') \<longleftrightarrow> ready (newMsgEvent s2) \<or> list_ex is_response ps"
        using less.prems s1 by (auto simp: s2_def)
      moreover have "framed d (Junk junk # ps) c"
        by (rule framed_junk [OF j(1,2) _ j(3)]) (use no PARSE_BAD_FORMAT calculation in simp_all)
      ultimately show ?thesis
        using False parse PARSE_BAD_FORMAT s1
        by (intro exI [of _ "Junk junk # ps"] exI [of _ c] exI [of _ s'])
          (simp add: processAllMessages.simps b_def s2_def)
    next
      case PARSE_OK
      define m where "m = take (Suc (lastPosition r)) (fix_head d)"
      define b where "b = erase_front (Suc (lastPosition r)) (fix_head d)"
      have f: "frame (length d) (msgType r) m" using ok PARSE_OK by (simp add: m_def)
      have split: "fix_head d = m @ b" by (simp add: m_def b_def erase_front_def)
      have "usable (newMsgEvent s1)" using less.prems s1 by simp
      from processMessage_absorbs [OF this f] obtain s2 where
        s2: "processMessage set_ev \<lparr>message = m, parseResult = r\<rparr> s1 = (Inr (), s2)"
          "view s2 = absorb (Message (msgType r) m) (view s1)" "msgParser s2 = msgParser s1"
          "usable (newMsgEvent s2)"
          "ready (newMsgEvent s2) \<longleftrightarrow> ready (newMsgEvent s1) \<or> is_response (Message (msgType r) m)"
        by blast
      have "length b < length d" using False by (simp add: b_def)
      from less.hyps [OF this, of s2] obtain ps c s' where
        rest: "processAllMessages set_ev b s2 = (Inr (), c, s')" "framed b ps c"
        "view s' = fold absorb ps (view s2)" "usable (newMsgEvent s')" "parser_ok (msgParser s')"
        "ready (newMsgEvent s') \<longleftrightarrow> ready (newMsgEvent s2) \<or> list_ex is_response ps"
        using s1 s2 by auto
      have "framed d (Message (msgType r) m # ps) c"
        by (rule framed_message [OF split f rest(2)])
      moreover have "processAllMessages set_ev d s = (Inr (), c, s')"
        using False parse PARSE_OK s2(1) rest(1)
        by (simp add: processAllMessages.simps Let_def m_def b_def)
      ultimately show ?thesis
        using rest s1 s2
        by (intro exI [of _ "Message (msgType r) m # ps"] exI [of _ c] exI [of _ s']) auto
    qed
  qed
qed

end

section \<open>What the loop does not touch\<close>

text \<open>The fields of the object that only the client's thread uses.\<close>

definition client_part ::
  "'e impl \<Rightarrow> (MessageType \<rightharpoonup> string) \<times> byte option list \<times> nat \<times> ustring \<times> int handle \<times> 'e \<times> 'e \<times> 'e" where
  "client_part s =
     (messageHeaders s, m_transmitBuffer s, m_transmitBufferLen s, portOutput s, portHandle s,
      readStartEvent s, readEndEvent s, readEndResponse s)"

lemma client_part_update [simp]:
  "client_part (s\<lparr>msgParser := p\<rparr>) = client_part s"
  "client_part (s\<lparr>newMsgEvent := ev\<rparr>) = client_part s"
  "client_part (s\<lparr>lastResponse := r\<rparr>) = client_part s"
  "client_part (setLastReceptionError d s) = client_part s"
  "client_part (setReceptionStopped v s) = client_part s"
  "client_part (call_listener l u s) = client_part s"
  by (simp_all add: client_part_def cdc_defs call_listener_def)

lemma parseNextMessage_client: "parseNextMessage d s = (r, d', s') \<Longrightarrow> client_part s' = client_part s"
  by (auto simp: parseNextMessage_def Let_def split: sum.splits prod.splits)

lemma processMessage_client: "processMessage set_ev m s = (r, s') \<Longrightarrow> client_part s' = client_part s"
  by (auto simp: processMessage_def Let_def split: sum.splits prod.splits option.splits if_splits)

lemma processAllMessages_client:
  "processAllMessages set_ev d s = (r, b, s') \<Longrightarrow> client_part s' = client_part s"
proof (induction set_ev d s arbitrary: r b s' rule: processAllMessages.induct)
  case (1 set_ev d s)
  show ?case
  proof (cases "d = []")
    case False
    obtain x buf s1 where x: "parseNextMessage d s = (x, buf, s1)"
      by (cases "parseNextMessage d s") auto
    note c1 = parseNextMessage_client [OF x]
    show ?thesis
    proof (cases x)
      case (Inl e)
      with "1.prems" False x c1 show ?thesis by (simp add: processAllMessages.simps)
    next
      case (Inr pm)
      show ?thesis
      proof (cases "resultType (parseResult pm)")
        case PARSE_OK
        obtain y s2 where y: "processMessage set_ev pm s1 = (y, s2)"
          by (cases "processMessage set_ev pm s1")
        note c2 = processMessage_client [OF y]
        show ?thesis
        proof (cases y)
          case (Inl e)
          with "1.prems" False x Inr PARSE_OK y c1 c2 show ?thesis
            by (simp add: processAllMessages.simps Let_def)
        next
          case (Inr u)
          with "1.IH"(1) [OF False x [symmetric] \<open>x = Inr pm\<close> refl PARSE_OK refl
              y [symmetric] Inr] "1.prems" False x \<open>x = Inr pm\<close> PARSE_OK y c1 c2
          show ?thesis by (simp add: processAllMessages.simps Let_def)
        qed
      next
        case PARSE_NOT_COMPLETE
        with "1.prems" False x Inr c1 show ?thesis by (simp add: processAllMessages.simps)
      next
        case PARSE_BAD_FORMAT
        with "1.IH"(2) [OF False x [symmetric] Inr refl PARSE_BAD_FORMAT]
          "1.prems" False x Inr c1
        show ?thesis by (simp add: processAllMessages.simps)
      qed
    qed
  qed (use "1.prems" in \<open>simp add: processAllMessages.simps\<close>)
qed

section \<open>The last response\<close>

lemma framed_message_bound:
  "framed d ps b \<Longrightarrow> length b \<le> length d \<and>
     (\<forall>T m. Message T m \<in> set ps \<longrightarrow> (\<exists>n. frame n T m) \<and> length m \<le> length d)"
proof (induction rule: framed.induct)
  case (framed_message d m rest T ps b)
  have "length d = length m + length rest"
    using arg_cong [OF framed_message.hyps(1), of length] by simp
  with framed_message show ?case by (auto intro: trans_le_add2)
next
  case (framed_junk d junk rest ps b)
  have "length d = length junk + length rest"
    using arg_cong [OF framed_junk.hyps(1), of length] by simp
  with framed_junk show ?case by (auto intro: trans_le_add2)
qed auto

lemma shown_absorb:
  "shown (fold absorb ps v) = shown v \<or>
     (\<exists>T m. Message T m \<in> set ps \<and> T \<noteq> MSG_ASYNC \<and> shown (fold absorb ps v) = (T, m))"
proof (induction ps arbitrary: v)
  case (Cons p ps)
  show ?case
  proof (cases p)
    case (Message T m)
    with Cons.IH [of "absorb p v"] show ?thesis by (auto split: option.splits if_splits)
  next
    case (Junk j)
    with Cons.IH [of "absorb p v"] show ?thesis by auto
  qed
qed simp

text \<open>The last response is the initial one or a message, and not an asynchronous one.\<close>

definition response_ok :: "MessageType \<times> ustring \<Rightarrow> bool" where
  "response_ok r \<longleftrightarrow> r = (MSG_ERROR, []) \<or>
     (fst r \<noteq> MSG_ASYNC \<and> (\<exists>n. frame n (fst r) (snd r)) \<and> length (snd r) < 2 ^ 62)"

lemma framed_response_ok:
  assumes "framed d ps b" and "length d < 2 ^ 62" and "response_ok (shown v)"
  shows "response_ok (shown (fold absorb ps v))"
  using shown_absorb [of ps v] framed_message_bound [OF assms(1)] assms(2,3)
  by (fastforce simp: response_ok_def)

lemma ParsedMessage_update [simp]:
  "x\<lparr>parseResult := r, message := m\<rparr> = \<lparr>message = m, parseResult = r\<rparr>"
  by (cases x) simp

section \<open>Properties\<close>

text \<open>
  C3. The framing does what its specification says. For every buffer, \<open>processAllMessages\<close>
  returns, and the buffer has been taken apart into messages of the language, each complete
  at the moment it was taken, and discarded pieces that start no message and end with a
  carriage return or with the buffer; what is left starts no message. The object afterwards
  is the one that absorbs these pieces in order: the last message that is not asynchronous
  is the last response, every asynchronous one has been passed to the listener with exactly
  its data, a discarded piece leaves the error text, and \<open>newMsgEvent\<close> is set afterwards if and
  only if it was before or there has been a response.
\<close>

theorem framing_refinement:
  assumes "is_open (newMsgEvent s)" and "parser_ok (msgParser s)"
  shows "\<exists>ps b s'. processAllMessages setMyEvent_Lin d s = (Inr (), b, s') \<and> framed d ps b \<and>
    view s' = fold absorb ps (view s) \<and> client_part s' = client_part s \<and>
    (event_ready_Lin (newMsgEvent s') \<longleftrightarrow>
       event_ready_Lin (newMsgEvent s) \<or> list_ex is_response ps)"
proof -
  from lin_ev.processAllMessages_refines [OF assms, of d] obtain ps b s' where
    p: "processAllMessages setMyEvent_Lin d s = (Inr (), b, s')" "framed d ps b"
    "view s' = fold absorb ps (view s)"
    "event_ready_Lin (newMsgEvent s') \<longleftrightarrow>
       event_ready_Lin (newMsgEvent s) \<or> list_ex is_response ps"
    by blast
  with processAllMessages_client [OF p(1)] show ?thesis by blast
qed

theorem framing_refinement_witness:
  "\<exists>(s :: linux_event impl) ps b. processAllMessages setMyEvent_Lin [1, 13, 60] s =
     (Inr (), b, snd (snd (processAllMessages setMyEvent_Lin [1, 13, 60] s))) \<and> framed [1, 13, 60] ps b"
proof -
  define s :: "linux_event impl" where
    "s = blank_object [] (Open 0) (new_CDCMessageParserPrivate (0, 0, 0)) False
        \<lparr>msgType = MSG_ERROR, resultType = PARSE_OK, lastPosition = 0\<rparr>"
  have "parser_ok (new_CDCMessageParserPrivate (0, 0, 0))" by (rule new_parser_ok) simp
  then have "is_open (newMsgEvent s)" "parser_ok (msgParser s)"
    by (simp_all add: s_def blank_object_def)
  from framing_refinement [OF this, of "[1, 13, 60]"] obtain ps b s' where
    "processAllMessages setMyEvent_Lin [1, 13, 60] s = (Inr (), b, s')" "framed [1, 13, 60] ps b"
    by blast
  then show ?thesis by (intro exI [of _ s] exI [of _ ps] exI [of _ b]) simp
qed

end
