(* ===== verification/Framing_Stream.thy ===== *)
theory Framing_Stream
  imports Framing
begin

text \<open>
  Streams of messages: how \<open>processAllMessages\<close> behaves on a buffer that holds some complete
  self-delimiting messages and the beginning of another one, and what follows when such a
  stream arrives in arbitrary pieces. On the wire the first byte of a message may be \<open>>\<close>
  instead of \<open><\<close> (the firmware error the code works around).
\<close>

section \<open>Messages on the wire\<close>

definition on_wire :: "MessageType \<times> ustring \<Rightarrow> ustring \<Rightarrow> bool" where
  "on_wire f w \<longleftrightarrow> self_delimiting (fst f) (snd f) \<and> fix_head w = snd f"

text \<open>The piece a message is for the specification.\<close>

definition piece_of :: "MessageType \<times> ustring \<Rightarrow> piece" where
  "piece_of f = Message (fst f) (snd f)"

lemma piece_of_Pair: "piece_of (T, m) = Message T m"
  by (simp add: piece_of_def)

lemma self_delimiting_last: "self_delimiting T m \<Longrightarrow> m \<noteq> [] \<and> last m = CR"
proof (induction rule: self_delimiting_cases)
  case (usb w)
  from usb(3) obtain ty ver sn where "w = ty @ HASH # ver @ HASH # sn @ [CR]"
    unfolding usb_type_text usb_version_text usb_id_text by auto
  with usb(2) show ?case by simp
qed (auto simp: crlf_def)

lemma last_fix_head: "d \<noteq> [] \<Longrightarrow> last (fix_head d) = (if d = [GT] then LT else last d)"
  by (cases d) (auto simp: fix_head_def)

lemma on_wire_CR: "on_wire f w \<Longrightarrow> w \<noteq> [] \<and> CR \<in> set w"
proof -
  assume w: "on_wire f w"
  then have "fix_head w \<noteq> []" "last (fix_head w) = CR"
    using self_delimiting_last by (auto simp: on_wire_def)
  then show ?thesis
    using last_fix_head [of w] by (auto simp: bracket_defs split: if_splits) (metis last_in_set)
qed

lemma wires_nonempty: "list_all2 on_wire fs ws \<Longrightarrow> \<forall>w \<in> set ws. w \<noteq> []"
  by (induction rule: list_all2_induct) (auto dest: on_wire_CR)

lemma fix_head_append: "d \<noteq> [] \<Longrightarrow> fix_head (d @ t) = fix_head d @ t"
  by (cases d) (simp_all add: fix_head_def)

lemma fix_head_idem [simp]: "fix_head (fix_head d) = fix_head d"
  by (cases d) (simp_all add: fix_head_def bracket_defs)

lemma on_wire_fix_head: "on_wire f w \<Longrightarrow> on_wire f (fix_head w)"
  by (metis on_wire_def fix_head_idem)

lemma shown_last_message:
  assumes "t \<noteq> MSG_ASYNC" and "\<forall>f \<in> set after. fst f = MSG_ASYNC"
  shows "shown (fold absorb (map piece_of (before @ (t, m) # after)) v) = (t, m)"
proof -
  have "shown (fold absorb (map piece_of after) w) = shown w" for w
    using shown_absorb [of "map piece_of after" w] assms(2) by (auto simp: piece_of_def)
  then show ?thesis using assms(1) by (simp add: piece_of_def)
qed

lemma halted_view: "receptionStopped s = halted (view s)"
  by (simp add: view_def)

text \<open>A prefix of a stream of messages consists of messages and the beginning of one.\<close>

definition begins :: "ustring \<Rightarrow> ustring list \<Rightarrow> bool" where
  "begins q ws \<longleftrightarrow> (case ws of [] \<Rightarrow> q = [] | w # _ \<Rightarrow> \<exists>u. w = q @ u \<and> u \<noteq> [])"

lemma stream_prefix:
  "x @ y = concat ws \<Longrightarrow> \<forall>w \<in> set ws. w \<noteq> [] \<Longrightarrow>
     \<exists>ws1 ws2 q. ws = ws1 @ ws2 \<and> x = concat ws1 @ q \<and> begins q ws2"
proof (induction ws arbitrary: x)
  case (Cons w ws)
  from Cons.prems(1) have "w @ concat ws = x @ y" by simp
  then show ?case
  proof (cases rule: prefix_cases)
    case (1 q')
    show ?thesis
    proof (cases "q' = []")
      case True
      have "begins [] ws" using Cons.prems(2) by (cases ws) (auto simp: begins_def)
      with 1 True show ?thesis
        by (intro exI [of _ "[w]"] exI [of _ ws] exI [of _ "[]"]) simp
    next
      case False
      with 1 show ?thesis
        by (intro exI [of _ "[]"] exI [of _ "w # ws"] exI [of _ x]) (simp add: begins_def)
    qed
  next
    case (2 v)
    from Cons.IH [OF 2(3) [symmetric]] Cons.prems(2) obtain ws1 ws2 q where
      "ws = ws1 @ ws2" "v = concat ws1 @ q" "begins q ws2" by auto
    with 2(1) show ?thesis
      by (intro exI [of _ "w # ws1"] exI [of _ ws2] exI [of _ q]) simp
  qed
qed (simp add: begins_def)

section \<open>The loop on a stream\<close>

text \<open>What is found at the start of a buffer that starts with a message.\<close>

lemma next_frame:
  assumes ok: "parser_ok (msgParser s)" and d: "d \<noteq> []" and fx: "fix_head d = m @ rest"
    and f: "frame (length d) T m"
  obtains r s' where
      "parseNextMessage d s = (Inr \<lparr>message = m, parseResult = r\<rparr>, m @ rest, s')"
    and "resultType r = PARSE_OK" and "msgType r = T"
    and "erase_front (lastPosition r + 1) (m @ rest) = rest"
    and "parser_ok (msgParser s')" and "view s' = view s" and "newMsgEvent s' = newMsgEvent s"
proof -
  obtain r s1 where parse: "parseNextMessage d s = (Inr \<lparr>message = (if resultType r = PARSE_OK
         then take (Suc (lastPosition r)) (fix_head d) else []), parseResult = r\<rparr>, fix_head d, s1)"
    and s1: "parser_ok (msgParser s1)" "view s1 = view s" "newMsgEvent s1 = newMsgEvent s"
    and fr: "resultType r = PARSE_OK \<Longrightarrow>
        frame (length d) (msgType r) (take (Suc (lastPosition r)) (fix_head d))"
    and no: "resultType r \<noteq> PARSE_OK \<Longrightarrow> \<not> starts_message (fix_head d)"
    using next_message [OF ok d] by blast
  have "starts_message (fix_head d)"
    unfolding starts_message_def using fx f by (metis length_fix_head)
  with no have r: "resultType r = PARSE_OK" by blast
  have len: "length (fix_head d) = length d" by simp
  have "msgType r = T \<and> take (Suc (lastPosition r)) (fix_head d) = m"
    by (rule cdc.lang_unambiguous [OF ok fx append_take_drop_id [symmetric]])
      (use f fr [OF r] len in \<open>simp_all only:\<close>)
  then have T: "msgType r = T" and m: "take (Suc (lastPosition r)) (fix_head d) = m" by simp_all
  have "fix_head d = m @ drop (Suc (lastPosition r)) (fix_head d)"
    using m append_take_drop_id by metis
  with fx have "drop (Suc (lastPosition r)) (m @ rest) = rest" by simp
  with parse r m T s1 fx that show thesis by (simp add: erase_front_def)
qed

text \<open>The same for a buffer that starts with a message on the wire.\<close>

lemma on_wire_frame:
  assumes "on_wire (T, m) w"
  shows "w @ rest \<noteq> []" and "fix_head (w @ rest) = m @ rest" and "frame (length (w @ rest)) T m"
  using assms on_wire_CR [OF assms] self_delimiting_frame by (auto simp: on_wire_def fix_head_append)

lemma next_on_wire:
  assumes ok: "parser_ok (msgParser s)" and w: "on_wire (T, m) w"
  obtains r s' where
      "parseNextMessage (w @ rest) s = (Inr \<lparr>message = m, parseResult = r\<rparr>, m @ rest, s')"
    and "resultType r = PARSE_OK" and "msgType r = T" and "frame (length (w @ rest)) T m"
    and "erase_front (lastPosition r + 1) (m @ rest) = rest"
    and "parser_ok (msgParser s')" and "view s' = view s" and "newMsgEvent s' = newMsgEvent s"
  using next_frame [OF ok on_wire_frame [OF w]] on_wire_frame(3) [OF w] that by metis

context message_event
begin

lemma processAllMessages_frame:
  assumes ok: "parser_ok (msgParser s)" and us: "usable (newMsgEvent s)"
    and d: "d \<noteq> []" "fix_head d = m @ rest" "frame (length d) T m"
  obtains s' where "processAllMessages set_ev d s = processAllMessages set_ev rest s'"
    and "view s' = absorb (Message T m) (view s)" and "parser_ok (msgParser s')"
    and "usable (newMsgEvent s')"
    and "ready (newMsgEvent s) \<or> T \<noteq> MSG_ASYNC \<Longrightarrow> ready (newMsgEvent s')"
proof -
  obtain r s1 where
    parse: "parseNextMessage d s = (Inr \<lparr>message = m, parseResult = r\<rparr>, m @ rest, s1)"
    and r: "resultType r = PARSE_OK" "msgType r = T"
      "erase_front (lastPosition r + 1) (m @ rest) = rest"
    and s1: "parser_ok (msgParser s1)" "view s1 = view s" "newMsgEvent s1 = newMsgEvent s"
    by (rule next_frame [OF ok d])
  have "usable (newMsgEvent s1)" "frame (length d) (msgType r) m" using us s1 r d by simp_all
  from processMessage_absorbs [OF this] obtain s2 where
    s2: "processMessage set_ev \<lparr>message = m, parseResult = r\<rparr> s1 = (Inr (), s2)"
      "view s2 = absorb (Message T m) (view s1)" "msgParser s2 = msgParser s1"
      "usable (newMsgEvent s2)"
      "ready (newMsgEvent s1) \<or> is_response (Message T m) \<Longrightarrow> ready (newMsgEvent s2)"
    unfolding r(2) by blast
  have "processAllMessages set_ev d s = processAllMessages set_ev rest s2"
    using d(1) parse r s2(1)
    by (subst processAllMessages.simps) (simp add: Let_def del: append_is_Nil_conv)
  with s1 s2 that show thesis by simp
qed

lemma processAllMessages_message:
  assumes ok: "parser_ok (msgParser s)" and us: "usable (newMsgEvent s)"
    and w: "on_wire (T, m) w"
  obtains s' where "processAllMessages set_ev (w @ rest) s = processAllMessages set_ev rest s'"
    and "view s' = absorb (Message T m) (view s)" and "parser_ok (msgParser s')"
    and "usable (newMsgEvent s')"
    and "ready (newMsgEvent s) \<or> T \<noteq> MSG_ASYNC \<Longrightarrow> ready (newMsgEvent s')"
  by (rule processAllMessages_frame [OF ok us on_wire_frame [OF w]]) (rule that)

lemma processAllMessages_waits:
  assumes ok: "parser_ok (msgParser s)" and "q \<noteq> []" and "on_wire f (q @ u)" and "u \<noteq> []"
  obtains s' where "processAllMessages set_ev q s = (Inr (), fix_head q, s')"
    and "view s' = view s" and "parser_ok (msgParser s')" and "newMsgEvent s' = newMsgEvent s"
proof -
  have "self_delimiting (fst f) (fix_head q @ u)"
    using assms(2,3) by (simp add: on_wire_def fix_head_append)
  from parseData_waits [OF ok this assms(4)] obtain r p' where
    r: "parseData (msgParser s) (fix_head q) = Inr (r, p')" "resultType r = PARSE_NOT_COMPLETE"
    by blast
  with ok have "parser_ok p'" using parseData_keeps_ok by blast
  moreover have "processAllMessages set_ev q s =
      (Inr (), fix_head q, s\<lparr>msgParser := p'\<rparr>)"
    using r assms(2) by (subst processAllMessages.simps) (simp add: parseNextMessage_def Let_def)
  ultimately show thesis using that by simp
qed

lemma processAllMessages_stream:
  "list_all2 on_wire fs ws1 \<Longrightarrow> list_all2 on_wire gs ws2 \<Longrightarrow> begins q ws2 \<Longrightarrow>
   parser_ok (msgParser s) \<Longrightarrow> usable (newMsgEvent s) \<Longrightarrow>
   \<exists>s'. processAllMessages set_ev (concat ws1 @ q) s = (Inr (), fix_head q, s') \<and>
     view s' = fold absorb (map piece_of fs) (view s) \<and> parser_ok (msgParser s') \<and>
     usable (newMsgEvent s') \<and>
     (ready (newMsgEvent s) \<or> (\<exists>f \<in> set fs. fst f \<noteq> MSG_ASYNC) \<longrightarrow> ready (newMsgEvent s'))"
proof (induction fs ws1 arbitrary: s rule: list_all2_induct)
  case Nil
  show ?case
  proof (cases "q = []")
    case True
    with Nil show ?thesis
      by (intro exI [of _ s]) (simp add: processAllMessages.simps fix_head_def)
  next
    case False
    with Nil.prems(2) obtain w ws u where "ws2 = w # ws" "w = q @ u" "u \<noteq> []"
      by (auto simp: begins_def split: list.splits)
    with Nil.prems(1) obtain f where "on_wire f (q @ u)" "u \<noteq> []" by (auto simp: list_all2_Cons2)
    from processAllMessages_waits [OF Nil.prems(3) False this] obtain s' where
      "processAllMessages set_ev q s = (Inr (), fix_head q, s')" "view s' = view s"
      "parser_ok (msgParser s')" "newMsgEvent s' = newMsgEvent s" .
    with Nil.prems show ?thesis by (intro exI [of _ s']) simp
  qed
next
  case (Cons f fs w ws)
  obtain T m where f: "f = (T, m)" by (cases f)
  with Cons.hyps(1) have "on_wire (T, m) w" by simp
  from processAllMessages_message [OF Cons.prems(3,4) this, of "concat ws @ q"] obtain s1 where
    s1: "processAllMessages set_ev (w @ concat ws @ q) s = processAllMessages set_ev (concat ws @ q) s1"
      "view s1 = absorb (Message T m) (view s)" "parser_ok (msgParser s1)" "usable (newMsgEvent s1)"
      "ready (newMsgEvent s) \<or> T \<noteq> MSG_ASYNC \<Longrightarrow> ready (newMsgEvent s1)" by blast
  from Cons.IH [OF Cons.prems(1,2) s1(3,4)] obtain s' where
    "processAllMessages set_ev (concat ws @ q) s1 = (Inr (), fix_head q, s')"
    "view s' = fold absorb (map piece_of fs) (view s1)" "parser_ok (msgParser s')"
    "usable (newMsgEvent s')"
    "ready (newMsgEvent s1) \<or> (\<exists>f \<in> set fs. fst f \<noteq> MSG_ASYNC) \<longrightarrow> ready (newMsgEvent s')" by blast
  moreover from this s1(5) have "ready (newMsgEvent s) \<or> (\<exists>f \<in> set ((T, m) # fs). fst f \<noteq> MSG_ASYNC) \<longrightarrow>
      ready (newMsgEvent s')" by auto
  ultimately show ?case
    using s1(1,2) f by (intro exI [of _ s']) (simp add: piece_of_Pair del: absorb.simps)
qed

end

section \<open>Arriving in pieces\<close>

text \<open>
  A message of any kind that arrives alone: it is recognised by the length of the buffer, and no
  carriage return inside it starts the processing too early.
\<close>

definition alone :: "MessageType \<Rightarrow> ustring \<Rightarrow> bool" where
  "alone T m \<longleftrightarrow> frame (length m) T m \<and> CR \<notin> set (butlast m)"

lemma frame_last: "frame n T m \<Longrightarrow> m \<noteq> [] \<and> last m = CR"
  by (cases rule: frame.cases) (auto simp: crlf_def)

lemma CR_fix_head: "CR \<in> set (fix_head d) \<longleftrightarrow> CR \<in> set d"
  by (cases d) (auto simp: fix_head_def bracket_defs)

lemma alone_part:
  assumes "alone T m" and "fix_head (d @ coming) = m" and "d \<noteq> []"
  shows "CR \<in> set d \<longleftrightarrow> coming = []"
proof
  assume "CR \<in> set d"
  then have c: "CR \<in> set (fix_head d)" by (simp add: CR_fix_head)
  have m: "m = fix_head d @ coming" using assms(2,3) by (simp add: fix_head_append)
  show "coming = []"
  proof (rule ccontr)
    assume "coming \<noteq> []"
    then have "CR \<in> set (butlast m)" using c by (simp add: m butlast_append)
    with assms(1) show False by (simp add: alone_def)
  qed
next
  assume "coming = []"
  with assms(2) have "m = fix_head d" by simp
  with frame_last assms(1) have "CR \<in> set (fix_head d)" unfolding alone_def by (metis last_in_set)
  then show "CR \<in> set d" by (simp add: CR_fix_head)
qed

text \<open>
  The buffer and the bytes still to come, as a stream of the messages \<open>fs\<close>: no complete
  message is in the buffer. The messages are self-delimiting, or there is only one.
\<close>

definition awaits :: "(MessageType \<times> ustring) list \<Rightarrow> ustring \<Rightarrow> ustring \<Rightarrow> bool" where
  "awaits fs buf coming \<longleftrightarrow>
     (\<exists>ws. list_all2 on_wire fs ws \<and> buf @ coming = concat ws \<and> begins buf ws) \<or>
     (\<exists>T m. fs = [(T, m)] \<and> alone T m \<and> fix_head (buf @ coming) = m \<and> coming \<noteq> [])"

lemma awaits_cases:
  assumes "awaits fs buf coming"
  obtains ws where "list_all2 on_wire fs ws" and "buf @ coming = concat ws" and "begins buf ws"
  | T m where "fs = [(T, m)]" and "alone T m" and "fix_head (buf @ coming) = m" and "coming \<noteq> []"
  using assms unfolding awaits_def by blast

lemma awaits_alone: "alone T m \<Longrightarrow> fix_head w = m \<Longrightarrow> awaits [(T, m)] [] w"
  using frame_last [of "length m" T m] by (auto simp: awaits_def alone_def)

lemma awaits_start:
  assumes "list_all2 on_wire fs ws"
  shows "awaits fs [] (concat ws)"
proof -
  have "begins [] ws"
    using assms on_wire_CR by (cases ws) (auto simp: begins_def list_all2_Cons2)
  with assms show ?thesis unfolding awaits_def by auto
qed

lemma awaits_end: "awaits fs buf [] \<Longrightarrow> fs = [] \<and> buf = []"
proof -
  assume "awaits fs buf []"
  then obtain ws where ws: "list_all2 on_wire fs ws" "buf = concat ws" "begins buf ws"
    by (auto elim: awaits_cases)
  then have "ws = []" by (cases ws) (auto simp: begins_def)
  with ws show ?thesis by simp
qed

lemma awaits_split:
  assumes "list_all2 on_wire fs ws" and "(buf @ c) @ coming = concat ws"
  obtains fs1 fs2 ws1 ws2 q where "fs = fs1 @ fs2" and "list_all2 on_wire fs1 ws1"
    and "list_all2 on_wire fs2 ws2" and "buf @ c = concat ws1 @ q" and "begins q ws2"
    and "q @ coming = concat ws2"
proof -
  note ws = assms
  from wires_nonempty [OF ws(1)] have "\<forall>w \<in> set ws. w \<noteq> []" .
  from stream_prefix [OF ws(2) this] obtain ws1 ws2 q where
    q: "ws = ws1 @ ws2" "buf @ c = concat ws1 @ q" "begins q ws2" by blast
  from ws(1) q(1) obtain fs1 fs2 where "fs = fs1 @ fs2" "list_all2 on_wire fs1 ws1"
    "list_all2 on_wire fs2 ws2" by (auto simp: list_all2_append2)
  moreover have "q @ coming = concat ws2" using ws(2) q(1,2) by simp
  ultimately show thesis using q that by blast
qed

lemma awaits_fixed:
  assumes "list_all2 on_wire fs ws" and "begins q ws" and "q @ coming = concat ws"
  shows "awaits fs (fix_head q) coming"
proof (cases ws)
  case Nil
  with assms show ?thesis by (auto simp: awaits_def begins_def fix_head_def)
next
  case (Cons w ws')
  show ?thesis
  proof (cases "q = []")
    case True
    then have "fix_head q = q" by (simp add: fix_head_def)
    with assms show ?thesis by (auto simp: awaits_def)
  next
    case False
    from Cons assms obtain f fs' u where fs: "fs = f # fs'" "on_wire f w" "list_all2 on_wire fs' ws'"
      and u: "w = q @ u" "u \<noteq> []" by (auto simp: list_all2_Cons2 begins_def)
    have w: "fix_head w = fix_head q @ u" using u False by (simp add: fix_head_append)
    have "list_all2 on_wire fs (fix_head w # ws')" using fs on_wire_fix_head by simp
    moreover have "fix_head q @ coming = concat (fix_head w # ws')"
      using assms(3) Cons w u by simp
    moreover have "begins (fix_head q) (fix_head w # ws')" using w u by (simp add: begins_def)
    ultimately show ?thesis unfolding awaits_def by blast
  qed
qed

lemma no_CR_no_message:
  assumes "list_all2 on_wire fs ws" and "concat ws @ q = d" and "CR \<notin> set d"
  shows "fs = [] \<and> ws = []"
  using assms on_wire_CR by (cases fs; cases ws) auto

text \<open>Bytes that complete no message only make the buffer longer.\<close>

lemma awaits_no_CR:
  assumes "awaits fs buf (c @ coming)" and "CR \<notin> set (buf @ c)"
  shows "awaits fs (buf @ c) coming"
  using assms(1)
proof (cases rule: awaits_cases)
  case (1 ws)
  from awaits_split [OF 1(1)] 1(2) obtain fs1 fs2 ws1 ws2 q where
    q: "fs = fs1 @ fs2" "list_all2 on_wire fs1 ws1" "list_all2 on_wire fs2 ws2"
      "buf @ c = concat ws1 @ q" "begins q ws2" "q @ coming = concat ws2" by (metis append_assoc)
  with no_CR_no_message [OF q(2) q(4) [symmetric] assms(2)] show ?thesis
    by (auto simp: awaits_def)
next
  case (2 T m)
  have "coming \<noteq> []"
  proof (cases "buf @ c = []")
    case False
    from alone_part [OF 2(2) _ False, of coming] 2(3) assms(2) show ?thesis by simp
  qed (use 2(4) in simp)
  with 2 show ?thesis by (simp add: awaits_def)
qed

lemma on_wire_last: "on_wire f w \<Longrightarrow> last w = CR"
proof -
  assume w: "on_wire f w"
  then have "fix_head w \<noteq> []" "last (fix_head w) = CR"
    using self_delimiting_last by (auto simp: on_wire_def)
  then show ?thesis
    using last_fix_head [of w] by (auto simp: bracket_defs split: if_splits)
qed

lemma awaits_byte:
  assumes "awaits fs buf (b # coming)" and "b \<noteq> CR"
  shows "awaits fs (buf @ [b]) coming"
  using assms(1)
proof (cases rule: awaits_cases)
  case (2 T m)
  have "coming \<noteq> []"
  proof
    assume "coming = []"
    with 2(3) have m: "m = fix_head (buf @ [b])" by simp
    then have "last m = last (buf @ [b]) \<or> buf @ [b] = [GT]" using last_fix_head [of "buf @ [b]"] by auto
    moreover have "last m = CR" using 2(2) frame_last by (auto simp: alone_def)
    ultimately show False using assms(2) m by (auto simp: fix_head_def bracket_defs)
  qed
  with 2 show ?thesis by (simp add: awaits_def)
next
  case ws: (1 ws)
  from ws(2) have "ws \<noteq> []" by auto
  then obtain w ws' u where w: "ws = w # ws'" "w = buf @ u" "u \<noteq> []"
    using ws(3) by (auto simp: begins_def split: list.splits)
  with ws(2) obtain u' where u: "u = b # u'" by (cases u) auto
  have "last w = CR" using ws(1) w(1) on_wire_last by (auto simp: list_all2_Cons2)
  with w(2) u assms(2) have "u' \<noteq> []" by (cases u') auto
  with ws w u have "begins (buf @ [b]) ws" "(buf @ [b]) @ coming = concat ws"
    by (simp_all add: begins_def)
  with ws(1) show ?thesis unfolding awaits_def by blast
qed

text \<open>A call of the loop consumes the complete messages and keeps the beginning of the next.\<close>

context message_event
begin

lemma processAllMessages_awaits:
  assumes "awaits fs buf (c @ coming)" and "parser_ok (msgParser s)" and "usable (newMsgEvent s)"
    and CR: "buf @ c = [] \<or> CR \<in> set (buf @ c)"
  shows "\<exists>fs1 fs2 buf' s'. processAllMessages set_ev (buf @ c) s = (Inr (), buf', s') \<and>
    fs = fs1 @ fs2 \<and> awaits fs2 buf' coming \<and> length buf' \<le> length (buf @ c) \<and>
    (last (buf @ c) = CR \<longrightarrow> buf' = [] \<or> last buf' = CR) \<and>
    view s' = fold absorb (map piece_of fs1) (view s) \<and> parser_ok (msgParser s') \<and>
    usable (newMsgEvent s') \<and>
    (ready (newMsgEvent s) \<or> (\<exists>f \<in> set fs1. fst f \<noteq> MSG_ASYNC) \<longrightarrow> ready (newMsgEvent s'))"
  using assms(1)
proof (cases rule: awaits_cases)
  case (2 T m)
  show ?thesis
  proof (cases "buf @ c = []")
    case True
    with assms 2 show ?thesis
      by (intro exI [of _ "[]"] exI [of _ fs] exI [of _ "[]"] exI [of _ s]) (simp add: processAllMessages.simps)
  next
    case False
    with CR alone_part [OF 2(2) _ False, of coming] 2(3) have coming: "coming = []" by auto
    with 2 False have d: "fix_head (buf @ c) = m @ []" "frame (length (buf @ c)) T m"
      by (auto simp: alone_def)
    from processAllMessages_frame [OF assms(2,3) False d] obtain s' where
      "processAllMessages set_ev (buf @ c) s = processAllMessages set_ev [] s'"
      "view s' = absorb (Message T m) (view s)" "parser_ok (msgParser s')" "usable (newMsgEvent s')"
      "ready (newMsgEvent s) \<or> T \<noteq> MSG_ASYNC \<Longrightarrow> ready (newMsgEvent s')" by blast
    with awaits_start [of "[]" "[]"] coming 2(1) show ?thesis
      by (intro exI [of _ fs] exI [of _ "[]"] exI [of _ "[]"] exI [of _ s'])
        (auto simp: processAllMessages.simps piece_of_Pair)
  qed
next
  case (1 ws)
  from awaits_split [OF 1(1)] 1(2) obtain fs1 fs2 ws1 ws2 q where
    q: "fs = fs1 @ fs2" "list_all2 on_wire fs1 ws1" "list_all2 on_wire fs2 ws2"
      "buf @ c = concat ws1 @ q" "begins q ws2" "q @ coming = concat ws2" by (metis append_assoc)
  from processAllMessages_stream [OF q(2,3,5) assms(2,3)] obtain s' where
    s': "processAllMessages set_ev (buf @ c) s = (Inr (), fix_head q, s')"
      "view s' = fold absorb (map piece_of fs1) (view s)" "parser_ok (msgParser s')"
      "usable (newMsgEvent s')"
      "ready (newMsgEvent s) \<or> (\<exists>f \<in> set fs1. fst f \<noteq> MSG_ASYNC) \<longrightarrow> ready (newMsgEvent s')"
    unfolding q(4) by blast
  have "length (fix_head q) \<le> length (buf @ c)" by (simp only: q(4)) simp
  moreover have "fix_head q = [] \<or> last (fix_head q) = CR" if "last (buf @ c) = CR"
  proof (cases "q = []")
    case False
    with that have "last q = CR" by (simp add: q(4))
    with last_fix_head [OF False] show ?thesis by (auto simp: bracket_defs)
  qed (simp add: fix_head_def)
  ultimately show ?thesis using q(1) s' awaits_fixed [OF q(3,5,6)] by blast
qed

end

section \<open>The state of the reading thread\<close>

text \<open>
  The thread: still reading with the bytes of its buffer, returned with a value, or ended by
  an exception that its function does not catch, which terminates the program.
\<close>

datatype reader_status = Reading ustring | Returned int | Terminated thrown

end
