(* ===== verification/Commands.thy ===== *)
theory Commands
  imports Impl_State
begin

text \<open>
  From a command to the bytes on the wire (\<open>src/CDCImpl.cpp\<close>): \<open>constructCommand\<close>,
  \<open>commandToBuffer\<close> with its header look-up, size check and reallocation of the transmit
  buffer, and the checks of upload and download targets. The specification \<open>wire_of\<close> is the
  format of the commands; the lemmas show that the buffer handed to the port holds it, inside
  its bounds.
\<close>

unbundle bit_operations_syntax

section \<open>Definitions\<close>

definition c_str :: "string \<Rightarrow> string" where
  "c_str s = takeWhile (\<lambda>c. c \<noteq> CHR 0x00) s"

definition constructCommand :: "MessageType \<Rightarrow> ustring \<Rightarrow> Command" where
  "constructCommand t d = \<lparr>cmd_msgType = t, cmd_data = d\<rparr>"

text \<open>\<open>messageHeaders[t]\<close> inserts an empty header when there is none.\<close>

definition header_at :: "MessageType \<Rightarrow> 'e impl \<Rightarrow> string \<times> 'e impl" where
  "header_at t s =
     (case messageHeaders s t of
        Some h \<Rightarrow> (h, s)
      | None \<Rightarrow> ([], s\<lparr>messageHeaders := (messageHeaders s)(t \<mapsto> [])\<rparr>))"

text \<open>
  \<open>BuffCommand\<close>: its pointer is always the transmit buffer of the object, so the length is
  all there is to it. The bytes of the buffer that were never written are \<open>None\<close>.
\<close>

record BuffCommand =
  buff_len :: nat

definition UCHAR_MAX :: nat where "UCHAR_MAX = 255"

definition store_transmit :: "ustring \<Rightarrow> 'e impl \<Rightarrow> 'e impl" where
  "store_transmit tmpStr s =
     (let sz = length tmpStr;
          s = (if m_transmitBufferLen s < sz
               then s\<lparr>m_transmitBuffer := replicate sz None, m_transmitBufferLen := sz\<rparr> else s)
      in s\<lparr>m_transmitBuffer := map Some tmpStr @ drop sz (m_transmitBuffer s)\<rparr>)"

definition commandToBuffer :: "Command \<Rightarrow> 'e impl \<Rightarrow> (thrown + BuffCommand) \<times> 'e impl" where
  "commandToBuffer cmd s =
     (let tmpStr = uchar_str ''>'';
          (tmpStr, s) =
            (if cmd_msgType cmd \<noteq> MSG_TEST
             then (case header_at (cmd_msgType cmd) s of
                     (h, s) \<Rightarrow> (tmpStr @ uchar_str (c_str h), s))
             else (tmpStr, s))
      in
        if cmd_msgType cmd = MSG_DATA_SEND \<and> length (cmd_data cmd) > UCHAR_MAX then
          (Inl (THROW_EXCEPT CDCSendException ''CDCImpl.cpp'' 524 ''Data size too large''), s)
        else
          (let tmpStr =
             (if cmd_msgType cmd = MSG_DATA_SEND
              then tmpStr @ [of_nat (length (cmd_data cmd))] @ uchar_str '':'' @ cmd_data cmd
              else tmpStr)
           in
             if (cmd_msgType cmd = MSG_UPLOAD_DOWNLOAD \<or> cmd_msgType cmd = MSG_DOWNLOAD_DATA) \<and>
                length (cmd_data cmd) > UCHAR_MAX then
               (Inl (THROW_EXCEPT CDCSendException ''CDCImpl.cpp'' 545 ''Data size too large''), s)
             else
               (let tmpStr =
                  (if cmd_msgType cmd = MSG_UPLOAD_DOWNLOAD \<or>
                      cmd_msgType cmd = MSG_DOWNLOAD_DATA
                   then tmpStr @ cmd_data cmd else tmpStr);
                    tmpStr = tmpStr @ [CR]
                in (Inr \<lparr>buff_len = length tmpStr\<rparr>, store_transmit tmpStr s))))"

text \<open>The bytes a writer reads through \<open>BuffCommand\<close>.\<close>

definition transmitted :: "BuffCommand \<Rightarrow> 'e impl \<Rightarrow> byte option list" where
  "transmitted bc s = take (buff_len bc) (m_transmitBuffer s)"

text \<open>
  The checks of the target. The number is streamed as an \<open>unsigned char\<close>, so it appears in
  the text as the character itself, and the words for the two operations are swapped.
\<close>

definition verifyUpload :: "byte \<Rightarrow> ustring \<Rightarrow> thrown + unit" where
  "verifyUpload target data =
     (if target AND 0x80 = 0
      then Inl (THROW_EXCEPT CDCSendException ''CDCImpl.cpp'' 147
             (''Download target '' @ [char_of (unat target)] @
              '' is not valid target for upload operation!''))
      else Inr ())"

definition verifyDownload :: "byte \<Rightarrow> thrown + unit" where
  "verifyDownload target =
     (if target AND 0x80 \<noteq> 0
      then Inl (THROW_EXCEPT CDCSendException ''CDCImpl.cpp'' 157
             (''Upload target '' @ [char_of (unat target)] @
              '' is not valid target for download operation!''))
      else Inr ())"

section \<open>The format of the commands\<close>

fun header :: "MessageType \<Rightarrow> string" where
  "header MSG_ERROR = ''''"
| "header MSG_TEST = ''''"
| "header MSG_RES_USB = ''R''"
| "header MSG_RES_TR = ''RT''"
| "header MSG_USB_INFO = ''I''"
| "header MSG_TR_INFO = ''IT''"
| "header MSG_USB_CONN = ''B''"
| "header MSG_SPI_STAT = ''S''"
| "header MSG_DATA_SEND = ''DS''"
| "header MSG_SWITCH = ''U''"
| "header MSG_ASYNC = ''DR''"
| "header MSG_MODE_NORMAL = ''PT''"
| "header MSG_MODE_PROGRAM = ''PE''"
| "header MSG_UPLOAD_DOWNLOAD = ''PM''"
| "header MSG_DOWNLOAD_DATA = ''PM''"

definition payload :: "Command \<Rightarrow> ustring" where
  "payload c =
     (if cmd_msgType c = MSG_DATA_SEND
      then of_nat (length (cmd_data c)) # 58 # cmd_data c
      else if cmd_msgType c \<in> {MSG_UPLOAD_DOWNLOAD, MSG_DOWNLOAD_DATA} then cmd_data c
      else [])"

definition wire_of :: "Command \<Rightarrow> ustring" where
  "wire_of c = 62 # uchar_str (header (cmd_msgType c)) @ payload c @ [CR]"

definition carries_data :: "MessageType \<Rightarrow> bool" where
  "carries_data t \<longleftrightarrow> t \<in> {MSG_DATA_SEND, MSG_UPLOAD_DOWNLOAD, MSG_DOWNLOAD_DATA}"

definition too_large :: "Command \<Rightarrow> bool" where
  "too_large c \<longleftrightarrow> carries_data (cmd_msgType c) \<and> length (cmd_data c) > 255"

text \<open>The state the constructor establishes and the command functions keep.\<close>

definition headers_ok :: "'e impl \<Rightarrow> bool" where
  "headers_ok s \<longleftrightarrow>
     (\<forall>t. t \<noteq> MSG_ERROR \<and> t \<noteq> MSG_TEST \<longrightarrow> messageHeaders s t = Some (header t))"

definition transmit_ok :: "'e impl \<Rightarrow> bool" where
  "transmit_ok s \<longleftrightarrow> length (m_transmitBuffer s) = m_transmitBufferLen s"

lemma headers_ok_init:
  assumes "messageHeaders s = Map.empty"
  shows "headers_ok (initMessageHeaders s)"
proof -
  have "messageHeaders (initMessageHeaders s) t = Some (header t)"
    if "t \<noteq> MSG_ERROR" "t \<noteq> MSG_TEST" for t
    using that headers_init [OF assms, of t] by (cases t) simp_all
  then show ?thesis by (simp add: headers_ok_def)
qed

section \<open>Laws\<close>

lemma c_str_header [simp]: "c_str (header t) = header t"
  by (cases t) (simp_all add: c_str_def)

lemma store_transmit_simps [simp]:
  "transmit_ok s \<Longrightarrow> transmit_ok (store_transmit d s)"
  "length d \<le> m_transmitBufferLen (store_transmit d s)"
  "take (length d) (m_transmitBuffer (store_transmit d s)) = map Some d"
  "messageHeaders (store_transmit d s) = messageHeaders s"
  by (auto simp: store_transmit_def transmit_ok_def Let_def)

lemma store_transmit_fields [simp]:
  "newMsgEvent (store_transmit d s) = newMsgEvent s"
  "readEndEvent (store_transmit d s) = readEndEvent s"
  "lastResponse (store_transmit d s) = lastResponse s"
  "msgParser (store_transmit d s) = msgParser s"
  "receptionStopped (store_transmit d s) = receptionStopped s"
  "asyncListener (store_transmit d s) = asyncListener s"
  "listenerCalls (store_transmit d s) = listenerCalls s"
  "lastReceptionError (store_transmit d s) = lastReceptionError s"
  "portOutput (store_transmit d s) = portOutput s"
  by (simp_all add: store_transmit_def Let_def)

lemma header_at_ok:
  "headers_ok s \<Longrightarrow> t \<noteq> MSG_ERROR \<Longrightarrow> t \<noteq> MSG_TEST \<Longrightarrow> header_at t s = (header t, s)"
  by (simp add: headers_ok_def header_at_def)

text \<open>With the headers in place \<open>commandToBuffer\<close> is a size check and the format.\<close>

lemma commandToBuffer_eq:
  assumes "headers_ok s" and "cmd_msgType c \<noteq> MSG_ERROR"
  shows "commandToBuffer c s =
    (if too_large c
     then (Inl (THROW_EXCEPT CDCSendException ''CDCImpl.cpp''
       (if cmd_msgType c = MSG_DATA_SEND then 524 else 545) ''Data size too large''), s)
     else (Inr \<lparr>buff_len = length (wire_of c)\<rparr>, store_transmit (wire_of c) s))"
proof -
  have h: "header_at (cmd_msgType c) s = (header (cmd_msgType c), s)" if "cmd_msgType c \<noteq> MSG_TEST"
    using header_at_ok [OF assms(1,2) that] .
  show ?thesis
    by (auto simp: commandToBuffer_def Let_def h too_large_def carries_data_def UCHAR_MAX_def
        wire_of_def payload_def)
qed

text \<open>The format can be read back.\<close>

lemma wire_of_inject:
  assumes "wire_of c = wire_of c'"
    and "cmd_msgType c \<notin> {MSG_ERROR, MSG_DOWNLOAD_DATA}"
    and "cmd_msgType c' \<notin> {MSG_ERROR, MSG_DOWNLOAD_DATA}"
    and "\<not> carries_data (cmd_msgType c) \<Longrightarrow> cmd_data c = []"
    and "\<not> carries_data (cmd_msgType c') \<Longrightarrow> cmd_data c' = []"
  shows "c = c'"
proof -
  have "cmd_msgType c = cmd_msgType c' \<and> cmd_data c = cmd_data c'"
    using assms
    by (cases "cmd_msgType c"; cases "cmd_msgType c'")
      (simp_all add: wire_of_def payload_def carries_data_def)
  then show ?thesis by simp
qed

section \<open>A fresh object\<close>

text \<open>
  An object as the constructor leaves it before the threads start: what the witnesses evaluate.
\<close>

definition fresh_object :: "string \<Rightarrow> 'e \<Rightarrow> 'e impl" where
  "fresh_object portName ev =
     initLastResponse (initMessageHeaders
       (blank_object portName ev (new_CDCMessageParserPrivate (0, 0, 0)) False
          \<lparr>msgType = MSG_ERROR, resultType = PARSE_OK, lastPosition = 0\<rparr>))"

lemma fresh_object_ok [simp]:
  "headers_ok (fresh_object p ev)" "transmit_ok (fresh_object p ev)"
  "portOutput (fresh_object p ev) = []" "parser_ok (msgParser (fresh_object p ev))"
  "newMsgEvent (fresh_object p ev) = ev" "asyncListener (fresh_object p ev) = None"
  "readStartEvent (fresh_object p ev) = ev" "readEndEvent (fresh_object p ev) = ev" "receptionStopped (fresh_object p ev) = False"
  "lastResponse (fresh_object p ev) =
     \<lparr>message = [], parseResult = \<lparr>msgType = MSG_ERROR, resultType = PARSE_NOT_COMPLETE, lastPosition = 0\<rparr>\<rparr>"
proof -
  have "headers_ok (initMessageHeaders
      (blank_object p ev (new_CDCMessageParserPrivate (0, 0, 0)) False
        \<lparr>msgType = MSG_ERROR, resultType = PARSE_OK, lastPosition = 0\<rparr>))"
    by (rule headers_ok_init) (simp add: blank_object_def)
  then show "headers_ok (fresh_object p ev)"
    by (simp add: fresh_object_def initLastResponse_def headers_ok_def)
  have "parser_ok (new_CDCMessageParserPrivate (0, 0, 0))" by (rule new_parser_ok) simp
  then show "parser_ok (msgParser (fresh_object p ev))"
    by (simp add: fresh_object_def initLastResponse_def initMessageHeaders_def blank_object_def)
qed (simp_all add: fresh_object_def initLastResponse_def initMessageHeaders_def transmit_ok_def
  blank_object_def)

section \<open>Properties\<close>

text \<open>
  C16. What is handed to the port. For every command but the error type, \<open>commandToBuffer\<close>
  refuses exactly the data-carrying commands of more than 255 bytes, with a
  \<open>CDCSendException\<close> and the object unchanged; otherwise the transmit buffer, reallocated
  when it is too small, holds the command in its wire format within its bounds: the type's
  header behind \<open>>\<close>, for data sending the length byte and a colon, the data, a carriage
  return. The bookkeeping of the buffer stays right.
\<close>

theorem command_buffered:
  assumes "headers_ok s" and "transmit_ok s" and "cmd_msgType c \<noteq> MSG_ERROR"
  shows "case commandToBuffer c s of
      (Inl e, s') \<Rightarrow> too_large c \<and> is_thrown CDCSendException e \<and> s' = s
    | (Inr bc, s') \<Rightarrow> \<not> too_large c \<and> transmitted bc s' = map Some (wire_of c) \<and>
        buff_len bc \<le> m_transmitBufferLen s' \<and> transmit_ok s' \<and> headers_ok s'"
  using assms by (simp add: commandToBuffer_eq transmitted_def headers_ok_def)

theorem command_buffered_witness:
  "\<exists>s :: linux_event impl. case commandToBuffer (constructCommand MSG_DATA_SEND [7, 13]) s of
      (Inl e, s') \<Rightarrow> False
    | (Inr bc, s') \<Rightarrow> transmitted bc s' = map Some [62, 68, 83, 2, 58, 7, 13, 13]"
proof -
  define s0 :: "linux_event impl" where
    "s0 = (blank_object ''/dev/ttyACM0'' Closed (new_CDCMessageParserPrivate (0, 0, 0)) False
        \<lparr>msgType = MSG_ERROR, resultType = PARSE_OK, lastPosition = 0\<rparr>)
        \<lparr>m_transmitBuffer := [None, None], m_transmitBufferLen := 2\<rparr>"
  define s where "s = initMessageHeaders s0"
  have "headers_ok s" unfolding s_def by (rule headers_ok_init) (simp add: s0_def blank_object_def)
  moreover have "transmit_ok s" by (simp add: s_def s0_def transmit_ok_def initMessageHeaders_def)
  ultimately have "case commandToBuffer (constructCommand MSG_DATA_SEND [7, 13]) s of
      (Inl e, s') \<Rightarrow> too_large (constructCommand MSG_DATA_SEND [7, 13]) \<and>
        is_thrown CDCSendException e \<and> s' = s
    | (Inr bc, s') \<Rightarrow> \<not> too_large (constructCommand MSG_DATA_SEND [7, 13]) \<and>
        transmitted bc s' = map Some (wire_of (constructCommand MSG_DATA_SEND [7, 13])) \<and>
        buff_len bc \<le> m_transmitBufferLen s' \<and> transmit_ok s' \<and> headers_ok s'"
    by (rule command_buffered) (simp add: constructCommand_def)
  then show ?thesis
    by (intro exI [of _ s])
      (simp add: constructCommand_def too_large_def wire_of_def payload_def split: prod.splits sum.splits)
qed

text \<open>
  The device can tell the commands apart: two commands that the interface constructs and
  that have the same bytes on the wire are the same command, data included.
\<close>

lemma commands_distinguishable:
  assumes "wire_of (constructCommand t d) = wire_of (constructCommand t' d')"
    and "t \<notin> {MSG_ERROR, MSG_DOWNLOAD_DATA}" and "t' \<notin> {MSG_ERROR, MSG_DOWNLOAD_DATA}"
    and "\<not> carries_data t \<Longrightarrow> d = []" and "\<not> carries_data t' \<Longrightarrow> d' = []"
  shows "t = t' \<and> d = d'"
  using wire_of_inject [OF assms(1)] assms(2-5) by (simp add: constructCommand_def)

end
