(* ===== verification/Api.thy ===== *)
theory Api
  imports Framing_Stream Commands
begin

text \<open>
  The public interface \<open>CDCImpl\<close> and the command-response cycle behind it
  (\<open>src/CDCImpl.cpp\<close>). What the platform contributes is a record of functions: sending a
  command, waiting for an event, and what the reading thread does to the object meanwhile: while
  the client waits, after it has woken up and before it looks at the type of the response, and
  after that, before the response is decoded. A method returns its outcome and the object. The
  methods read \<open>lastResponse\<close> without a lock; interleavings that are finer than whole rounds of
  the reading thread are the subject of theory \<open>Session\<close>.
\<close>

unbundle bit_operations_syntax

section \<open>The platform\<close>

record 'e platform =
  send_of :: "Command \<Rightarrow> 'e impl \<Rightarrow> (thrown + unit) \<times> 'e impl"
  wait_of :: "'e \<Rightarrow> thrown + 'e"
  reader_of :: "'e impl \<Rightarrow> 'e impl"
  woken_of :: "'e impl \<Rightarrow> 'e impl"
  checked_of :: "'e impl \<Rightarrow> 'e impl"

definition andThen ::
  "(thrown + 'a) \<times> 's \<Rightarrow> ('a \<Rightarrow> 's \<Rightarrow> (thrown + 'b) \<times> 's) \<Rightarrow> (thrown + 'b) \<times> 's" where
  "andThen r f = (case r of (Inl e, s) \<Rightarrow> (Inl e, s) | (Inr x, s) \<Rightarrow> f x s)"

lemma andThen_simps [simp]: "andThen (Inl e, s) f = (Inl e, s)" "andThen (Inr x, s) f = f x s"
  by (simp_all add: andThen_def)

section \<open>The command-response cycle\<close>

text \<open>The exception to the rule that a response has the type of its command.\<close>

definition download_pair :: "Command \<Rightarrow> MessageType \<Rightarrow> bool" where
  "download_pair cmd t \<longleftrightarrow>
     cmd_msgType cmd = MSG_UPLOAD_DOWNLOAD \<and> t = MSG_DOWNLOAD_DATA \<and>
     (case cmd_data cmd of [] \<Rightarrow> 0 | b # _ \<Rightarrow> b) AND 0x80 = 0"

definition checkResponse :: "Command \<Rightarrow> 'e impl \<Rightarrow> (thrown + unit) \<times> 'e impl" where
  "checkResponse cmd s =
     (if msgType (parseResult (lastResponse s)) \<noteq> cmd_msgType cmd then
        (if \<not> download_pair cmd (msgType (parseResult (lastResponse s)))
         then (Inl (THROW_EXCEPT CDCReceiveException ''CDCImpl.cpp'' 601
                 ''Response has bad type.''), s)
         else (Inr (), s))
      else (Inr (), s))"

definition waitForResponse :: "('e \<Rightarrow> thrown + 'e) \<Rightarrow> 'e impl \<Rightarrow> (thrown + unit) \<times> 'e impl" where
  "waitForResponse wait s =
     (case wait (newMsgEvent s) of
        Inl e \<Rightarrow> (Inl e, s)
      | Inr ev \<Rightarrow> (Inr (), s\<lparr>newMsgEvent := ev\<rparr>))"

definition processCommand ::
  "'e platform \<Rightarrow> Command \<Rightarrow> 'e impl \<Rightarrow> (thrown + unit) \<times> 'e impl" where
  "processCommand P cmd s =
     (if getReceptionStopped s
      then (Inl (THROW_EXCEPT CDCSendException ''CDCImpl.cpp'' 589
              ''Reading is actually stopped''), s)
      else
        andThen (send_of P cmd s) (\<lambda>_ s.
        andThen (waitForResponse (wait_of P) (reader_of P s)) (\<lambda>_ s.
        andThen (checkResponse cmd (woken_of P s)) (\<lambda>_ s.
        (Inr (), checked_of P s)))))"

text \<open>A command without data whose response carries nothing.\<close>

definition decode :: "(ustring \<Rightarrow> thrown + 'a) \<Rightarrow> 'e impl \<Rightarrow> (thrown + 'a) \<times> 'e impl" where
  "decode f s = (f (message (lastResponse s)), s)"

section \<open>The methods of CDCImpl\<close>

definition test :: "'e platform \<Rightarrow> 'e impl \<Rightarrow> (thrown + bool) \<times> 'e impl" where
  "test P s =
     (let cmd = constructCommand MSG_TEST [] in
      andThen (processCommand P cmd s) (\<lambda>_ s. (Inr True, s)))"

definition resetUSBDevice :: "'e platform \<Rightarrow> 'e impl \<Rightarrow> (thrown + unit) \<times> 'e impl" where
  "resetUSBDevice P s = (let cmd = constructCommand MSG_RES_USB [] in processCommand P cmd s)"

definition resetTRModule :: "'e platform \<Rightarrow> 'e impl \<Rightarrow> (thrown + unit) \<times> 'e impl" where
  "resetTRModule P s = (let cmd = constructCommand MSG_RES_TR [] in processCommand P cmd s)"

definition indicateConnectivity :: "'e platform \<Rightarrow> 'e impl \<Rightarrow> (thrown + unit) \<times> 'e impl" where
  "indicateConnectivity P s =
     (let cmd = constructCommand MSG_USB_CONN [] in processCommand P cmd s)"

definition getUSBDeviceInfo :: "'e platform \<Rightarrow> 'e impl \<Rightarrow> (thrown + DeviceInfo) \<times> 'e impl" where
  "getUSBDeviceInfo P s =
     (let cmd = constructCommand MSG_USB_INFO [] in
      andThen (processCommand P cmd s) (\<lambda>_. decode getParsedDeviceInfo))"

definition getTRModuleInfo ::
  "'e platform \<Rightarrow> 'e impl \<Rightarrow> (thrown + ModuleInfo option) \<times> 'e impl" where
  "getTRModuleInfo P s =
     (let cmd = constructCommand MSG_TR_INFO [] in
      andThen (processCommand P cmd s) (\<lambda>_. decode getParsedModuleInfo))"

definition getStatus :: "'e platform \<Rightarrow> 'e impl \<Rightarrow> (thrown + SPIStatus) \<times> 'e impl" where
  "getStatus P s =
     (let cmd = constructCommand MSG_SPI_STAT [] in
      andThen (processCommand P cmd s) (\<lambda>_ s. decode (getParsedSPIStatus (msgParser s)) s))"

definition sendData :: "'e platform \<Rightarrow> ustring \<Rightarrow> 'e impl \<Rightarrow> (thrown + DSResponse) \<times> 'e impl" where
  "sendData P data s =
     (let cmd = constructCommand MSG_DATA_SEND data in
      andThen (processCommand P cmd s) (\<lambda>_. decode getParsedDSResponse))"

text \<open>
  The overloads on a pointer and a length copy the array first; \<open>mem\<close> is the readable memory
  from the pointer on, and reading beyond it is undefined.
\<close>

definition from_pointer :: "ustring \<Rightarrow> nat \<Rightarrow> thrown + ustring" where
  "from_pointer mem dlen = (if dlen \<le> length mem then Inr (take dlen mem) else Inl UndefinedBehaviour)"

definition sendData_ptr ::
  "'e platform \<Rightarrow> ustring \<Rightarrow> nat \<Rightarrow> 'e impl \<Rightarrow> (thrown + DSResponse) \<times> 'e impl" where
  "sendData_ptr P mem dlen s =
     (case from_pointer mem dlen of
        Inl e \<Rightarrow> (Inl e, s)
      | Inr dataStr \<Rightarrow>
          (let cmd = constructCommand MSG_DATA_SEND dataStr in
           andThen (processCommand P cmd s) (\<lambda>_. decode getParsedDSResponse)))"

definition switchToCustom :: "'e platform \<Rightarrow> 'e impl \<Rightarrow> (thrown + unit) \<times> 'e impl" where
  "switchToCustom P s = (let cmd = constructCommand MSG_SWITCH [] in processCommand P cmd s)"

definition enterProgrammingMode ::
  "'e platform \<Rightarrow> 'e impl \<Rightarrow> (thrown + PTEResponse) \<times> 'e impl" where
  "enterProgrammingMode P s =
     (let cmd = constructCommand MSG_MODE_PROGRAM [] in
      andThen (processCommand P cmd s) (\<lambda>_. decode getParsedPEResponse))"

definition terminateProgrammingMode ::
  "'e platform \<Rightarrow> 'e impl \<Rightarrow> (thrown + PTEResponse) \<times> 'e impl" where
  "terminateProgrammingMode P s =
     (let cmd = constructCommand MSG_MODE_NORMAL [] in
      andThen (processCommand P cmd s) (\<lambda>_. decode getParsedPTResponse))"

definition upload ::
  "'e platform \<Rightarrow> byte \<Rightarrow> ustring \<Rightarrow> 'e impl \<Rightarrow> (thrown + PMResponse) \<times> 'e impl" where
  "upload P target data s =
     (let dataStr = data in
      case verifyUpload target data of
        Inl e \<Rightarrow> (Inl e, s)
      | Inr _ \<Rightarrow>
          (let dataStr = target # dataStr;
               cmd = constructCommand MSG_UPLOAD_DOWNLOAD dataStr in
           andThen (processCommand P cmd s) (\<lambda>_. decode getParsedPMResponse)))"

text \<open>
  The pointer overload of \<open>upload\<close> hands the pointer to \<open>verifyUpload\<close>, which expects a
  string: the implicit conversion reads up to the first zero byte.
\<close>

definition string_of_pointer :: "ustring \<Rightarrow> thrown + ustring" where
  "string_of_pointer mem =
     (if 0 \<in> set mem then Inr (takeWhile (\<lambda>b. b \<noteq> 0) mem) else Inl UndefinedBehaviour)"

definition upload_ptr ::
  "'e platform \<Rightarrow> byte \<Rightarrow> ustring \<Rightarrow> nat \<Rightarrow> 'e impl \<Rightarrow> (thrown + PMResponse) \<times> 'e impl" where
  "upload_ptr P target mem dlen s =
     (case from_pointer mem dlen of
        Inl e \<Rightarrow> (Inl e, s)
      | Inr dataStr \<Rightarrow>
          (case bindE (string_of_pointer mem) (verifyUpload target) of
             Inl e \<Rightarrow> (Inl e, s)
           | Inr _ \<Rightarrow>
               (let dataStr = target # dataStr;
                    cmd = constructCommand MSG_UPLOAD_DOWNLOAD dataStr in
                andThen (processCommand P cmd s) (\<lambda>_. decode getParsedPMResponse))))"

text \<open>\<open>download\<close> into a string: the response and, for data, what is assigned to \<open>outputData\<close>.\<close>

definition download ::
  "'e platform \<Rightarrow> byte \<Rightarrow> ustring \<Rightarrow> ustring \<Rightarrow> 'e impl \<Rightarrow>
     (thrown + PMResponse \<times> ustring) \<times> 'e impl" where
  "download P target inputData outputData s =
     (case verifyDownload target of
        Inl e \<Rightarrow> (Inl e, s)
      | Inr _ \<Rightarrow>
          (let dataStr = target # inputData;
               cmd = constructCommand MSG_UPLOAD_DOWNLOAD dataStr in
           andThen (processCommand P cmd s) (\<lambda>_ s.
             if msgType (parseResult (lastResponse s)) = MSG_DOWNLOAD_DATA
             then andThen (decode getParsedPMData s) (\<lambda>dataStr s. (Inr (PM_OK, dataStr), s))
             else andThen (decode getParsedPMResponse s) (\<lambda>r s. (Inr (r, outputData), s)))))"

text \<open>
  \<open>download\<close> into a buffer of \<open>outputDlen\<close> bytes (\<open>out\<close> is its content): the response, the
  buffer afterwards and the number of bytes written, \<open>len\<close>. A copy beyond the array would be
  undefined.
\<close>

definition copy_n :: "ustring \<Rightarrow> ustring \<Rightarrow> thrown + ustring" where
  "copy_n d out = (if length d \<le> length out then Inr (d @ drop (length d) out)
                      else Inl UndefinedBehaviour)"

definition too_long :: "ustring \<Rightarrow> nat \<Rightarrow> thrown" where
  "too_long dataStr outputDlen =
     THROW_EXCEPT CDCReceiveException ''CDCImpl.cpp'' 196
       (''Receive of download message failed. Data are longer than available data buffer - ''
        @ show_nat (length dataStr) @ '' >= '' @ show_nat outputDlen @ ''!'')"

definition download_ptr ::
  "'e platform \<Rightarrow> byte \<Rightarrow> ustring \<Rightarrow> nat \<Rightarrow> ustring \<Rightarrow> nat \<Rightarrow> 'e impl \<Rightarrow>
     (thrown + PMResponse \<times> ustring \<times> nat) \<times> 'e impl" where
  "download_ptr P target mem inputDlen out outputDlen s =
     (case bindE (from_pointer mem inputDlen) (\<lambda>d. bindE (verifyDownload target) (\<lambda>_. Inr d)) of
        Inl e \<Rightarrow> (Inl e, s)
      | Inr dataStr \<Rightarrow>
          (let dataStr = target # dataStr;
               cmd = constructCommand MSG_UPLOAD_DOWNLOAD dataStr in
           andThen (processCommand P cmd s) (\<lambda>_ s.
             if msgType (parseResult (lastResponse s)) = MSG_DOWNLOAD_DATA
             then andThen (decode getParsedPMData s) (\<lambda>dataStr s.
               if length dataStr \<ge> outputDlen
               then (Inl (too_long dataStr outputDlen), s)
               else
                 (case copy_n dataStr out of
                    Inl e \<Rightarrow> (Inl e, s)
                  | Inr out \<Rightarrow> (Inr (PM_OK, out, length dataStr), s)))
             else andThen (decode getParsedPMResponse s) (\<lambda>r s. (Inr (r, out, 0), s)))))"

section \<open>Construction and destruction\<close>

text \<open>
  \<open>init\<close>: \<open>open_port\<close> is the outcome of \<open>openPort\<close>, \<open>create n\<close> that of the n-th
  \<open>createMyEvent\<close>, \<open>behind\<close> the words the parser's constructor reads behind an array
  (theory \<open>Parser_Tables\<close>); \<open>reader_of P\<close> is what the new thread does before and while the
  constructor waits for it.
\<close>

definition create_events :: "(nat \<Rightarrow> thrown + 'e) \<Rightarrow> 'e impl \<Rightarrow> (thrown + unit) \<times> 'e impl" where
  "create_events create s =
     (case create 0 of Inl e \<Rightarrow> (Inl e, s) | Inr ev \<Rightarrow>
     (let s = s\<lparr>newMsgEvent := ev\<rparr> in
      case create 1 of Inl e \<Rightarrow> (Inl e, s) | Inr ev \<Rightarrow>
     (let s = s\<lparr>readEndEvent := ev\<rparr> in
      case create 2 of Inl e \<Rightarrow> (Inl e, s) | Inr ev \<Rightarrow>
     (let s = s\<lparr>readStartEvent := ev\<rparr> in
      case create 3 of Inl e \<Rightarrow> (Inl e, s) | Inr ev \<Rightarrow>
      (Inr (), s\<lparr>readEndResponse := ev\<rparr>)))))"

text \<open>\<open>init\<close> up to the start of the reading thread, and from there on.\<close>

definition prepare ::
  "thrown + int \<Rightarrow> (nat \<Rightarrow> thrown + 'e) \<Rightarrow> ('e \<Rightarrow> thrown + 'e) \<Rightarrow>
     stack_words \<Rightarrow> 'e impl \<Rightarrow> (thrown + unit) \<times> 'e impl" where
  "prepare open_port create reset_ev behind s =
     (let s = s\<lparr>m_transmitBuffer := replicate 1024 None, m_transmitBufferLen := 1024\<rparr> in
      andThen (open_port, s) (\<lambda>handle s.
      (let s = s\<lparr>portHandle := Open handle\<rparr> in
      andThen (create_events create s) (\<lambda>_ s.
      (let s = initLastResponse (initMessageHeaders s);
           s = s\<lparr>receptionStopped := False\<rparr>;
           s = s\<lparr>msgParser := new_CDCMessageParserPrivate behind\<rparr> in
       case reset_ev (readStartEvent s) of
         Inl e \<Rightarrow> (Inl e, s)
       | Inr ev \<Rightarrow> (Inr (), s\<lparr>readStartEvent := ev\<rparr>))))))"

definition start_reader :: "'e platform \<Rightarrow> 'e impl \<Rightarrow> (thrown + unit) \<times> 'e impl" where
  "start_reader P s =
     (let s = reader_of P s in
      case wait_of P (readStartEvent s) of
        Inl e \<Rightarrow> (Inl e, s)
      | Inr ev \<Rightarrow> (Inr (), s\<lparr>readStartEvent := ev\<rparr>))"

definition init ::
  "'e platform \<Rightarrow> thrown + int \<Rightarrow> (nat \<Rightarrow> thrown + 'e) \<Rightarrow> ('e \<Rightarrow> thrown + 'e) \<Rightarrow>
     stack_words \<Rightarrow> 'e impl \<Rightarrow> (thrown + unit) \<times> 'e impl" where
  "init P open_port create reset_ev behind s =
     andThen (prepare open_port create reset_ev behind s) (\<lambda>_. start_reader P)"

text \<open>
  The constructor calls \<open>init\<close>. An exception that leaves it destroys the members of the object;
  the destructor of a \<open>std::thread\<close> that has been started and not joined ends the program.
\<close>

definition new_CDCImplPrivate ::
  "'e platform \<Rightarrow> thrown + int \<Rightarrow> (nat \<Rightarrow> thrown + 'e) \<Rightarrow> ('e \<Rightarrow> thrown + 'e) \<Rightarrow>
     stack_words \<Rightarrow> 'e impl \<Rightarrow> (thrown + unit) \<times> 'e impl" where
  "new_CDCImplPrivate P open_port create reset_ev behind s =
     (case init P open_port create reset_ev behind s of
        (Inl e, s') \<Rightarrow>
          (Inl (if isl (fst (prepare open_port create reset_ev behind s)) then e else NotReturned), s')
      | r \<Rightarrow> r)"

text \<open>
  The destructor: it signals the end, joins the thread, closes the events and then the port.
  \<open>joined\<close> is what the thread still does and how it ends; while it reads, \<open>join\<close> does not return.
  A destructor may not throw: an exception of \<open>setMyEvent\<close> ends the program.
\<close>

definition destroy ::
  "('e impl \<Rightarrow> reader_status \<times> 'e impl) \<Rightarrow> ('e \<Rightarrow> thrown + 'e) \<Rightarrow> ('e \<Rightarrow> 'e) \<Rightarrow>
     (int handle \<Rightarrow> int handle) \<Rightarrow> 'e impl \<Rightarrow> (thrown + unit) \<times> 'e impl" where
  "destroy joined set_ev destroy_ev close s =
     (case set_ev (readEndEvent s) of
        Inl e \<Rightarrow> (Inl NotReturned, s)
      | Inr ev \<Rightarrow>
          (case joined (s\<lparr>readEndEvent := ev\<rparr>) of
             (Returned n, s) \<Rightarrow>
               (let s = s\<lparr>readStartEvent := destroy_ev (readStartEvent s)\<rparr>;
                    s = s\<lparr>newMsgEvent := destroy_ev (newMsgEvent s)\<rparr>;
                    s = s\<lparr>readEndEvent := destroy_ev (readEndEvent s)\<rparr>;
                    s = s\<lparr>readEndResponse := destroy_ev (readEndResponse s)\<rparr>
                in (Inr (), s\<lparr>portHandle := close (portHandle s)\<rparr>))
           | (_, s) \<Rightarrow> (Inl NotReturned, s)))"

text \<open>The destructor returns, or the program does not go on behind it.\<close>

lemma destroy_outcomes:
  "fst (destroy joined set_ev destroy_ev close s) = Inr () \<or>
   fst (destroy joined set_ev destroy_ev close s) = Inl NotReturned"
  by (auto simp: destroy_def Let_def split: sum.split prod.split reader_status.split)

section \<open>The contract of a platform\<close>

text \<open>The exceptions the header \<open>CDCImpl.h\<close> documents for the methods.\<close>

definition documented :: "thrown \<Rightarrow> bool" where
  "documented e \<longleftrightarrow>
     is_thrown CDCSendException e \<or> is_thrown CDCReceiveException e \<or> e = NotReturned"

lemma documented_THROW [simp]:
  "documented (THROW_EXCEPT cls f l m) \<longleftrightarrow> cls = CDCSendException \<or> cls = CDCReceiveException"
  by (auto simp: documented_def THROW_EXCEPT_def)

lemma documented_too_long [simp]: "documented (too_long d n)"
  by (simp add: too_long_def documented_def)

definition last_shown :: "'e impl \<Rightarrow> MessageType \<times> ustring" where
  "last_shown s = (msgType (parseResult (lastResponse s)), message (lastResponse s))"

lemma last_shown_simps [simp]:
  "last_shown (s\<lparr>newMsgEvent := ev\<rparr>) = last_shown s" "shown (view s) = last_shown s"
  by (simp_all add: last_shown_def view_def)

definition answers :: "Command \<Rightarrow> MessageType \<Rightarrow> bool" where
  "answers c t \<longleftrightarrow> t = cmd_msgType c \<or> download_pair c t"

text \<open>
  The bytes that answer a command: one response, of the right type, among any number of
  asynchronous messages, all of them self-delimiting; or a response of any kind, also one that is
  recognised by the length of the buffer, that arrives alone. The third argument is the list of
  messages.
\<close>

inductive answered_by ::
  "Command \<Rightarrow> MessageType \<times> ustring \<Rightarrow> (MessageType \<times> ustring) list \<Rightarrow> ustring \<Rightarrow> bool" for c where
  answered_among: "answers c T \<Longrightarrow> T \<noteq> MSG_ASYNC \<Longrightarrow> list_all2 on_wire (before @ (T, m) # after) ws \<Longrightarrow>
    \<forall>f \<in> set (before @ after). fst f = MSG_ASYNC \<Longrightarrow>
    answered_by c (T, m) (before @ (T, m) # after) (concat ws)"
| answered_alone: "answers c T \<Longrightarrow> T \<noteq> MSG_ASYNC \<Longrightarrow> alone T m \<Longrightarrow> fix_head w = m \<Longrightarrow>
    answered_by c (T, m) [(T, m)] w"

lemma answered_awaits:
  assumes "answered_by c (T, m) fs w"
  obtains before after where "fs = before @ (T, m) # after" and "\<forall>f \<in> set (before @ after). fst f = MSG_ASYNC"
    and "awaits fs [] w" and "answers c T" and "T \<noteq> MSG_ASYNC"
  using assms
proof (cases rule: answered_by.cases)
  case (answered_among before after ws)
  with awaits_start [OF answered_among(5)] show thesis by (intro that [of before after]) auto
next
  case answered_alone
  with awaits_alone [of T m w] show thesis by (intro that [of "[]" "[]"]) auto
qed

lemma checkResponse_cases:
  "checkResponse c s = (r, s') \<Longrightarrow> s' = s \<and>
     (case r of Inl e \<Rightarrow> documented e | Inr _ \<Rightarrow> answers c (fst (last_shown s)))"
  by (auto simp: checkResponse_def answers_def last_shown_def split: if_splits)

text \<open>
  The object as both platforms keep it between calls; a method has a proper outcome when it
  returns a value or throws a documented exception, and the object is good afterwards.
\<close>

definition good_object :: "'a handle impl \<Rightarrow> bool" where
  "good_object s \<longleftrightarrow>
     headers_ok s \<and> transmit_ok s \<and> is_open (newMsgEvent s) \<and> is_open (readEndEvent s) \<and>
     parser_ok (msgParser s) \<and> response_ok (last_shown s)"

lemma good_fresh_object: "good_object (fresh_object portName (Open x))"
  by (simp add: good_object_def response_ok_def last_shown_def)

lemma good_object_event [simp]:
  "good_object s \<Longrightarrow> is_open ev \<Longrightarrow> good_object (s\<lparr>newMsgEvent := ev\<rparr>)"
  by (simp add: good_object_def headers_ok_def transmit_ok_def)

lemma good_object_listener:
  "good_object s \<Longrightarrow> good_object (registerAsyncMsgListener l s)"
  "good_object s \<Longrightarrow> good_object (unregisterAsyncMsgListener s)"
  by (simp_all add: good_object_def headers_ok_def transmit_ok_def last_shown_def cdc_defs)

definition proper :: "('e impl \<Rightarrow> bool) \<Rightarrow> (thrown + 'a) \<times> 'e impl \<Rightarrow> bool" where
  "proper good r \<longleftrightarrow> good (snd r) \<and> (case fst r of Inl e \<Rightarrow> documented e | Inr _ \<Rightarrow> True)"

lemma properI:
  "(\<And>r s'. x = (r, s') \<Longrightarrow> good s' \<and> (case r of Inl e \<Rightarrow> documented e | Inr _ \<Rightarrow> True)) \<Longrightarrow>
     proper good x"
  by (cases x) (simp add: proper_def)

lemma proper_simps [simp]:
  "proper good (Inl e, s) \<longleftrightarrow> good s \<and> documented e" "proper good (Inr x, s) \<longleftrightarrow> good s"
  by (simp_all add: proper_def)

text \<open>
  Every method that processes a command has a proper outcome, for all arguments. The overloads on
  a pointer are called with memory of the given length, \<open>upload\<close> with a zero byte somewhere in it,
  and are undefined otherwise; \<open>getTRModuleInfo\<close> does not return NULL.
\<close>

definition every_method :: "('e impl \<Rightarrow> bool) \<Rightarrow> 'e platform \<Rightarrow> 'e impl \<Rightarrow> bool" where
  "every_method good P s \<longleftrightarrow>
     proper good (test P s) \<and> proper good (resetUSBDevice P s) \<and> proper good (resetTRModule P s) \<and>
     proper good (indicateConnectivity P s) \<and> proper good (switchToCustom P s) \<and>
     proper good (getUSBDeviceInfo P s) \<and>
     proper good (getTRModuleInfo P s) \<and> fst (getTRModuleInfo P s) \<noteq> Inr None \<and>
     proper good (getStatus P s) \<and>
     proper good (enterProgrammingMode P s) \<and> proper good (terminateProgrammingMode P s) \<and>
     (\<forall>d. proper good (sendData P d s)) \<and> (\<forall>t d. proper good (upload P t d s)) \<and>
     (\<forall>t d out. proper good (download P t d out s)) \<and>
     (\<forall>d n. n \<le> length d \<longrightarrow> proper good (sendData_ptr P d n s)) \<and>
     (\<forall>t d n. n \<le> length d \<and> 0 \<in> set d \<longrightarrow> proper good (upload_ptr P t d n s)) \<and>
     (\<forall>t d n out k. n \<le> length d \<and> k \<le> length out \<longrightarrow> proper good (download_ptr P t d n out k s)) \<and>
     (\<forall>d n. length d < n \<longrightarrow> fst (sendData_ptr P d n s) = Inl UndefinedBehaviour) \<and>
     (\<forall>t d n. length d < n \<or> 0 \<notin> set d \<longrightarrow> fst (upload_ptr P t d n s) = Inl UndefinedBehaviour) \<and>
     (\<forall>t d n out k. length d < n \<longrightarrow> fst (download_ptr P t d n out k s) = Inl UndefinedBehaviour)"

text \<open>A call in which sending succeeds and the response is there after the wait.\<close>

lemma processCommand_runs:
  assumes "\<not> receptionStopped s" and "send_of P c s = (Inr (), s1)"
    and "wait_of P (newMsgEvent (reader_of P s1)) = Inr ev"
    and "answers c (fst (last_shown (reader_of P s1)))" and "\<And>s. woken_of P s = s" "\<And>s. checked_of P s = s"
  shows "processCommand P c s = (Inr (), (reader_of P s1)\<lparr>newMsgEvent := ev\<rparr>)"
  using assms
  by (auto simp: processCommand_def getReceptionStopped_def waitForResponse_def checkResponse_def
      last_shown_def answers_def)

text \<open>
  What the portable code relies on: a state invariant \<open>good\<close>, under which the last response is
  a message, that sending, waiting and the reading thread keep, and the kinds of exceptions
  sending and waiting raise; and that the reading thread stores no response after the check of
  its type.
\<close>

locale command_channel =
  fixes P :: "'e platform"
    and good :: "'e impl \<Rightarrow> bool"
  assumes send_law: "good s \<Longrightarrow> cmd_msgType c \<noteq> MSG_ERROR \<Longrightarrow> send_of P c s = (r, s') \<Longrightarrow>
      good s' \<and> (\<forall>e. r = Inl e \<longrightarrow> is_thrown CDCSendException e \<or> e = NotReturned)"
    and reader_law: "good s \<Longrightarrow> good (reader_of P s)"
    and woken_law: "good s \<Longrightarrow> good (woken_of P s)"
    and checked_law: "good s \<Longrightarrow> good (checked_of P s) \<and> last_shown (checked_of P s) = last_shown s"
    and wait_law: "good s \<Longrightarrow>
      (case wait_of P (newMsgEvent s) of
         Inl e \<Rightarrow> is_thrown CDCReceiveException e
       | Inr ev \<Rightarrow> good (s\<lparr>newMsgEvent := ev\<rparr>))"
    and good_response: "good s \<Longrightarrow> response_ok (last_shown s) \<and> parser_ok (msgParser s)"
begin

lemma processCommand_outcome:
  assumes "good s" and "cmd_msgType c \<noteq> MSG_ERROR" and "processCommand P c s = (r, s')"
  shows "good s' \<and> (case r of Inl e \<Rightarrow> documented e | Inr _ \<Rightarrow> answers c (fst (last_shown s')))"
proof (cases "getReceptionStopped s")
  case True
  with assms show ?thesis by (auto simp: processCommand_def)
next
  case False
  obtain r1 s1 where send: "send_of P c s = (r1, s1)" by (cases "send_of P c s")
  note sl = send_law [OF assms(1,2) send]
  show ?thesis
  proof (cases r1)
    case (Inl e)
    with False send sl assms(3) show ?thesis by (auto simp: processCommand_def documented_def)
  next
    case (Inr u)
    define s2 where "s2 = reader_of P s1"
    have g2: "good s2" using sl reader_law by (simp add: s2_def)
    show ?thesis
    proof (cases "wait_of P (newMsgEvent s2)")
      case (Inl e)
      with False send \<open>r1 = Inr u\<close> g2 wait_law [OF g2] assms(3) show ?thesis
        by (auto simp: processCommand_def waitForResponse_def s2_def documented_def)
    next
      case (Inr ev)
      define s3 where "s3 = woken_of P (s2\<lparr>newMsgEvent := ev\<rparr>)"
      from Inr wait_law [OF g2] have "good s3" by (simp add: s3_def woken_law)
      note g3 = this checked_law [OF this]
      obtain r3 s4 where check: "checkResponse c s3 = (r3, s4)" by (cases "checkResponse c s3")
      note c3 = checkResponse_cases [OF check]
      with False send \<open>r1 = Inr u\<close> Inr assms(3) check g3 show ?thesis
        by (cases r3) (auto simp: processCommand_def waitForResponse_def s2_def [symmetric] s3_def [symmetric])
    qed
  qed
qed

lemma processCommand_cases:
  assumes "good s" and "cmd_msgType c \<noteq> MSG_ERROR"
  obtains e s' where "processCommand P c s = (Inl e, s')" and "good s'" and "documented e"
  | s' n where "processCommand P c s = (Inr (), s')" and "good s'"
      and "answers c (fst (last_shown s'))" and "frame n (fst (last_shown s')) (snd (last_shown s'))"
      and "length (snd (last_shown s')) < 2 ^ 62"
proof -
  obtain r s' where run: "processCommand P c s = (r, s')" by (cases "processCommand P c s")
  note out = processCommand_outcome [OF assms run]
  show thesis
  proof (cases r)
    case (Inl e)
    with run out that(1) show thesis by simp
  next
    case (Inr u)
    with out have a: "good s'" "answers c (fst (last_shown s'))" by auto
    then have "fst (last_shown s') \<noteq> MSG_ERROR"
      using assms(2) by (auto simp: answers_def download_pair_def)
    with good_response [OF a(1)] obtain n where
      "frame n (fst (last_shown s')) (snd (last_shown s'))" "length (snd (last_shown s')) < 2 ^ 62"
      unfolding response_ok_def by auto
    with a run Inr that(2) show thesis by simp
  qed
qed

text \<open>A method that decodes its response with a decoder that accepts it.\<close>

lemma decoded_outcome:
  assumes "good s" and "t \<noteq> MSG_ERROR" and "t \<noteq> MSG_UPLOAD_DOWNLOAD"
    and "\<And>n m s. frame n t m \<Longrightarrow> length m < 2 ^ 62 \<Longrightarrow> good s \<Longrightarrow> \<exists>x. f s m = Inr x \<and> Q x"
    and "andThen (processCommand P (constructCommand t d) s) (\<lambda>_ s. decode (f s) s) = (r, s')"
  shows "good s' \<and> (case r of Inl e \<Rightarrow> documented e | Inr x \<Rightarrow> Q x)"
proof (rule processCommand_cases [OF assms(1), of "constructCommand t d"])
  show "cmd_msgType (constructCommand t d) \<noteq> MSG_ERROR"
    using assms(2) by (simp add: constructCommand_def)
next
  fix e s1
  assume "processCommand P (constructCommand t d) s = (Inl e, s1)" "good s1" "documented e"
  with assms(5) show ?thesis by auto
next
  fix s1 n
  assume s1: "processCommand P (constructCommand t d) s = (Inr (), s1)" "good s1"
    "answers (constructCommand t d) (fst (last_shown s1))"
    "frame n (fst (last_shown s1)) (snd (last_shown s1))" "length (snd (last_shown s1)) < 2 ^ 62"
  from s1(3) assms(3) have "fst (last_shown s1) = t"
    by (auto simp: answers_def download_pair_def constructCommand_def)
  with s1 assms(4) [of n "snd (last_shown s1)" s1] obtain x where
    "f s1 (snd (last_shown s1)) = Inr x" "Q x" by auto
  with assms(5) s1(1,2) show ?thesis by (auto simp: decode_def last_shown_def)
qed

lemma plain_outcome:
  assumes "good s" and "t \<noteq> MSG_ERROR" and "processCommand P (constructCommand t d) s = (r, s')"
  shows "good s' \<and> (case r of Inl e \<Rightarrow> documented e | Inr _ \<Rightarrow> True)"
  using processCommand_outcome [OF assms(1) _ assms(3)] assms(2)
  by (auto simp: constructCommand_def split: sum.splits)

lemma identification_outcomes:
  assumes "good s"
  shows "getUSBDeviceInfo P s = (r1, s1) \<Longrightarrow>
      good s1 \<and> (case r1 of Inl e \<Rightarrow> documented e | Inr _ \<Rightarrow> True)"
    and "getTRModuleInfo P s = (r2, s2) \<Longrightarrow>
      good s2 \<and> (case r2 of Inl e \<Rightarrow> documented e | Inr info \<Rightarrow> info \<noteq> None)"
    and "getStatus P s = (r3, s3) \<Longrightarrow>
      good s3 \<and> (case r3 of Inl e \<Rightarrow> documented e | Inr _ \<Rightarrow> True)"
proof -
  show "getUSBDeviceInfo P s = (r1, s1) \<Longrightarrow>
      good s1 \<and> (case r1 of Inl e \<Rightarrow> documented e | Inr _ \<Rightarrow> True)"
    by (rule decoded_outcome [OF assms, of MSG_USB_INFO "\<lambda>_. getParsedDeviceInfo" "\<lambda>_. True" "[]"])
      (simp_all add: accept_USB getUSBDeviceInfo_def)
  show "getTRModuleInfo P s = (r2, s2) \<Longrightarrow>
      good s2 \<and> (case r2 of Inl e \<Rightarrow> documented e | Inr info \<Rightarrow> info \<noteq> None)"
    by (rule decoded_outcome [OF assms, of MSG_TR_INFO "\<lambda>_. getParsedModuleInfo" "\<lambda>i. i \<noteq> None" "[]"])
      (auto simp: getTRModuleInfo_def elim!: frame_TR)
  show "getStatus P s = (r3, s3) \<Longrightarrow>
      good s3 \<and> (case r3 of Inl e \<Rightarrow> documented e | Inr _ \<Rightarrow> True)"
    by (rule decoded_outcome [OF assms, of MSG_SPI_STAT "\<lambda>s. getParsedSPIStatus (msgParser s)"
          "\<lambda>_. True" "[]"])
      (use good_response in \<open>auto simp: getStatus_def accept_SPI\<close>)
qed

text \<open>The values that these two return have the sizes of theory \<open>Decoders\<close>.\<close>

lemma identification_values:
  assumes "good s"
  shows "getUSBDeviceInfo P s = (Inr d, s1) \<Longrightarrow> device_info_ok d"
    and "getTRModuleInfo P s = (Inr (Some i), s2) \<Longrightarrow> module_info_ok i"
proof -
  show "device_info_ok d" if "getUSBDeviceInfo P s = (Inr d, s1)"
    using decoded_outcome [OF assms, of MSG_USB_INFO "\<lambda>_. getParsedDeviceInfo" device_info_ok "[]"]
      that by (auto simp: accept_USB_ok getUSBDeviceInfo_def)
  show "module_info_ok i" if "getTRModuleInfo P s = (Inr (Some i), s2)"
    using decoded_outcome [OF assms, of MSG_TR_INFO "\<lambda>_. getParsedModuleInfo"
        "\<lambda>x. case x of Some i \<Rightarrow> module_info_ok i | None \<Rightarrow> False" "[]"]
      that by (fastforce simp: getTRModuleInfo_def elim!: frame_TR)
qed

lemma response_outcomes:
  assumes "good s"
  shows "sendData P data s = (r1, s1) \<Longrightarrow>
      good s1 \<and> (case r1 of Inl e \<Rightarrow> documented e | Inr _ \<Rightarrow> True)"
    and "enterProgrammingMode P s = (r2, s2) \<Longrightarrow>
      good s2 \<and> (case r2 of Inl e \<Rightarrow> documented e | Inr _ \<Rightarrow> True)"
    and "terminateProgrammingMode P s = (r3, s3) \<Longrightarrow>
      good s3 \<and> (case r3 of Inl e \<Rightarrow> documented e | Inr _ \<Rightarrow> True)"
proof -
  show "sendData P data s = (r1, s1) \<Longrightarrow>
      good s1 \<and> (case r1 of Inl e \<Rightarrow> documented e | Inr _ \<Rightarrow> True)"
    by (rule decoded_outcome [OF assms, of MSG_DATA_SEND "\<lambda>_. getParsedDSResponse" "\<lambda>_. True" data])
      (simp_all add: accept_DS sendData_def)
  show "enterProgrammingMode P s = (r2, s2) \<Longrightarrow>
      good s2 \<and> (case r2 of Inl e \<Rightarrow> documented e | Inr _ \<Rightarrow> True)"
    by (rule decoded_outcome [OF assms, of MSG_MODE_PROGRAM "\<lambda>_. getParsedPEResponse" "\<lambda>_. True" "[]"])
      (simp_all add: accept_PE enterProgrammingMode_def)
  show "terminateProgrammingMode P s = (r3, s3) \<Longrightarrow>
      good s3 \<and> (case r3 of Inl e \<Rightarrow> documented e | Inr _ \<Rightarrow> True)"
    by (rule decoded_outcome [OF assms, of MSG_MODE_NORMAL "\<lambda>_. getParsedPTResponse" "\<lambda>_. True" "[]"])
      (simp_all add: accept_PT terminateProgrammingMode_def)
qed

text \<open>
  An upload is sent only when its target has the top bit, so it is not answered with data;
  a download only when the target does not, so it may be.
\<close>

lemma upload_outcome:
  assumes "good s" and "upload P target data s = (r, s')"
  shows "good s' \<and> (case r of Inl e \<Rightarrow> documented e | Inr _ \<Rightarrow> True)"
proof (cases "target AND 0x80 = 0")
  case True
  with assms show ?thesis by (auto simp: upload_def verifyUpload_def)
next
  case False
  let ?c = "constructCommand MSG_UPLOAD_DOWNLOAD (target # data)"
  have run: "andThen (processCommand P ?c s) (\<lambda>_. decode getParsedPMResponse) = (r, s')"
    using assms(2) False by (simp add: upload_def verifyUpload_def)
  show ?thesis
  proof (rule processCommand_cases [OF assms(1), of ?c])
    show "cmd_msgType ?c \<noteq> MSG_ERROR" by (simp add: constructCommand_def)
  next
    fix e s1
    assume "processCommand P ?c s = (Inl e, s1)" "good s1" "documented e"
    with run show ?thesis by auto
  next
    fix s1 n
    assume s1: "processCommand P ?c s = (Inr (), s1)" "good s1"
      "answers ?c (fst (last_shown s1))" "frame n (fst (last_shown s1)) (snd (last_shown s1))"
    from s1(3) False have "fst (last_shown s1) = MSG_UPLOAD_DOWNLOAD"
      by (auto simp: answers_def download_pair_def constructCommand_def)
    with s1(4) accept_PM obtain x where "getParsedPMResponse (snd (last_shown s1)) = Inr x" by fastforce
    with run s1(1,2) show ?thesis by (auto simp: decode_def last_shown_def)
  qed
qed

text \<open>Both overloads of \<open>download\<close> look at the type of the response and go on with its data.\<close>

lemma downloaded_outcome:
  assumes "good s" and "target AND 0x80 = 0"
    and data: "\<And>d t. good t \<Longrightarrow> proper good (K1 d t)" and code: "\<And>c t. good t \<Longrightarrow> proper good (K2 c t)"
  shows "proper good (andThen (processCommand P (constructCommand MSG_UPLOAD_DOWNLOAD (target # d)) s)
    (\<lambda>_ s. if msgType (parseResult (lastResponse s)) = MSG_DOWNLOAD_DATA
           then andThen (decode getParsedPMData s) K1 else andThen (decode getParsedPMResponse s) K2))"
    (is "proper good (andThen (processCommand P ?c s) (\<lambda>_. ?k))")
proof (rule processCommand_cases [OF assms(1), of ?c])
  show "cmd_msgType ?c \<noteq> MSG_ERROR" by (simp add: constructCommand_def)
next
  fix e s1
  assume "processCommand P ?c s = (Inl e, s1)" "good s1" "documented e"
  then show ?thesis by (simp add: proper_def)
next
  fix s1 n
  assume s1: "processCommand P ?c s = (Inr (), s1)" "good s1"
    "answers ?c (fst (last_shown s1))" "frame n (fst (last_shown s1)) (snd (last_shown s1))"
    "length (snd (last_shown s1)) < 2 ^ 62"
  show ?thesis
  proof (cases "fst (last_shown s1) = MSG_DOWNLOAD_DATA")
    case True
    with s1(4,5) accept_PM_data obtain x where "getParsedPMData (snd (last_shown s1)) = Inr x"
      by fastforce
    with True s1(1) data [OF s1(2)] show ?thesis by (simp add: decode_def last_shown_def)
  next
    case False
    with s1(3) have "fst (last_shown s1) = MSG_UPLOAD_DOWNLOAD"
      by (auto simp: answers_def download_pair_def constructCommand_def)
    with s1(4) accept_PM obtain x where "getParsedPMResponse (snd (last_shown s1)) = Inr x"
      by fastforce
    with False s1(1) code [OF s1(2)] show ?thesis by (simp add: decode_def last_shown_def)
  qed
qed

lemma download_outcome:
  assumes "good s"
  shows "proper good (download P target d out s)"
proof (cases "target AND 0x80 = 0")
  case False
  with assms show ?thesis by (simp add: download_def verifyDownload_def)
next
  case True
  then show ?thesis
    by (simp add: download_def verifyDownload_def) (rule downloaded_outcome [OF assms True]; simp)
qed

text \<open>The overloads on a pointer, called with memory that has the given sizes.\<close>

lemma pointer_outcomes:
  assumes "good s" and "n \<le> length mem"
  shows "proper good (sendData_ptr P mem n s)"
    and "0 \<in> set mem \<Longrightarrow> proper good (upload_ptr P target mem n s)"
    and "k \<le> length out \<Longrightarrow> proper good (download_ptr P target mem n out k s)"
proof -
  have "sendData_ptr P mem n s = sendData P (take n mem) s"
    using assms(2) by (simp add: sendData_ptr_def sendData_def from_pointer_def)
  then show "proper good (sendData_ptr P mem n s)"
    using response_outcomes(1) [OF assms(1)] by (simp add: properI)
  show "proper good (upload_ptr P target mem n s)" if "0 \<in> set mem"
  proof -
    have "upload_ptr P target mem n s = upload P target (take n mem) s"
      using assms(2) that
      by (simp add: upload_ptr_def upload_def from_pointer_def string_of_pointer_def bindE_def verifyUpload_def)
    then show ?thesis using upload_outcome [OF assms(1)] by (simp add: properI)
  qed
  show "proper good (download_ptr P target mem n out k s)" if "k \<le> length out"
  proof (cases "target AND 0x80 = 0")
    case False
    with assms show ?thesis
      by (simp add: download_ptr_def from_pointer_def bindE_def verifyDownload_def)
  next
    case True
    with assms(2) show ?thesis
      by (simp add: download_ptr_def from_pointer_def bindE_def verifyDownload_def)
        (rule downloaded_outcome [OF assms(1) True]; use that in \<open>simp add: copy_n_def\<close>)
  qed
qed

lemma all_outcomes:
  assumes "good s"
  shows "proper good (test P s)" "proper good (resetUSBDevice P s)" "proper good (resetTRModule P s)"
    "proper good (indicateConnectivity P s)" "proper good (switchToCustom P s)"
    "proper good (getUSBDeviceInfo P s)" "proper good (getTRModuleInfo P s)"
    "fst (getTRModuleInfo P s) \<noteq> Inr None" "proper good (getStatus P s)"
    "proper good (sendData P data s)" "proper good (enterProgrammingMode P s)"
    "proper good (terminateProgrammingMode P s)" "proper good (upload P target data s)"
    "proper good (download P target data out s)"
proof -
  have plain: "proper good (processCommand P (constructCommand t d) s)" if "t \<noteq> MSG_ERROR" for t d
    using plain_outcome [OF assms that] by (rule properI)
  then have "proper good (processCommand P (constructCommand MSG_TEST []) s)" by simp
  then have "proper good (andThen (processCommand P (constructCommand MSG_TEST []) s) (\<lambda>_ s. (Inr True, s)))"
    by (auto simp: proper_def andThen_def split: prod.splits sum.splits)
  then show "proper good (test P s)" by (simp add: test_def)
  show "proper good (resetUSBDevice P s)" "proper good (resetTRModule P s)"
    "proper good (indicateConnectivity P s)" "proper good (switchToCustom P s)"
    using plain by (simp_all add: resetUSBDevice_def resetTRModule_def indicateConnectivity_def
        switchToCustom_def)
  show "proper good (getUSBDeviceInfo P s)" "proper good (getStatus P s)"
    using identification_outcomes [OF assms] by (blast intro: properI)+
  obtain r4 s4 where run4: "getTRModuleInfo P s = (r4, s4)" by (cases "getTRModuleInfo P s")
  note out4 = identification_outcomes(2) [OF assms run4]
  show "proper good (getTRModuleInfo P s)" and "fst (getTRModuleInfo P s) \<noteq> Inr None"
    using out4 by (auto simp: run4 proper_def split: sum.splits)
  show "proper good (sendData P data s)" "proper good (enterProgrammingMode P s)"
    "proper good (terminateProgrammingMode P s)"
    using response_outcomes [OF assms] by (blast intro: properI)+
  show "proper good (upload P target data s)"
    using upload_outcome [OF assms] by (blast intro: properI)
  show "proper good (download P target data out s)"
    by (rule download_outcome [OF assms])
qed

text \<open>
  A pointer overload whose length exceeds the memory behind the pointer is undefined; so is the
  one of \<open>upload\<close> when that memory holds no zero byte, whatever length it is given.
\<close>

lemma pointers_undefined:
  shows "length mem < n \<Longrightarrow> fst (sendData_ptr P mem n s) = Inl UndefinedBehaviour"
    and "length mem < n \<or> 0 \<notin> set mem \<Longrightarrow> fst (upload_ptr P target mem n s) = Inl UndefinedBehaviour"
    and "length mem < n \<Longrightarrow> fst (download_ptr P target mem n out k s) = Inl UndefinedBehaviour"
  by (auto simp: sendData_ptr_def upload_ptr_def download_ptr_def from_pointer_def string_of_pointer_def
      bindE_def)

lemma interface_proper: "good s \<Longrightarrow> every_method good P s"
  unfolding every_method_def
  by (intro conjI allI impI all_outcomes pointer_outcomes pointers_undefined) auto

end

end
