(* ===== verification/Linux_Port.thy ===== *)
theory Linux_Port
  imports Framing_Stream Commands
begin

text \<open>
  The Linux side of \<open>CDCImplPrivate\<close> (\<open>src/CDCImpl_Lin.cpp\<close>): opening and closing the
  port, writing a command, reading from the port and the reading thread. System calls are parameters: a
  script gives, for each round of a loop, what \<open>select\<close>, \<open>read\<close> and \<open>write\<close> return; a
  script that ends means a call that has not returned. Written bytes are appended to the
  ghost field \<open>portOutput\<close>.
\<close>

unbundle bit_operations_syntax

section \<open>Waiting for descriptors\<close>

datatype EventType = READ_EVENT | WRITE_EVENT

text \<open>
  \<open>select\<close> is given the number of descriptors to look at, the descriptors, the direction and
  the time-out; \<open>None\<close> waits for ever.
\<close>

type_synonym select_call = "int \<Rightarrow> int list \<Rightarrow> EventType \<Rightarrow> nat option \<Rightarrow> int"

definition selectEvents :: "select_call \<Rightarrow> int list \<Rightarrow> EventType \<Rightarrow> nat \<Rightarrow> int" where
  "selectEvents select fds evType timeout =
     (if fds = [] then 0
      else
        (let maxFd = fold (\<lambda>fd m. if fd > m then fd else m) fds 0;
             maxFd = maxFd + 1 in
         if timeout \<noteq> 0 then select maxFd fds evType (Some timeout)
         else select maxFd fds evType None))"

section \<open>Sending a command\<close>

definition TM_SEND_MSG :: nat where "TM_SEND_MSG = 5"

record write_round =
  select_of :: select_call
  select_errno :: nat
  write_of :: int
  write_errno :: nat

fun send_loop ::
  "int \<Rightarrow> write_round list \<Rightarrow> byte option list \<Rightarrow> int \<Rightarrow> ustring \<Rightarrow> (thrown + unit) \<times> ustring" where
  "send_loop port [] dataToWrite dataLen out =
     (if dataLen > 0 then (Inl NotReturned, out) else (Inr (), out))"
| "send_loop port (w # ws) dataToWrite dataLen out =
     (if dataLen > 0 then
        (let selResult = selectEvents (select_of w) [port] WRITE_EVENT TM_SEND_MSG in
         if selResult = - 1
         then (Inl (THROW_EXCEPT CDCSendException ''CDCImpl_Lin.cpp'' 137
                (''Sending message failed with error '' @ show_nat (select_errno w))), out)
         else if selResult = 0
         then (Inl (Thrown (new_CDCSendException ''Waiting for send timeouted'')), out)
         else
           (let writeResult = write_of w in
            if writeResult = - 1
            then (Inl (THROW_EXCEPT CDCSendException ''CDCImpl_Lin.cpp'' 144
                   (''Sending message failed with error '' @ show_nat (write_errno w))), out)
            else send_loop port ws (drop (nat writeResult) dataToWrite)
                   (dataLen - writeResult)
                   (out @ map the (take (nat writeResult) dataToWrite))))
      else (Inr (), out))"

definition sendCommand_Lin ::
  "int \<Rightarrow> write_round list \<Rightarrow> Command \<Rightarrow> 'e impl \<Rightarrow> (thrown + unit) \<times> 'e impl" where
  "sendCommand_Lin port script cmd s =
     (case commandToBuffer cmd s of
        (Inl e, s) \<Rightarrow> (Inl e, s)
      | (Inr buffCmd, s) \<Rightarrow>
          (case send_loop port script (transmitted buffCmd s) (int (buff_len buffCmd))
                  (portOutput s) of
             (r, out) \<Rightarrow> (r, s\<lparr>portOutput := out\<rparr>)))"

text \<open>
  What \<open>write\<close> promises: on error -1, otherwise a number of bytes that it has taken, at most
  those it was given. A round of the script is possible when this holds.
\<close>

fun write_law :: "write_round list \<Rightarrow> int \<Rightarrow> bool" where
  "write_law [] n = True"
| "write_law (w # ws) n =
     (n > 0 \<longrightarrow> write_of w = - 1 \<or> (0 \<le> write_of w \<and> write_of w \<le> n \<and> write_law ws (n - write_of w)))"

section \<open>Reading\<close>

datatype read_result = ReadError nat | ReadBytes ustring

text \<open>
  \<open>int messageEnd = endPos\<close>: the position is converted to 32 bits, and -1 means that there is
  no carriage return.
\<close>

definition appendDataFromPort :: "read_result \<Rightarrow> ustring \<Rightarrow> thrown + (int \<times> ustring)" where
  "appendDataFromPort readResult destBuffer =
     (case readResult of
        ReadError errno \<Rightarrow>
          Inl (THROW_EXCEPT CDCReceiveException ''CDCImpl_Lin.cpp'' 111
            (''Appending data from COM-port failed with error '' @ show_nat errno))
      | ReadBytes buf \<Rightarrow>
          (let messageEnd = - 1;
               destBuffer = destBuffer @ buf;
               messageEnd =
                 (case find_index destBuffer CR 0 of
                    None \<Rightarrow> messageEnd
                  | Some endPos \<Rightarrow> sint (of_nat endPos :: 32 word))
           in Inr (messageEnd, destBuffer)))"

record read_round =
  waitResult :: int
  wait_errno :: nat
  port_ready :: bool
  end_ready :: bool
  read_of :: read_result

text \<open>The body of the loop: whether the loop goes on, the buffer and the object.\<close>

definition reader_round ::
  "read_round \<Rightarrow> ustring \<Rightarrow> linux_event impl \<Rightarrow> (thrown + bool) \<times> ustring \<times> linux_event impl" where
  "reader_round w receivedBytes s =
     (if waitResult w = - 1
      then (Inl (THROW_EXCEPT CDCReceiveException ''CDCImpl_Lin.cpp'' 69
             (''Waiting for event in read cycle failed with error '' @ show_nat (wait_errno w))),
            receivedBytes, s)
      else if waitResult w = 0 then (Inr True, receivedBytes, s)
      else
        (case
           (if port_ready w then
              (case appendDataFromPort (read_of w) receivedBytes of
                 Inl e \<Rightarrow> (Inl e, receivedBytes, s)
               | Inr (messageEnd, receivedBytes) \<Rightarrow>
                   (if messageEnd \<noteq> - 1 then processAllMessages setMyEvent_Lin receivedBytes s
                    else (Inr (), receivedBytes, s)))
            else (Inr (), receivedBytes, s)) of
           (Inl e, receivedBytes, s) \<Rightarrow> (Inl e, receivedBytes, s)
         | (Inr _, receivedBytes, s) \<Rightarrow> (Inr (\<not> end_ready w), receivedBytes, s)))"

text \<open>The exception handler of the thread.\<close>

definition reader_catch :: "thrown \<Rightarrow> linux_event impl \<Rightarrow> reader_status \<times> linux_event impl" where
  "reader_catch e s =
     (case e of
        Thrown x \<Rightarrow>
          (if caught_by CDCReceiveException x
           then (Returned 1, setReceptionStopped True (setLastReceptionError (what x) s))
           else (Terminated e, s))
      | _ \<Rightarrow> (Terminated e, s))"

definition reader_step ::
  "read_round \<Rightarrow> ustring \<Rightarrow> linux_event impl \<Rightarrow> reader_status \<times> linux_event impl" where
  "reader_step w receivedBytes s =
     (case reader_round w receivedBytes s of
        (Inl e, receivedBytes, s) \<Rightarrow> reader_catch e s
      | (Inr run, receivedBytes, s) \<Rightarrow> (if run then Reading receivedBytes else Returned 0, s))"

fun reader_loop ::
  "read_round list \<Rightarrow> ustring \<Rightarrow> linux_event impl \<Rightarrow> reader_status \<times> linux_event impl" where
  "reader_loop [] receivedBytes s = (Reading receivedBytes, s)"
| "reader_loop (w # ws) receivedBytes s =
     (case reader_step w receivedBytes s of
        (Reading receivedBytes, s) \<Rightarrow> reader_loop ws receivedBytes s
      | (status, s) \<Rightarrow> (status, s))"

definition readMsgThread_Lin ::
  "read_round list \<Rightarrow> linux_event impl \<Rightarrow> reader_status \<times> linux_event impl" where
  "readMsgThread_Lin script s =
     (case setMyEvent_Lin (readStartEvent s) of
        Inl e \<Rightarrow> reader_catch e s
      | Inr ev \<Rightarrow> reader_loop script [] (s\<lparr>readStartEvent := ev\<rparr>))"

text \<open>
  What \<open>join\<close> waits for: nothing when the thread has returned, and otherwise the rest of its
  loop from the bytes it has collected.
\<close>

definition joined_Lin ::
  "int option \<Rightarrow> ustring \<Rightarrow> read_round list \<Rightarrow> linux_event impl \<Rightarrow> reader_status \<times> linux_event impl" where
  "joined_Lin returned receivedBytes script s =
     (case returned of
        Some n \<Rightarrow> (Returned n, s)
      | None \<Rightarrow> reader_loop script receivedBytes s)"

section \<open>Opening and closing the port\<close>

record termios =
  c_iflag :: "32 word"
  c_oflag :: "32 word"
  c_cflag :: "32 word"
  c_lflag :: "32 word"
  c_ispeed :: "32 word"
  c_ospeed :: "32 word"
  c_VMIN :: byte
  c_VTIME :: byte

text \<open>The values of the Linux headers.\<close>

definition IGNBRK :: "32 word" where "IGNBRK = 0x1"
definition BRKINT :: "32 word" where "BRKINT = 0x2"
definition PARMRK :: "32 word" where "PARMRK = 0x8"
definition ISTRIP :: "32 word" where "ISTRIP = 0x20"
definition INLCR :: "32 word" where "INLCR = 0x40"
definition IGNCR :: "32 word" where "IGNCR = 0x80"
definition ICRNL :: "32 word" where "ICRNL = 0x100"
definition IXON :: "32 word" where "IXON = 0x400"
definition OPOST :: "32 word" where "OPOST = 0x1"
definition CSIZE :: "32 word" where "CSIZE = 0x30"
definition CS8 :: "32 word" where "CS8 = 0x30"
definition CSTOPB :: "32 word" where "CSTOPB = 0x40"
definition CREAD :: "32 word" where "CREAD = 0x80"
definition PARENB :: "32 word" where "PARENB = 0x100"
definition ISIG :: "32 word" where "ISIG = 0x1"
definition ICANON :: "32 word" where "ICANON = 0x2"
definition ECHO :: "32 word" where "ECHO = 0x8"
definition NOFLSH :: "32 word" where "NOFLSH = 0x80"
definition IEXTEN :: "32 word" where "IEXTEN = 0x8000"
definition B57600 :: "32 word" where "B57600 = 0x1001"

lemmas termios_bits =
  IGNBRK_def BRKINT_def PARMRK_def ISTRIP_def INLCR_def IGNCR_def ICRNL_def IXON_def OPOST_def
  CSIZE_def CS8_def CSTOPB_def CREAD_def PARENB_def ISIG_def ICANON_def ECHO_def NOFLSH_def
  IEXTEN_def B57600_def

definition port_options :: "termios \<Rightarrow> termios" where
  "port_options t =
     (let t = t\<lparr>c_iflag := c_iflag t AND
                NOT (PARMRK OR IGNBRK OR BRKINT OR ISTRIP OR IGNCR OR ICRNL OR INLCR OR IXON)\<rparr>;
          t = t\<lparr>c_oflag := c_oflag t AND NOT OPOST\<rparr>;
          t = t\<lparr>c_cflag := c_cflag t OR CREAD\<rparr>;
          t = t\<lparr>c_cflag := c_cflag t AND NOT (CSIZE OR PARENB OR CSTOPB)\<rparr>;
          t = t\<lparr>c_cflag := c_cflag t OR CS8\<rparr>;
          t = t\<lparr>c_lflag := c_lflag t AND NOT (ICANON OR ECHO OR ISIG OR IEXTEN)\<rparr>;
          t = t\<lparr>c_lflag := c_lflag t OR NOFLSH\<rparr>;
          t = t\<lparr>c_ispeed := B57600\<rparr>;
          t = t\<lparr>c_ospeed := B57600\<rparr>;
          t = t\<lparr>c_VMIN := 1\<rparr>
      in t\<lparr>c_VTIME := 0\<rparr>)"

text \<open>The results of the system calls in the order in which they are made.\<close>

record open_calls =
  open_result :: int
  isatty_result :: int
  tcgetattr_result :: int
  current_options :: termios
  tcsetattr_result :: int
  sleep_result :: nat
  tcflush_result :: int
  open_errno :: nat

text \<open>The handle and the options the port has been given.\<close>

definition openPort_Lin :: "open_calls \<Rightarrow> thrown + (int \<times> termios)" where
  "openPort_Lin c =
     (let fail = (\<lambda>line msg. Inl (THROW_EXCEPT CDCImplException ''CDCImpl_Lin.cpp'' line msg));
          err = show_nat (open_errno c) in
      if open_result c = - 1
      then fail 214 (''Port handle creation failed with error '' @ err)
      else if isatty_result c = 0
      then fail 217 (''Specified file is not associated with terminal '' @ err)
      else if tcgetattr_result c = - 1
      then fail 223 (''Port parameters getting failed with error '' @ err)
      else
        (let portOptions = port_options (current_options c) in
         if tcsetattr_result c = - 1
         then fail 261 (''Port parameters setting failed with error '' @ err)
         else if sleep_result c \<noteq> 0
         then fail 265 ''Sleeping before flushing the port not elapsed''
         else if tcflush_result c \<noteq> 0
         then fail 268 (''Port flushing failed with error'' @ err)
         else Inr (open_result c, portOptions)))"

definition closePort_Lin :: "int handle \<Rightarrow> int handle" where
  "closePort_Lin h = Closed"

section \<open>Laws of sending\<close>

lemma send_loop_prefix:
  "write_law ws (int (length d)) \<Longrightarrow>
   send_loop h ws (map Some d) (int (length d)) out = (r, out') \<Longrightarrow>
     (\<exists>k \<le> length d. out' = out @ take k d \<and> (r = Inr () \<longrightarrow> k = length d)) \<and>
     (\<forall>e. r = Inl e \<longrightarrow> is_thrown CDCSendException e \<or> e = NotReturned)"
proof (induction ws arbitrary: d out)
  case Nil
  then show ?case by (auto split: if_splits)
next
  case (Cons w ws)
  show ?case
  proof (cases "d = []")
    case True
    with Cons.prems show ?thesis by auto
  next
    case False
    then have pos: "int (length d) > 0" by simp
    show ?thesis
    proof (cases "selectEvents (select_of w) [h] WRITE_EVENT TM_SEND_MSG \<in> {- 1, 0} \<or> write_of w = - 1")
      case True
      with Cons.prems(2) pos show ?thesis
        by (auto simp: Let_def new_CDCSendException_def split: if_splits)
    next
      case False
      with Cons.prems(1) pos have wl: "0 \<le> write_of w" "write_of w \<le> int (length d)"
        "write_law ws (int (length d) - write_of w)" by auto
      define n where "n = nat (write_of w)"
      have n: "n \<le> length d" "write_of w = int n" using wl by (auto simp: n_def)
      have len: "int (length d) - write_of w = int (length (drop n d))" using n by simp
      have "send_loop h ws (map Some (drop n d)) (int (length (drop n d))) (out @ take n d) = (r, out')"
        using Cons.prems(2) False pos len
        by (simp add: Let_def n_def [symmetric] drop_map take_map comp_def)
      from Cons.IH [OF _ this] wl(3) len obtain k where
        k: "k \<le> length (drop n d)" "out' = (out @ take n d) @ take k (drop n d)"
        "r = Inr () \<longrightarrow> k = length (drop n d)"
        and e: "\<forall>e. r = Inl e \<longrightarrow> is_thrown CDCSendException e \<or> e = NotReturned" by auto
      have "out' = out @ take (n + k) d" using k(2) by (simp add: take_add)
      with k n e show ?thesis by (auto intro!: exI [of _ "n + k"])
    qed
  qed
qed

lemma send_loop_returns:
  "write_law ws (int (length d)) \<Longrightarrow> length d \<le> length ws \<Longrightarrow>
   \<forall>w \<in> set ws. selectEvents (select_of w) [h] WRITE_EVENT TM_SEND_MSG > 0 \<and> write_of w > 0 \<Longrightarrow>
     \<exists>out'. send_loop h ws (map Some d) (int (length d)) out = (Inr (), out')"
proof (induction ws arbitrary: d out)
  case (Cons w ws)
  show ?case
  proof (cases "d = []")
    case False
    then have pos: "int (length d) > 0" by simp
    with Cons.prems(1,3) have wl: "0 < write_of w" "write_of w \<le> int (length d)"
      "write_law ws (int (length d) - write_of w)" by auto
    define n where "n = nat (write_of w)"
    have n: "0 < n" "n \<le> length d" "write_of w = int n" using wl by (auto simp: n_def)
    have len: "int (length d) - write_of w = int (length (drop n d))" using n by simp
    have "write_law ws (int (length (drop n d)))" "length (drop n d) \<le> length ws"
      using wl len n Cons.prems(2) by auto
    from Cons.IH [OF this, of "out @ take n d"] Cons.prems(3) obtain out' where
      "send_loop h ws (map Some (drop n d)) (int (length (drop n d))) (out @ take n d) = (Inr (), out')"
      by auto
    moreover have "selectEvents (select_of w) [h] WRITE_EVENT TM_SEND_MSG > 0"
      using Cons.prems(3) by simp
    ultimately show ?thesis
      using pos len wl(1) by (simp add: Let_def n_def [symmetric] drop_map take_map comp_def)
  qed simp
qed simp

section \<open>Laws of the reading thread\<close>

lemma sint_small: "n < 2 ^ 31 \<Longrightarrow> sint (of_nat n :: 32 word) = int n"
  by (simp add: signed_of_nat signed_take_bit_int_eq_self)

lemma append_data:
  assumes "length (buf @ c) < 2 ^ 31"
  shows "\<exists>k. appendDataFromPort (ReadBytes c) buf = Inr (k, buf @ c) \<and>
    (k \<noteq> - 1 \<longleftrightarrow> CR \<in> set (buf @ c))"
proof (cases "find_index (buf @ c) CR 0")
  case None
  then show ?thesis by (simp add: appendDataFromPort_def Let_def) (simp add: find_index_None)
next
  case (Some i)
  from find_index_bounds [OF Some] have i: "i < length (buf @ c)" "(buf @ c) ! i = CR" by simp_all
  then have "CR \<in> set (buf @ c)" by (metis nth_mem)
  moreover have "sint (of_nat i :: 32 word) = int i" using i assms by (intro sint_small) simp
  ultimately show ?thesis using Some by (simp add: appendDataFromPort_def)
qed

text \<open>A round in which bytes have arrived and nothing else has happened.\<close>

definition data_round :: "ustring \<Rightarrow> read_round" where
  "data_round c =
     \<lparr>waitResult = 1, wait_errno = 0, port_ready = True, end_ready = False, read_of = ReadBytes c\<rparr>"

lemma reader_step_stream:
  assumes "awaits fs buf (c @ coming)" and "length (buf @ c) < 2 ^ 31"
    and "is_open (newMsgEvent s)" and "parser_ok (msgParser s)"
  shows "\<exists>fs1 fs2 buf' s'. fs = fs1 @ fs2 \<and>
    reader_step (data_round c) buf s = (Reading buf', s') \<and> awaits fs2 buf' coming \<and>
    length buf' \<le> length (buf @ c) \<and>
    view s' = fold absorb (map piece_of fs1) (view s) \<and>
    is_open (newMsgEvent s') \<and> parser_ok (msgParser s') \<and>
    (event_ready_Lin (newMsgEvent s) \<or> (\<exists>f \<in> set fs1. fst f \<noteq> MSG_ASYNC) \<longrightarrow>
       event_ready_Lin (newMsgEvent s'))"
proof -
  from append_data [OF assms(2)] obtain k where
    k: "appendDataFromPort (ReadBytes c) buf = Inr (k, buf @ c)" "k \<noteq> - 1 \<longleftrightarrow> CR \<in> set (buf @ c)"
    by blast
  show ?thesis
  proof (cases "CR \<in> set (buf @ c)")
    case True
    from lin_ev.processAllMessages_awaits [OF assms(1,4,3)] True obtain fs1 fs2 buf' s' where
      s': "processAllMessages setMyEvent_Lin (buf @ c) s = (Inr (), buf', s')" "fs = fs1 @ fs2"
        "awaits fs2 buf' coming" "length buf' \<le> length (buf @ c)"
        "view s' = fold absorb (map piece_of fs1) (view s)" "parser_ok (msgParser s')"
        "is_open (newMsgEvent s')"
        "event_ready_Lin (newMsgEvent s) \<or> (\<exists>f \<in> set fs1. fst f \<noteq> MSG_ASYNC) \<longrightarrow>
           event_ready_Lin (newMsgEvent s')" by blast
    have "reader_step (data_round c) buf s = (Reading buf', s')"
      using k True s'(1)
      by (simp add: reader_step_def reader_round_def data_round_def del: set_append)
    with s' show ?thesis by blast
  next
    case False
    have "reader_step (data_round c) buf s = (Reading (buf @ c), s)"
      using k False by (simp add: reader_step_def reader_round_def data_round_def del: set_append)
    with awaits_no_CR [OF assms(1) False] assms(3,4) show ?thesis
      by (intro exI [of _ "[]"] exI [of _ fs] exI [of _ "buf @ c"] exI [of _ s]) simp
  qed
qed

lemma reader_loop_stream:
  "awaits fs buf (concat cs) \<Longrightarrow> length (buf @ concat cs) < 2 ^ 31 \<Longrightarrow>
   is_open (newMsgEvent s) \<Longrightarrow> parser_ok (msgParser s) \<Longrightarrow>
   \<exists>s'. reader_loop (map data_round cs) buf s = (Reading [], s') \<and>
     view s' = fold absorb (map piece_of fs) (view s) \<and> is_open (newMsgEvent s') \<and>
     parser_ok (msgParser s') \<and>
     (event_ready_Lin (newMsgEvent s) \<or> (\<exists>f \<in> set fs. fst f \<noteq> MSG_ASYNC) \<longrightarrow>
       event_ready_Lin (newMsgEvent s'))"
proof (induction cs arbitrary: fs buf s)
  case Nil
  then have "fs = [] \<and> buf = []" using awaits_end by simp
  with Nil show ?case by (intro exI [of _ s]) simp
next
  case (Cons c cs)
  then have a: "awaits fs buf (c @ concat cs)" and l: "length (buf @ c) < 2 ^ 31" by simp_all
  from reader_step_stream [OF a l Cons.prems(3,4)] obtain fs1 fs2 buf' s1 where
    s1: "fs = fs1 @ fs2" "reader_step (data_round c) buf s = (Reading buf', s1)"
      "awaits fs2 buf' (concat cs)" "length buf' \<le> length (buf @ c)"
      "view s1 = fold absorb (map piece_of fs1) (view s)" "is_open (newMsgEvent s1)"
      "parser_ok (msgParser s1)"
      "event_ready_Lin (newMsgEvent s) \<or> (\<exists>f \<in> set fs1. fst f \<noteq> MSG_ASYNC) \<longrightarrow>
         event_ready_Lin (newMsgEvent s1)" by blast
  have "length (buf' @ concat cs) < 2 ^ 31" using s1(4) Cons.prems(2) by simp
  from Cons.IH [OF s1(3) this s1(6,7)] obtain s' where
    "reader_loop (map data_round cs) buf' s1 = (Reading [], s')"
    "view s' = fold absorb (map piece_of fs2) (view s1)" "is_open (newMsgEvent s')"
    "parser_ok (msgParser s')"
    "event_ready_Lin (newMsgEvent s1) \<or> (\<exists>f \<in> set fs2. fst f \<noteq> MSG_ASYNC) \<longrightarrow>
       event_ready_Lin (newMsgEvent s')" by blast
  with s1 show ?case by (intro exI [of _ s']) auto
qed

text \<open>Whatever arrives, the thread is not ended by an uncaught exception.\<close>

lemma reader_round_safe:
  assumes "is_open (newMsgEvent s)" and "parser_ok (msgParser s)"
    and "reader_round w buf s = (r, buf', s')"
  shows "is_open (newMsgEvent s') \<and> parser_ok (msgParser s') \<and>
    (\<forall>e. r = Inl e \<longrightarrow> is_thrown CDCReceiveException e)"
proof -
  have pa: "\<exists>b t. processAllMessages setMyEvent_Lin d s = (Inr (), b, t) \<and>
      is_open (newMsgEvent t) \<and> parser_ok (msgParser t)" for d
    using lin_ev.processAllMessages_refines [OF assms(1,2), of d] by blast
  consider "waitResult w = - 1" | "waitResult w = 0"
    | "waitResult w \<notin> {- 1, 0}" "\<not> port_ready w"
    | n where "waitResult w \<notin> {- 1, 0}" "port_ready w" "read_of w = ReadError n"
    | c where "waitResult w \<notin> {- 1, 0}" "port_ready w" "read_of w = ReadBytes c"
    by (cases "read_of w") auto
  then show ?thesis
  proof cases
    case (5 c)
    obtain k where k: "appendDataFromPort (ReadBytes c) buf = Inr (k, buf @ c)"
      by (simp add: appendDataFromPort_def Let_def)
    obtain b t where "processAllMessages setMyEvent_Lin (buf @ c) s = (Inr (), b, t)"
      "is_open (newMsgEvent t)" "parser_ok (msgParser t)" using pa by blast
    with 5 k assms show ?thesis by (cases "k = - 1") (auto simp: reader_round_def)
  qed (use assms in \<open>auto simp: reader_round_def appendDataFromPort_def\<close>)
qed

lemma caught_receive:
  assumes "is_thrown CDCReceiveException e"
  obtains x where "reader_catch e s = (Returned 1, setReceptionStopped True (setLastReceptionError x s))"
  using assms by (cases e) (auto simp: reader_catch_def caught_by_def)

lemma reader_loop_safe:
  "is_open (newMsgEvent s) \<Longrightarrow> parser_ok (msgParser s) \<Longrightarrow> reader_loop ws buf s = (st, s') \<Longrightarrow>
   is_open (newMsgEvent s') \<and> parser_ok (msgParser s') \<and> (\<forall>e. st \<noteq> Terminated e) \<and>
   (\<forall>n. st = Returned n \<longrightarrow> n = 0 \<or> n = 1 \<and> receptionStopped s')"
proof (induction ws arbitrary: buf s)
  case (Cons w ws)
  obtain r b t where r: "reader_round w buf s = (r, b, t)" by (cases "reader_round w buf s") auto
  note safe = reader_round_safe [OF Cons.prems(1,2) r]
  show ?case
  proof (cases r)
    case (Inl e)
    with safe have "is_thrown CDCReceiveException e" by simp
    from caught_receive [OF this, of t] obtain x where
      "reader_catch e t = (Returned 1, setReceptionStopped True (setLastReceptionError x t))" .
    with Cons.prems r Inl safe show ?thesis
      by (auto simp: reader_step_def cdc_defs)
  next
    case (Inr run)
    with Cons.IH [of t b] Cons.prems(3) r safe show ?thesis
      by (auto simp: reader_step_def split: if_splits)
  qed
qed auto

section \<open>Options of the port\<close>

lemma and_not_mask: "(x AND NOT m) AND m = (0 :: 32 word)"
  by (rule bit_word_eqI) (simp add: bit_simps)

section \<open>Properties\<close>

text \<open>
  C9. A command is written once. Whatever \<open>select\<close> and \<open>write\<close> answer within their contract
  (partial writes included), the bytes that reach the port are a prefix of the command's wire
  format; the call returns normally only when all of it has been written, and the only
  exception is \<open>CDCSendException\<close> (\<open>NotReturned\<close>: the script of system calls has ended).
\<close>

theorem command_written:
  assumes "headers_ok s" and "transmit_ok s" and "cmd_msgType c \<noteq> MSG_ERROR"
    and "write_law script (int (length (wire_of c)))"
    and "sendCommand_Lin h script c s = (r, s')"
  shows "(\<exists>k \<le> length (wire_of c). portOutput s' = portOutput s @ take k (wire_of c) \<and>
      (r = Inr () \<longrightarrow> k = length (wire_of c))) \<and>
    (\<forall>e. r = Inl e \<longrightarrow> is_thrown CDCSendException e \<or> e = NotReturned)"
proof (cases "too_large c")
  case True
  with assms(1,3,5) show ?thesis
    by (auto simp: sendCommand_Lin_def commandToBuffer_eq intro!: exI [of _ 0])
next
  case False
  with assms(1,3,5) obtain out where
    out: "send_loop h script (map Some (wire_of c)) (int (length (wire_of c))) (portOutput s) = (r, out)"
    and s': "portOutput s' = out"
    by (auto simp: sendCommand_Lin_def commandToBuffer_eq transmitted_def split: prod.splits)
  from send_loop_prefix [OF assms(4) out] show ?thesis unfolding s' .
qed

definition sample_object :: "linux_event impl" where
  "sample_object = fresh_object ''/dev/ttyACM0'' (Open 0)"

lemma sample_object_ok:
  "headers_ok sample_object" "transmit_ok sample_object" "portOutput sample_object = []"
  "parser_ok (msgParser sample_object)" "newMsgEvent sample_object = Open 0"
  "asyncListener sample_object = None" "readStartEvent sample_object = Open 0"
  "receptionStopped sample_object = False"
  "lastResponse sample_object =
     \<lparr>message = [], parseResult = \<lparr>msgType = MSG_ERROR, resultType = PARSE_NOT_COMPLETE, lastPosition = 0\<rparr>\<rparr>"
  by (simp_all add: sample_object_def)

theorem command_written_witness:
  "portOutput (snd (sendCommand_Lin 3
     [\<lparr>select_of = \<lambda>n fds e t. 1, select_errno = 0, write_of = 2, write_errno = 0\<rparr>]
     (constructCommand MSG_RES_TR []) sample_object)) \<in> {[], [62], [62, 82], [62, 82, 84], [62, 82, 84, 13]}"
proof -
  define script where "script =
    [\<lparr>select_of = \<lambda>n fds e t. 1, select_errno = 0, write_of = 2, write_errno = 0\<rparr>]"
  define c where "c = constructCommand MSG_RES_TR []"
  have w: "wire_of c = [62, 82, 84, 13]"
    by (simp add: c_def wire_of_def constructCommand_def payload_def)
  obtain r s' where run: "sendCommand_Lin 3 script c sample_object = (r, s')"
    by (cases "sendCommand_Lin 3 script c sample_object")
  have "\<exists>k \<le> length (wire_of c). portOutput s' = portOutput sample_object @ take k (wire_of c)"
    using command_written [OF sample_object_ok(1,2) _ _ run]
    by (auto simp: c_def constructCommand_def script_def w [unfolded c_def constructCommand_def])
  then have "\<exists>k \<le> 4. portOutput s' = take k [62, 82, 84, 13]"
    by (simp add: w sample_object_ok numeral_eq_Suc del: take_Suc_Cons)
  then obtain k where "k = 0 \<or> k = 1 \<or> k = 2 \<or> k = 3 \<or> k = 4" "portOutput s' = take k [62, 82, 84, 13]"
    by (auto simp: le_Suc_eq numeral_eq_Suc)
  then have "portOutput s' \<in> {[], [62], [62, 82], [62, 82, 84], [62, 82, 84, 13]}" by auto
  with run show ?thesis by (simp add: script_def c_def)
qed

text \<open>
  C17. A command is written in the end. When the port accepts at least one byte in each of
  enough rounds, \<open>sendCommand\<close> returns normally for every command of at most 255 bytes of
  data, and the whole command is on the port.
\<close>

theorem command_written_eventually:
  assumes "headers_ok s" and "transmit_ok s" and "cmd_msgType c \<noteq> MSG_ERROR" and "\<not> too_large c"
    and "write_law script (int (length (wire_of c)))" and "length (wire_of c) \<le> length script"
    and "\<forall>w \<in> set script. selectEvents (select_of w) [h] WRITE_EVENT TM_SEND_MSG > 0 \<and> write_of w > 0"
  shows "\<exists>s'. sendCommand_Lin h script c s = (Inr (), s') \<and>
    portOutput s' = portOutput s @ wire_of c"
proof -
  from send_loop_returns [OF assms(5-7)] obtain out where
    out: "send_loop h script (map Some (wire_of c)) (int (length (wire_of c))) (portOutput s) =
      (Inr (), out)" by blast
  from send_loop_prefix [OF assms(5) out] have "out = portOutput s @ wire_of c" by auto
  with out assms(1,3,4) show ?thesis
    by (auto simp: sendCommand_Lin_def commandToBuffer_eq transmitted_def)
qed

theorem command_written_eventually_witness:
  "\<exists>s'. sendCommand_Lin 3
     (replicate 2 \<lparr>select_of = \<lambda>n fds e t. 1, select_errno = 0, write_of = 1, write_errno = 0\<rparr>)
     (constructCommand MSG_TEST []) sample_object = (Inr (), s') \<and> portOutput s' = [62, 13]"
proof -
  let ?script = "replicate 2 \<lparr>select_of = \<lambda>n fds e t. 1, select_errno = 0, write_of = 1, write_errno = 0\<rparr>"
  have w: "wire_of (constructCommand MSG_TEST []) = [62, 13]"
    by (simp add: wire_of_def constructCommand_def payload_def)
  have "write_law ?script 2" by (simp add: numeral_2_eq_2)
  with command_written_eventually [OF sample_object_ok(1,2),
      of "constructCommand MSG_TEST []" ?script 3] w
  show ?thesis
    by (simp add: sample_object_ok constructCommand_def too_large_def carries_data_def
        selectEvents_def TM_SEND_MSG_def)
qed

text \<open>
  C2. No message is lost, split or repeated by the way the bytes arrive. Let the device
  send a stream of self-delimiting messages (each with \<open><\<close> or \<open>>\<close> in front), and let the
  stream reach the reading thread in arbitrary pieces. Then the thread is still reading, its
  buffer is empty, and the object is what the messages, absorbed one by one in order, make
  it: every asynchronous message has been passed to the listener once, and the last response
  is the last message that is not asynchronous. The bound is where the code stores a position
  in an \<open>int\<close>.
\<close>

theorem reader_delivers_stream:
  assumes "is_open (newMsgEvent s)" and "parser_ok (msgParser s)"
    and "list_all2 on_wire fs ws" and "concat chunks = concat ws" and "length (concat ws) < 2 ^ 31"
  shows "\<exists>s'. reader_loop (map data_round chunks) [] s = (Reading [], s') \<and>
    view s' = fold absorb (map piece_of fs) (view s) \<and>
    ((\<exists>f \<in> set fs. fst f \<noteq> MSG_ASYNC) \<longrightarrow> event_ready_Lin (newMsgEvent s'))"
proof -
  have "awaits fs [] (concat chunks)" using awaits_start [OF assms(3)] assms(4) by simp
  from reader_loop_stream [OF this _ assms(1,2)] assms(4,5) show ?thesis by auto
qed

theorem reader_delivers_stream_witness:
  "\<exists>s'. reader_loop (map data_round [[62, 79], [75, 13, 60], [79, 75, 13]]) [] sample_object =
      (Reading [], s') \<and> shown (view s') = (MSG_TEST, crlf ''<OK'')"
proof -
  have f: "frame n MSG_TEST (crlf ''<OK'')" for n
    by (rule frame_fixed) (simp add: fixed_frames_def)
  have w: "on_wire (MSG_TEST, crlf ''<OK'') [62, 79, 75, 13]"
    "on_wire (MSG_TEST, crlf ''<OK'') [60, 79, 75, 13]"
    using f by (simp_all add: on_wire_def self_delimiting_def fix_head_def bracket_defs crlf_def)
  have "is_open (newMsgEvent sample_object)" by (simp add: sample_object_ok)
  from reader_delivers_stream [OF this sample_object_ok(4),
      of "[(MSG_TEST, crlf ''<OK''), (MSG_TEST, crlf ''<OK'')]"
      "[[62, 79, 75, 13], [60, 79, 75, 13]]" "[[62, 79], [75, 13, 60], [79, 75, 13]]"] w
  obtain s' where "reader_loop (map data_round [[62, 79], [75, 13, 60], [79, 75, 13]]) [] sample_object =
      (Reading [], s')"
    "view s' = fold absorb (map piece_of [(MSG_TEST, crlf ''<OK''), (MSG_TEST, crlf ''<OK'')])
      (view sample_object)" by auto
  then show ?thesis by (simp add: piece_of_def)
qed

text \<open>
  Nothing the device sends ends the program: no result of the system calls lets an exception
  leave the reading thread.
\<close>

lemma reader_never_terminates:
  assumes "is_open (newMsgEvent s)" and "parser_ok (msgParser s)" and "is_open (readStartEvent s)"
    and "readMsgThread_Lin script s = (st, s')"
  shows "(\<forall>e. st \<noteq> Terminated e) \<and> is_open (newMsgEvent s') \<and> parser_ok (msgParser s') \<and>
    (\<forall>n. st = Returned n \<longrightarrow> n = 0 \<or> n = 1 \<and> receptionStopped s')"
proof -
  from assms(3) obtain n where "readStartEvent s = Open n" by (elim is_openE)
  with assms(4) have "reader_loop script [] (s\<lparr>readStartEvent := Open (n + 1)\<rparr>) = (st, s')"
    by (simp add: readMsgThread_Lin_def)
  from reader_loop_safe [OF _ _ this] assms(1,2) show ?thesis by simp
qed

text \<open>
  C28. The port is raw. When \<open>openPort\<close> succeeds, the options it has set transmit 8 bits
  without parity and with one stop bit at 57600 baud, pass every byte unchanged in both
  directions (carriage returns, high bits and control characters included) and return a read
  as soon as one byte is there; all other bits are those of the current settings.
\<close>

theorem port_is_raw:
  assumes "openPort_Lin c = Inr (h, t)"
  shows "h = open_result c \<and> h \<noteq> - 1 \<and>
    c_iflag t AND (PARMRK OR IGNBRK OR BRKINT OR ISTRIP OR IGNCR OR ICRNL OR INLCR OR IXON) = 0 \<and>
    c_oflag t AND OPOST = 0 \<and>
    c_cflag t AND (CSIZE OR PARENB OR CSTOPB OR CREAD) = CS8 OR CREAD \<and>
    c_lflag t AND (ICANON OR ECHO OR ISIG OR IEXTEN) = 0 \<and>
    c_ispeed t = B57600 \<and> c_ospeed t = B57600 \<and> c_VMIN t = 1 \<and> c_VTIME t = 0"
proof -
  from assms have t: "t = port_options (current_options c)" "h = open_result c" "h \<noteq> - 1"
    by (auto simp: openPort_Lin_def Let_def split: if_splits)
  have c: "((x OR CREAD) AND NOT (CSIZE OR PARENB OR CSTOPB) OR CS8) AND
      (CSIZE OR PARENB OR CSTOPB OR CREAD) = CS8 OR CREAD" for x
  proof -
    have "((x OR CREAD) AND NOT (CSIZE OR PARENB OR CSTOPB) OR CS8) AND
        (CSIZE OR PARENB OR CSTOPB OR CREAD) = (x AND 0x80) OR 0xB0"
      by (simp add: termios_bits bit.conj_disj_distrib2 and.assoc or.assoc)
    also have "0xB0 = (0x80 OR 0x30 :: 32 word)" by simp
    also have "(x AND 0x80) OR (0x80 OR 0x30) = ((x AND 0x80) OR 0x80) OR 0x30"
      by (simp only: or.assoc)
    also have "\<dots> = 0x80 OR 0x30" by (simp only: word_ao_absorbs)
    finally show ?thesis by (simp add: termios_bits)
  qed
  have l: "((x AND NOT (ICANON OR ECHO OR ISIG OR IEXTEN)) OR NOFLSH) AND
      (ICANON OR ECHO OR ISIG OR IEXTEN) = 0" for x
    by (simp add: termios_bits bit.conj_disj_distrib2 and.assoc or.assoc)
  show ?thesis
    unfolding t port_options_def Let_def using t(2,3) c l and_not_mask
    by (simp del: bit.de_Morgan_disj)
qed

theorem port_is_raw_witness:
  "\<exists>t. openPort_Lin \<lparr>open_result = 3, isatty_result = 1, tcgetattr_result = 0,
      current_options = \<lparr>c_iflag = 0xFFFF, c_oflag = 0xFFFF, c_cflag = 0, c_lflag = 0xFFFF,
        c_ispeed = 0, c_ospeed = 0, c_VMIN = 0, c_VTIME = 0\<rparr>,
      tcsetattr_result = 0, sleep_result = 0, tcflush_result = 0, open_errno = 0\<rparr> = Inr (3, t) \<and>
    c_oflag t AND OPOST = 0"
proof -
  define c where "c = \<lparr>open_result = 3, isatty_result = 1, tcgetattr_result = 0,
      current_options = \<lparr>c_iflag = 0xFFFF, c_oflag = 0xFFFF, c_cflag = 0, c_lflag = 0xFFFF,
        c_ispeed = 0, c_ospeed = 0, c_VMIN = 0, c_VTIME = 0\<rparr>,
      tcsetattr_result = 0, sleep_result = 0, tcflush_result = 0, open_errno = 0\<rparr>"
  have "openPort_Lin c = Inr (3, port_options (current_options c))"
    by (simp add: openPort_Lin_def c_def)
  with port_is_raw [OF this] show ?thesis unfolding c_def by blast
qed

end
