(* ===== verification/Linux_Client.thy ===== *)
theory Linux_Client
  imports Api Linux_Port
begin

text \<open>
  The public interface on Linux: the platform record built from \<open>sendCommand\<close>,
  \<open>waitForMyEvent\<close> and the reading thread of theory \<open>Linux_Port\<close>, the proof that it keeps the
  contract \<open>command_channel\<close>, and what follows for a client: which exceptions the methods
  throw, what they return when the device answers, and how an answer that came too late is
  taken for the answer to the next command.
\<close>

unbundle bit_operations_syntax

section \<open>The platform\<close>

fun bytes_of :: "read_round \<Rightarrow> nat" where
  "bytes_of w = (case read_of w of ReadError e \<Rightarrow> 0 | ReadBytes c \<Rightarrow> length c)"

definition bytes_arriving :: "ustring \<Rightarrow> read_round list \<Rightarrow> nat" where
  "bytes_arriving buf rounds = length buf + sum_list (map bytes_of rounds)"

text \<open>A script that would bring more bytes than fit into memory brings none.\<close>

definition feasible :: "ustring \<Rightarrow> read_round list \<Rightarrow> bool" where
  "feasible buf rounds \<longleftrightarrow> bytes_arriving buf rounds < 2 ^ 62"

definition reads_on_Lin :: "ustring \<Rightarrow> read_round list \<Rightarrow> linux_event impl \<Rightarrow> linux_event impl" where
  "reads_on_Lin buf rounds s = (if feasible buf rounds then snd (reader_loop rounds buf s) else s)"

text \<open>
  The reading thread works while the client waits, and not between the end of the wait and the
  decoding of the response.
\<close>

definition linux_platform ::
  "int \<Rightarrow> write_round list \<Rightarrow> ustring \<Rightarrow> read_round list \<Rightarrow> linux_event platform" where
  "linux_platform h script buf rounds =
     \<lparr>send_of = sendCommand_Lin h script,
      wait_of = wait_Lin,
      reader_of = reads_on_Lin buf rounds,
      woken_of = (\<lambda>s. s),
      checked_of = (\<lambda>s. s)\<rparr>"

text \<open>
  The reading thread works all the time: with \<open>b\<close> and \<open>r\<close> while the client waits, with \<open>b'\<close> and
  \<open>r'\<close> until the type of the response is looked at, and with \<open>b''\<close> and \<open>r''\<close> until it is decoded.
  A \<open>select\<close> that fails, for example because a signal has interrupted it, ends the wait with the
  error \<open>errno\<close>.
\<close>

definition waits_Lin :: "nat option \<Rightarrow> linux_event \<Rightarrow> thrown + linux_event" where
  "waits_Lin failed e =
     (case failed of
        None \<Rightarrow> wait_Lin e
      | Some errno \<Rightarrow> bindE (waitForMyEvent_Lin (- 1) errno e) (\<lambda>(r, e'). Inr e'))"

definition linux_concurrent ::
  "int \<Rightarrow> write_round list \<Rightarrow> nat option \<Rightarrow> ustring \<Rightarrow> read_round list \<Rightarrow> ustring \<Rightarrow> read_round list \<Rightarrow>
     ustring \<Rightarrow> read_round list \<Rightarrow> linux_event platform" where
  "linux_concurrent h script failed b r b' r' b'' r'' =
     \<lparr>send_of = sendCommand_Lin h script,
      wait_of = waits_Lin failed,
      reader_of = reads_on_Lin b r,
      woken_of = reads_on_Lin b' r',
      checked_of = reads_on_Lin b'' r''\<rparr>"

text \<open>Rounds of the reading thread that store no response.\<close>

definition stores_nothing_Lin :: "ustring \<Rightarrow> read_round list \<Rightarrow> bool" where
  "stores_nothing_Lin buf rounds \<longleftrightarrow>
     (\<forall>s. good_object s \<longrightarrow> last_shown (reads_on_Lin buf rounds s) = last_shown s)"

lemma sample_object_good: "good_object sample_object"
  unfolding sample_object_def by (rule good_fresh_object)

section \<open>The contract holds\<close>

lemma send_loop_errors:
  "send_loop h ws d n out = (r, out') \<Longrightarrow> r = Inl e \<Longrightarrow>
     is_thrown CDCSendException e \<or> e = NotReturned"
proof (induction ws arbitrary: d n out)
  case (Cons w ws)
  then show ?case
    by (auto simp: Let_def new_CDCSendException_def simp del: is_thrown_THROW_EXCEPT
        intro: is_thrown_THROW_EXCEPT [THEN iffD2, OF refl] split: if_splits)
qed (auto split: if_splits)

lemma good_client_part:
  "client_part s' = client_part s \<Longrightarrow>
     headers_ok s' = headers_ok s \<and> transmit_ok s' = transmit_ok s \<and> readEndEvent s' = readEndEvent s"
  by (simp add: client_part_def headers_ok_def transmit_ok_def)

lemma reader_round_response:
  assumes "is_open (newMsgEvent s)" and "parser_ok (msgParser s)"
    and "response_ok (last_shown s)" and "length buf + bytes_of w < 2 ^ 62"
    and "reader_round w buf s = (r, buf', s')"
  shows "response_ok (last_shown s') \<and> client_part s' = client_part s \<and>
    length buf' \<le> length buf + bytes_of w"
proof (cases "\<exists>c. waitResult w \<notin> {- 1, 0} \<and> port_ready w \<and> read_of w = ReadBytes c")
  case False
  with assms show ?thesis
    by (cases "read_of w") (auto simp: reader_round_def appendDataFromPort_def split: if_splits)
next
  case True
  then obtain c where c: "waitResult w \<notin> {- 1, 0}" "port_ready w" "read_of w = ReadBytes c" by blast
  obtain k where k: "appendDataFromPort (ReadBytes c) buf = Inr (k, buf @ c)"
    by (simp add: appendDataFromPort_def Let_def)
  have len: "length (buf @ c) = length buf + bytes_of w" using c(3) by simp
  show ?thesis
  proof (cases "k = - 1")
    case True
    with assms c k len show ?thesis by (auto simp: reader_round_def)
  next
    case False
    from lin_ev.processAllMessages_refines [OF assms(1,2), of "buf @ c"] obtain ps b t where
      t: "processAllMessages setMyEvent_Lin (buf @ c) s = (Inr (), b, t)" "framed (buf @ c) ps b"
      "view t = fold absorb ps (view s)" by blast
    from t(3) have "last_shown t = shown (fold absorb ps (view s))"
      using last_shown_simps(2) [of t] by simp
    with framed_response_ok [OF t(2), of "view s"] assms(3,4) len
    have "response_ok (last_shown t)" by simp
    moreover have "length b \<le> length buf + bytes_of w"
      using framed_message_bound [OF t(2)] len by simp
    ultimately show ?thesis
      using False c k t(1) processAllMessages_client [OF t(1)] assms(5)
      by (auto simp: reader_round_def)
  qed
qed

lemma reader_catch_fields:
  "reader_catch e s = (st, s') \<Longrightarrow> last_shown s' = last_shown s \<and> client_part s' = client_part s"
  by (auto simp: reader_catch_def last_shown_def client_part_def cdc_defs
      split: outcome_error.splits if_splits)

lemma reader_loop_good:
  "good_object s \<Longrightarrow> bytes_arriving buf ws < 2 ^ 62 \<Longrightarrow> reader_loop ws buf s = (st, s') \<Longrightarrow>
     good_object s'"
proof (induction ws arbitrary: buf s)
  case (Cons w ws)
  obtain r b t where r: "reader_round w buf s = (r, b, t)" by (cases "reader_round w buf s") auto
  have g: "is_open (newMsgEvent s)" "parser_ok (msgParser s)" "response_ok (last_shown s)"
    using Cons.prems(1) by (simp_all add: good_object_def)
  have len: "length buf + bytes_of w < 2 ^ 62"
    using Cons.prems(2) by (simp add: bytes_arriving_def del: bytes_of.simps)
  note resp = reader_round_response [OF g len r]
  note safe = reader_round_safe [OF g(1,2) r]
  have good: "good_object t"
    using Cons.prems(1) resp safe good_client_part [of t s] by (simp add: good_object_def)
  show ?case
  proof (cases r)
    case (Inl e)
    obtain st' u where u: "reader_catch e t = (st', u)" by (cases "reader_catch e t")
    with safe Inl obtain x where "u = setReceptionStopped True (setLastReceptionError x t)"
      using caught_receive [of e t] by (metis prod.inject)
    then have "good_object u"
      using good reader_catch_fields [OF u] good_client_part [of u t]
      by (simp add: good_object_def cdc_defs)
    moreover have "u = s'"
    proof -
      have "reader_step w buf s = (st', u)" using r Inl u by (simp add: reader_step_def)
      moreover from safe Inl have "is_thrown CDCReceiveException e" by simp
      with u have "st' = Returned 1" using caught_receive [of e t] by (metis prod.inject)
      ultimately show ?thesis using Cons.prems(3) by simp
    qed
    ultimately show ?thesis by simp
  next
    case (Inr run)
    have "bytes_arriving b ws < 2 ^ 62"
      using resp Cons.prems(2) by (simp add: bytes_arriving_def del: bytes_of.simps)
    with Cons.IH [OF good this] Cons.prems(3) r Inr good show ?thesis
      by (auto simp: reader_step_def split: if_splits)
  qed
qed auto

lemma sendCommand_good:
  assumes "good_object s" and "cmd_msgType c \<noteq> MSG_ERROR" and "sendCommand_Lin h script c s = (r, s')"
  shows "good_object s' \<and> (\<forall>e. r = Inl e \<longrightarrow> is_thrown CDCSendException e \<or> e = NotReturned)"
proof (cases "too_large c")
  case True
  with assms show ?thesis by (auto simp: sendCommand_Lin_def commandToBuffer_eq good_object_def)
next
  case False
  let ?t = "store_transmit (wire_of c) s"
  obtain out where
    out: "send_loop h script (transmitted \<lparr>buff_len = length (wire_of c)\<rparr> ?t)
      (int (length (wire_of c))) (portOutput ?t) = (r, out)" and s': "s' = ?t\<lparr>portOutput := out\<rparr>"
    using assms False
    by (auto simp: sendCommand_Lin_def commandToBuffer_eq good_object_def split: prod.splits)
  have "good_object s'"
    using assms(1) by (auto simp: s' good_object_def headers_ok_def last_shown_def)
      (simp add: transmit_ok_def store_transmit_def Let_def)
  with send_loop_errors [OF out] show ?thesis by blast
qed

lemma reads_on_good: "good_object s \<Longrightarrow> good_object (reads_on_Lin buf rounds s)"
  using reader_loop_good [of s buf rounds]
  by (cases "reader_loop rounds buf s") (simp add: reads_on_Lin_def feasible_def)

lemma waits_good:
  assumes "good_object s"
  shows "case waits_Lin failed (newMsgEvent s) of
    Inl e \<Rightarrow> is_thrown CDCReceiveException e | Inr ev \<Rightarrow> good_object (s\<lparr>newMsgEvent := ev\<rparr>)"
proof (cases failed)
  case None
  from assms have open_ev: "is_open (newMsgEvent s)" by (simp add: good_object_def)
  show ?thesis
  proof (cases "event_ready_Lin (newMsgEvent s)")
    case True
    from lin_ev.wait_ready [OF open_ev True] obtain ev where
      "wait_Lin (newMsgEvent s) = Inr ev" "is_open ev" by blast
    with assms None show ?thesis by (simp add: waits_Lin_def)
  next
    case False
    from lin_ev.wait_unready [OF open_ev False] None show ?thesis by (auto simp: waits_Lin_def)
  qed
qed (simp add: waits_Lin_def)

lemma channel_Lin:
  assumes "stores_nothing_Lin b'' r''"
  shows "command_channel (linux_concurrent h script failed b r b' r' b'' r'') good_object"
    (is "command_channel ?P _")
proof (rule command_channel.intro)
  fix s c x and s' :: "linux_event impl"
  assume "good_object s" "cmd_msgType c \<noteq> MSG_ERROR" "send_of ?P c s = (x, s')"
  then show "good_object s' \<and> (\<forall>e. x = Inl e \<longrightarrow> is_thrown CDCSendException e \<or> e = NotReturned)"
    by (intro sendCommand_good) (simp_all add: linux_concurrent_def)
next
  fix s :: "linux_event impl"
  assume g: "good_object s"
  then show "good_object (reader_of ?P s)" "good_object (woken_of ?P s)"
    by (simp_all add: linux_concurrent_def reads_on_good)
  from g assms show "good_object (checked_of ?P s) \<and> last_shown (checked_of ?P s) = last_shown s"
    by (simp add: linux_concurrent_def reads_on_good stores_nothing_Lin_def)
  from g show "case wait_of ?P (newMsgEvent s) of
      Inl e \<Rightarrow> is_thrown CDCReceiveException e | Inr ev \<Rightarrow> good_object (s\<lparr>newMsgEvent := ev\<rparr>)"
    using waits_good [of s failed] by (simp add: linux_concurrent_def)
  from g show "response_ok (last_shown s) \<and> parser_ok (msgParser s)" by (simp add: good_object_def)
qed

lemma no_rounds [simp]: "reads_on_Lin buf [] s = s"
  by (simp add: reads_on_Lin_def)

lemma linux_platform_sequential: "linux_platform h script buf rounds = linux_concurrent h script None buf rounds [] [] [] []"
  by (simp add: linux_platform_def linux_concurrent_def waits_Lin_def fun_eq_iff)

interpretation lin: command_channel "linux_platform h script buf rounds" "good_object :: linux_event impl \<Rightarrow> bool"
  unfolding linux_platform_sequential by (rule channel_Lin) (simp add: stores_nothing_Lin_def)

section \<open>Answers\<close>

lemma sent_fields:
  assumes "good_object s" and "cmd_msgType c \<noteq> MSG_ERROR"
    and "sendCommand_Lin h script c s = (Inr (), s1)"
  shows "view s1 = view s" and "newMsgEvent s1 = newMsgEvent s" and "msgParser s1 = msgParser s"
  using assms
  by (auto simp: sendCommand_Lin_def commandToBuffer_eq good_object_def view_def split: prod.splits if_splits)

lemma processCommand_stream:
  assumes good: "good_object s" and run: "\<not> receptionStopped s" and c: "cmd_msgType c \<noteq> MSG_ERROR"
    and send: "sendCommand_Lin h script c s = (Inr (), s1)"
    and stream: "awaits (before @ (T, m) # after) [] (concat chunks)" "length (concat chunks) < 2 ^ 31"
    and last: "answers c T" "T \<noteq> MSG_ASYNC" "\<forall>f \<in> set after. fst f = MSG_ASYNC"
  shows "\<exists>s'. processCommand (linux_platform h script [] (map data_round chunks)) c s = (Inr (), s') \<and>
    view s' = fold absorb (map piece_of (before @ (T, m) # after)) (view s) \<and>
    last_shown s' = (T, m) \<and> good_object s'"
proof -
  let ?fs = "before @ (T, m) # after"
  let ?P = "linux_platform h script [] (map data_round chunks)"
  note sent = sent_fields [OF good c send]
  have "is_open (newMsgEvent s1)" "parser_ok (msgParser s1)"
    using good sent by (simp_all add: good_object_def)
  then obtain s2 where s2: "reader_loop (map data_round chunks) [] s1 = (Reading [], s2)"
    "view s2 = fold absorb (map piece_of ?fs) (view s1)" "is_open (newMsgEvent s2)"
    "event_ready_Lin (newMsgEvent s2)"
    using reader_loop_stream [OF stream(1)] stream(2) last(2) by auto
  have "sum_list (map bytes_of (map data_round chunks)) = length (concat chunks)"
    by (induction chunks) (simp_all add: data_round_def)
  then have "feasible [] (map data_round chunks)"
    using stream(2) by (simp add: feasible_def bytes_arriving_def)
  then have r: "reader_of ?P s1 = s2" using s2(1) by (simp add: linux_platform_def reads_on_Lin_def)
  obtain ev where ev: "wait_Lin (newMsgEvent s2) = Inr ev"
    using lin_ev.wait_ready [OF s2(3,4)] by blast
  let ?s' = "s2\<lparr>newMsgEvent := ev\<rparr>"
  have sh: "last_shown ?s' = (T, m)"
    using s2(2) shown_last_message [OF last(2,3), of before m "view s1"] last_shown_simps(2) [of s2] by simp
  have res: "processCommand ?P c s = (Inr (), ?s')"
    using processCommand_runs [of s ?P c s1 ev] run send r ev sh last(1) by (simp add: linux_platform_def)
  moreover have "good_object ?s'"
    using lin.processCommand_outcome [OF good c res] by simp
  ultimately show ?thesis using s2(2) sent(1) sh by auto
qed

section \<open>Properties\<close>


definition one_write :: "nat \<Rightarrow> write_round list" where
  "one_write n =
     [\<lparr>select_of = \<lambda>n fds e t. 1, select_errno = 0, write_of = int n, write_errno = 0\<rparr>]"

text \<open>A port that takes the whole command at once.\<close>

lemma send_at_once:
  assumes "good_object s" and "cmd_msgType c \<noteq> MSG_ERROR" and "\<not> too_large c"
  obtains s1 where "sendCommand_Lin h (one_write (length (wire_of c))) c s = (Inr (), s1)"
proof -
  have "wire_of c \<noteq> []" by (simp add: wire_of_def)
  then have "send_loop h (one_write (length (wire_of c))) (map Some (wire_of c))
      (int (length (wire_of c))) (portOutput s) = (Inr (), portOutput s @ wire_of c)"
    by (simp add: one_write_def selectEvents_def TM_SEND_MSG_def Let_def comp_def)
  then show thesis
    using that assms by (auto simp: sendCommand_Lin_def commandToBuffer_eq transmitted_def good_object_def)
qed

text \<open>Download data of three bytes, the middle one a zero, in two pieces.\<close>

lemma sample_data_alone: "alone MSG_DOWNLOAD_DATA [60, 80, 77, 58, 7, 0, 8, 13]"
proof -
  have "frame 8 MSG_DOWNLOAD_DATA (uchar_str ''<PM:'' @ [7, 0, 8] @ [CR])" by (rule frame_pm_data) simp_all
  moreover have "length [60, 80, 77, 58, 7, 0, 8, 13 :: byte] = 8" by simp
  moreover have "CR \<notin> set (butlast [60, 80, 77, 58, 7, 0, 8, 13])" by simp
  ultimately show ?thesis unfolding alone_def by (simp only:) simp
qed




text \<open>
  C13. On Linux a late answer answers the next command. The client's first call ends with a
  \<open>CDCReceiveException\<close> because nothing has arrived in time; then a message of the command's
  type arrives; then a second call of the same kind, during which the device sends nothing,
  returns normally with that old message as its response, since \<open>sendCommand\<close> does not reset
  \<open>newMsgEvent\<close>.
\<close>

theorem late_answer_is_taken:
  assumes "good_object s" and "\<not> receptionStopped s" and "\<not> event_ready_Lin (newMsgEvent s)"
    and "cmd_msgType c \<notin> {MSG_ERROR, MSG_ASYNC}" and "\<not> too_large c"
    and "on_wire (cmd_msgType c, m) w" and "length w < 2 ^ 31"
  shows "\<exists>e s1 s2 s3.
    processCommand (linux_platform h (one_write (length (wire_of c))) [] []) c s = (Inl e, s1) \<and>
    is_thrown CDCReceiveException e \<and>
    reader_loop [data_round w] [] s1 = (Reading [], s2) \<and>
    processCommand (linux_platform h (one_write (length (wire_of c))) [] []) c s2 = (Inr (), s3) \<and>
    last_shown s3 = (cmd_msgType c, m)"
proof -
  let ?P = "linux_platform h (one_write (length (wire_of c))) [] []"
  have c: "cmd_msgType c \<noteq> MSG_ERROR" using assms(4) by simp
  obtain t1 where t1: "sendCommand_Lin h (one_write (length (wire_of c))) c s = (Inr (), t1)"
    using send_at_once [OF assms(1) c assms(5)] .
  note f1 = sent_fields [OF assms(1) c t1]
  have g1: "good_object t1" using sendCommand_good [OF assms(1) c t1] by simp
  then have open1: "is_open (newMsgEvent t1)" by (simp add: good_object_def)
  from lin_ev.wait_unready [OF open1] f1 assms(3) obtain e where
    e: "wait_Lin (newMsgEvent t1) = Inl e" "is_thrown CDCReceiveException e" by auto
  have first: "processCommand ?P c s = (Inl e, t1)"
    using assms(2) t1 e(1)
    by (simp add: processCommand_def getReceptionStopped_def linux_platform_def waitForResponse_def)
  have "list_all2 on_wire [(cmd_msgType c, m)] [w]" using assms(6) by simp
  from awaits_start [OF this] have "awaits [(cmd_msgType c, m)] [] (concat [w])" by simp
  from reader_loop_stream [OF this _ open1] g1 assms(4,7) obtain t2 where
    t2: "reader_loop [data_round w] [] t1 = (Reading [], t2)"
      "view t2 = absorb (Message (cmd_msgType c) m) (view t1)" "is_open (newMsgEvent t2)"
      "event_ready_Lin (newMsgEvent t2)" by (auto simp: good_object_def piece_of_Pair)
  have "sum_list (map bytes_of [data_round w]) = length w" by (simp add: data_round_def)
  then have g2: "good_object t2"
    using reader_loop_good [OF g1 _ t2(1)] assms(7) by (simp add: bytes_arriving_def)
  obtain t3 where t3: "sendCommand_Lin h (one_write (length (wire_of c))) c t2 = (Inr (), t3)"
    using send_at_once [OF g2 c assms(5)] .
  note f3 = sent_fields [OF g2 c t3]
  from lin_ev.wait_ready [OF t2(3,4)] f3 obtain ev where ev: "wait_Lin (newMsgEvent t3) = Inr ev" by auto
  have sh: "last_shown t3 = (cmd_msgType c, m)"
    using f3(1) t2(2) assms(4) last_shown_simps(2) [of t3] by simp
  have "\<not> receptionStopped t2"
    using assms(2,4) f1(1) t2(2) by (simp add: halted_view)
  then have "processCommand ?P c t2 = (Inr (), t3\<lparr>newMsgEvent := ev\<rparr>)"
    using t3 ev sh
    by (simp add: processCommand_def getReceptionStopped_def linux_platform_def waitForResponse_def
        checkResponse_def last_shown_def)
  with first e t2(1) sh show ?thesis by (metis last_shown_simps(1))
qed

theorem late_answer_is_taken_witness:
  "\<exists>P e s1 s2 s3. processCommand P (constructCommand MSG_RES_TR []) sample_object = (Inl e, s1) \<and>
     reader_loop [data_round (crlf ''<RT:OK'')] [] s1 = (Reading [], s2) \<and>
     processCommand P (constructCommand MSG_RES_TR []) s2 = (Inr (), s3)"
proof -
  let ?c = "constructCommand MSG_RES_TR []"
  have t: "cmd_msgType ?c = MSG_RES_TR" by (simp add: constructCommand_def)
  have "\<not> too_large ?c" by (simp add: too_large_def carries_data_def constructCommand_def)
  moreover have "frame n MSG_RES_TR (crlf ''<RT:OK'')" for n
    by (rule frame_fixed) (simp add: fixed_frames_def)
  then have "on_wire (cmd_msgType ?c, crlf ''<RT:OK'') (crlf ''<RT:OK'')"
    by (simp add: t on_wire_def self_delimiting_def fix_head_def bracket_defs crlf_def)
  ultimately show ?thesis
    using late_answer_is_taken [OF sample_object_good, of ?c "crlf ''<RT:OK''" "crlf ''<RT:OK''" 3]
    by (auto simp: t sample_object_ok crlf_def) blast
qed

end
