(* ===== verification/Windows_Port.thy ===== *)
theory Windows_Port
  imports Framing_Stream Commands
begin

text \<open>
  The Windows side of \<open>CDCImplPrivate\<close> (\<open>src/CDCImpl_Win.cpp\<close>): opening and closing the
  port, sending a command and the reading thread with its overlapped reads of single bytes. The results of
  the system calls are parameters, as in theory \<open>Linux_Port\<close>: the fields of a record give,
  for one pass through a piece of code, what each call in it returns. A read that is pending
  has set the number of bytes to 0, as \<open>ReadFile\<close> documents.
\<close>

section \<open>Sending a command\<close>

definition ERROR_IO_PENDING :: nat where "ERROR_IO_PENDING = 997"

record win_send =
  send_event_created :: bool
  WriteFile_result :: bool
  bytesWritten :: nat
  send_error :: nat
  send_waitResult :: wait_result
  send_overlapped :: bool

definition send_fail :: "nat \<Rightarrow> string \<Rightarrow> thrown" where
  "send_fail line msg = THROW_EXCEPT CDCSendException ''CDCImpl_Win.cpp'' line msg"

text \<open>
  The bytes that the port has taken, \<open>bytesWritten\<close> of them, are appended to the output
  whatever the calls report; the code does not look at their number.
\<close>

definition sendCommand_Win ::
  "win_send \<Rightarrow> Command \<Rightarrow> windows_event impl \<Rightarrow> (thrown + unit) \<times> windows_event impl" where
  "sendCommand_Win w cmd s =
     (case resetMyEvent_Win (newMsgEvent s) of
        Inl e \<Rightarrow> (Inl e, s)
      | Inr ev \<Rightarrow>
          (let s = s\<lparr>newMsgEvent := ev\<rparr>; err = show_nat (send_error w) in
           if \<not> send_event_created w
           then (Inl (send_fail 280 (''Creating send event failed with error '' @ err)), s)
           else
             (case commandToBuffer cmd s of
                (Inl e, s) \<Rightarrow> (Inl e, s)
              | (Inr buffCmd, s) \<Rightarrow>
                  (let s = s\<lparr>portOutput :=
                       portOutput s @ map the (take (bytesWritten w) (transmitted buffCmd s))\<rparr> in
                   if \<not> WriteFile_result w then
                     (if send_error w \<noteq> ERROR_IO_PENDING
                      then (Inl (send_fail 286 (''Sending message failed with error '' @ err)), s)
                      else
                        (case send_waitResult w of
                           WAIT_OBJECT_0 \<Rightarrow>
                             (if \<not> send_overlapped w
                              then (Inl (send_fail 292
                                     (''Waiting for send failed with error '' @ err)), s)
                              else (Inr (), s))
                         | WAIT_TIMEOUT \<Rightarrow> (Inl (send_fail 299 ''Waiting for send timeouted''), s)
                         | _ \<Rightarrow> (Inl (send_fail 302
                                (''Waiting for send failed with error '' @ err)), s)))
                   else (Inr (), s)))))"

section \<open>The reading thread\<close>

text \<open>\<open>WaitForMultipleObjects\<close> on the overlapped operation and on \<open>readEndEvent\<close>.\<close>

datatype wait_multiple = READ_OBJECT | END_OBJECT | MULTI_TIMEOUT | MULTI_FAILED

record win_reader =
  receivedBytes :: ustring
  byteRead :: byte
  fWaitingOnRead :: bool
  bytesTotal :: nat
  running :: bool

definition receive_fail :: "nat \<Rightarrow> string \<Rightarrow> nat \<Rightarrow> thrown" where
  "receive_fail line msg err =
     THROW_EXCEPT CDCReceiveException ''CDCImpl_Win.cpp'' line (msg @ show_nat err)"

text \<open>Waiting for a character: the part of the outer loop before the reading loop.\<close>

record comm_round =
  WaitCommEvent_result :: bool
  comm_error :: nat
  comm_wait :: wait_multiple
  comm_overlapped :: bool
  comm_total :: nat

definition wait_comm :: "comm_round \<Rightarrow> win_reader \<Rightarrow> thrown + win_reader" where
  "wait_comm c r =
     (if WaitCommEvent_result c then Inr r
      else if comm_error c \<noteq> ERROR_IO_PENDING
      then Inl (receive_fail 97 ''Waiting for char event failed with error '' (comm_error c))
      else
        (case comm_wait c of
           READ_OBJECT \<Rightarrow>
             (if \<not> comm_overlapped c
              then Inl (receive_fail 109 ''Waiting for char event failed with error '' (comm_error c))
              else Inr (r\<lparr>bytesTotal := comm_total c\<rparr>))
         | END_OBJECT \<Rightarrow> Inr (r\<lparr>running := False\<rparr>)
         | _ \<Rightarrow> Inr r))"

record read_attempt =
  ReadFile_result :: bool
  read_error :: nat
  read_total :: nat
  read_byte :: byte
  read_wait :: wait_multiple
  read_overlapped :: bool
  overlapped_total :: nat
  overlapped_byte :: byte

text \<open>A byte has been received; a carriage return lets the messages be processed.\<close>

definition process_on_CR ::
  "win_reader \<Rightarrow> windows_event impl \<Rightarrow> (thrown + win_reader) \<times> windows_event impl" where
  "process_on_CR r s =
     (if byteRead r = CR then
        (case processAllMessages setMyEvent_Win (receivedBytes r) s of
           (Inl e, buf, s) \<Rightarrow> (Inl e, s)
         | (Inr _, buf, s) \<Rightarrow> (Inr (r\<lparr>receivedBytes := buf\<rparr>), s))
      else (Inr r, s))"

definition issue_read ::
  "read_attempt \<Rightarrow> win_reader \<Rightarrow> windows_event impl \<Rightarrow>
     (thrown + win_reader) \<times> windows_event impl" where
  "issue_read a r s =
     (if \<not> fWaitingOnRead r then
        (let r = r\<lparr>bytesTotal := read_total a\<rparr> in
         if \<not> ReadFile_result a then
           (if read_error a \<noteq> ERROR_IO_PENDING
            then (Inl (receive_fail 153 ''Reading failed with error '' (read_error a)), s)
            else (Inr (r\<lparr>fWaitingOnRead := True\<rparr>), s))
         else
           (let r = (if read_total a \<noteq> 0 then r\<lparr>byteRead := read_byte a\<rparr> else r);
                r = r\<lparr>receivedBytes := receivedBytes r @ [byteRead r]\<rparr>
            in case process_on_CR r s of
                 (Inl e, s) \<Rightarrow> (Inl e, s)
               | (Inr r, s) \<Rightarrow> (Inr (r\<lparr>fWaitingOnRead := False\<rparr>), s)))
      else (Inr r, s))"

definition await_read ::
  "read_attempt \<Rightarrow> win_reader \<Rightarrow> windows_event impl \<Rightarrow>
     (thrown + win_reader) \<times> windows_event impl" where
  "await_read a r s =
     (if fWaitingOnRead r then
        (case read_wait a of
           READ_OBJECT \<Rightarrow>
             (if \<not> read_overlapped a
              then (Inl (receive_fail 199 ''Waiting for reading event failed with error ''
                     (read_error a)), s)
              else
                (let r = r\<lparr>bytesTotal := overlapped_total a\<rparr>;
                     r = (if overlapped_total a \<noteq> 0
                          then r\<lparr>byteRead := overlapped_byte a,
                                 receivedBytes := receivedBytes r @ [overlapped_byte a]\<rparr>
                          else r)
                 in case process_on_CR r s of
                      (Inl e, s) \<Rightarrow> (Inl e, s)
                    | (Inr r, s) \<Rightarrow> (Inr (r\<lparr>fWaitingOnRead := False\<rparr>), s)))
         | END_OBJECT \<Rightarrow> (Inr (r\<lparr>running := False\<rparr>), s)
         | MULTI_TIMEOUT \<Rightarrow> (Inr r, s)
         | MULTI_FAILED \<Rightarrow>
             (Inl (receive_fail 241 ''Waiting for event in read cycle failed with error ''
                (read_error a)), s))
      else (Inr r, s))"

definition read_body ::
  "read_attempt \<Rightarrow> win_reader \<Rightarrow> windows_event impl \<Rightarrow>
     (thrown + win_reader) \<times> windows_event impl" where
  "read_body a r s =
     (case issue_read a r s of
        (Inl e, s) \<Rightarrow> (Inl e, s)
      | (Inr r, s) \<Rightarrow> await_read a r s)"

text \<open>
  The reading loop \<open>do ... while (bytesTotal)\<close>: the flag says whether it has ended or is
  waiting for the next attempt of the script.
\<close>

fun reading_loop ::
  "read_attempt list \<Rightarrow> win_reader \<Rightarrow> windows_event impl \<Rightarrow>
     (thrown + bool \<times> win_reader) \<times> windows_event impl" where
  "reading_loop [] r s = (Inr (False, r), s)"
| "reading_loop (a # as) r s =
     (case read_body a r s of
        (Inl e, s) \<Rightarrow> (Inl e, s)
      | (Inr r, s) \<Rightarrow> if bytesTotal r \<noteq> 0 then reading_loop as r s else (Inr (True, r), s))"

text \<open>Both handlers of the thread record the error; other exceptions leave its function.\<close>

definition reader_catch_Win ::
  "thrown \<Rightarrow> windows_event impl \<Rightarrow> reader_status \<times> windows_event impl" where
  "reader_catch_Win e s =
     (case e of
        Thrown x \<Rightarrow>
          (if caught_by CDCReceiveException x
           then (Returned 1, setReceptionStopped True (setLastReceptionError (what x) s))
           else if caught_by CDCImplException x
           then (Returned 1, setReceptionStopped True (setLastReceptionError (what x) s))
           else (Terminated e, s))
      | _ \<Rightarrow> (Terminated e, s))"

fun running_loop ::
  "(comm_round \<times> read_attempt list) list \<Rightarrow> win_reader \<Rightarrow> windows_event impl \<Rightarrow>
     reader_status \<times> windows_event impl" where
  "running_loop [] r s =
     (if running r then (Reading (receivedBytes r), s) else (Returned 0, s))"
| "running_loop ((c, as) # cs) r s =
     (if running r then
        (case wait_comm c r of
           Inl e \<Rightarrow> reader_catch_Win e s
         | Inr r \<Rightarrow>
             (case reading_loop as r s of
                (Inl e, s) \<Rightarrow> reader_catch_Win e s
              | (Inr (ended, r), s) \<Rightarrow>
                  if ended then running_loop cs r s else (Reading (receivedBytes r), s)))
      else (Returned 0, s))"

record win_start =
  SetCommMask_result :: bool
  read_event_created :: bool
  start_error :: nat

definition initial_reader :: win_reader where
  "initial_reader =
     \<lparr>receivedBytes = [], byteRead = 0, fWaitingOnRead = False, bytesTotal = 0, running = True\<rparr>"

definition readMsgThread_Win ::
  "win_start \<Rightarrow> (comm_round \<times> read_attempt list) list \<Rightarrow> windows_event impl \<Rightarrow>
     reader_status \<times> windows_event impl" where
  "readMsgThread_Win w script s =
     (if \<not> SetCommMask_result w
      then reader_catch_Win (receive_fail 75 ''SetCommMask failed with error '' (start_error w)) s
      else if \<not> read_event_created w
      then reader_catch_Win
             (receive_fail 80 ''Create read char event failed with error '' (start_error w)) s
      else
        (case setMyEvent_Win (readStartEvent s) of
           Inl e \<Rightarrow> reader_catch_Win e s
         | Inr ev \<Rightarrow> running_loop script initial_reader (s\<lparr>readStartEvent := ev\<rparr>)))"

text \<open>
  What \<open>join\<close> waits for: nothing when the thread has returned, and otherwise the rest of its
  loop. A thread that waits inside the reading loop is one whose first \<open>WaitCommEvent\<close> has
  returned at once.
\<close>

definition joined_Win ::
  "int option \<Rightarrow> win_reader \<Rightarrow> (comm_round \<times> read_attempt list) list \<Rightarrow> windows_event impl \<Rightarrow>
     reader_status \<times> windows_event impl" where
  "joined_Win returned r script s =
     (case returned of
        Some n \<Rightarrow> (Returned n, s)
      | None \<Rightarrow> running_loop script r s)"

section \<open>Opening and closing the port\<close>

definition getCompletePortName :: "string \<Rightarrow> string" where
  "getCompletePortName portName =
     (let portPrefix = [CHR 0x5C, CHR 0x5C, CHR ''.'', CHR 0x5C] in portPrefix @ portName)"

record win_dcb =
  DCBlength :: nat
  BaudRate :: nat
  ByteSize :: nat
  Parity :: nat
  StopBits :: nat

record win_timeouts =
  ReadIntervalTimeout :: nat
  ReadTotalTimeoutConstant :: nat
  ReadTotalTimeoutMultiplier :: nat
  WriteTotalTimeoutConstant :: nat
  WriteTotalTimeoutMultiplier :: nat

text \<open>The results of the calls in their order; the handle is \<open>None\<close> for an invalid one.\<close>

record win_open =
  CreateFile_result :: "nat option"
  GetCommState_result :: "win_dcb option"
  SetCommState_result :: bool
  GetCommTimeouts_result :: "win_timeouts option"
  SetCommTimeouts_result :: bool
  open_error :: nat

definition CBR_57600 :: nat where "CBR_57600 = 57600"
definition NOPARITY :: nat where "NOPARITY = 0"
definition ONESTOPBIT :: nat where "ONESTOPBIT = 0"

record opened_port =
  opened_name :: string
  opened_handle :: nat
  opened_dcb :: win_dcb
  opened_timeouts :: win_timeouts

text \<open>
  The build without \<open>_UNICODE\<close>. An empty name is first replaced by \<open>COM1\<close>, and then by the
  parameter again.
\<close>

definition openPort_Win :: "win_open \<Rightarrow> string \<Rightarrow> thrown + opened_port" where
  "openPort_Win w portName =
     (let fail = (\<lambda>line msg. Inl (THROW_EXCEPT CDCImplException ''CDCImpl_Win.cpp'' line
                    (msg @ show_nat (open_error w))));
          portNameU = portName;
          portNameU = (if portNameU = [] then ''COM1'' else portNameU);
          portNameU = portName;
          completePortName = getCompletePortName portNameU in
      case CreateFile_result w of
        None \<Rightarrow> fail 390 ''Port handle creation failed with error ''
      | Some port \<Rightarrow>
          (case GetCommState_result w of
             None \<Rightarrow> fail 401 ''Port state getting failed with error ''
           | Some dcb \<Rightarrow>
               (let dcb = dcb\<lparr>BaudRate := CBR_57600, ByteSize := 8, Parity := NOPARITY,
                              StopBits := ONESTOPBIT\<rparr> in
                if \<not> SetCommState_result w
                then fail 411 ''Port state setting failed with error ''
                else
                  (case GetCommTimeouts_result w of
                     None \<Rightarrow> fail 421 ''Port timeouts getting failed with error ''
                   | Some timeouts \<Rightarrow>
                       (let timeouts = timeouts\<lparr>ReadIntervalTimeout := 50,
                              ReadTotalTimeoutConstant := 50, ReadTotalTimeoutMultiplier := 10,
                              WriteTotalTimeoutConstant := 50, WriteTotalTimeoutMultiplier := 10\<rparr> in
                        if \<not> SetCommTimeouts_result w
                        then fail 432 ''Port timeouts setting failed with error ''
                        else Inr \<lparr>opened_name = completePortName, opened_handle = port,
                                  opened_dcb = dcb, opened_timeouts = timeouts\<rparr>)))))"


definition closePort_Win :: "int handle \<Rightarrow> int handle" where
  "closePort_Win h = Closed"

section \<open>Laws of sending\<close>

lemma sendCommand_Win_outcome:
  assumes "headers_ok s" and "transmit_ok s" and "cmd_msgType c \<noteq> MSG_ERROR"
    and "is_open (newMsgEvent s)" and "sendCommand_Win w c s = (r, s')"
  shows "\<exists>k \<le> length (wire_of c). portOutput s' = portOutput s @ take k (wire_of c)"
    and "r = Inl e \<Longrightarrow> is_thrown CDCSendException e"
    and "newMsgEvent s' = Open False" and "view s' = view s" and "msgParser s' = msgParser s"
    and "headers_ok s'" and "transmit_ok s'" and "lastResponse s' = lastResponse s"
    and "readEndEvent s' = readEndEvent s"
proof -
  from assms(4) obtain b where ev: "newMsgEvent s = Open b" by (elim is_openE)
  define s1 where "s1 = s\<lparr>newMsgEvent := Open False\<rparr>"
  have h1: "headers_ok s1" "transmit_ok s1" "view s1 = view s" "newMsgEvent s1 = Open False"
    "portOutput s1 = portOutput s" "msgParser s1 = msgParser s" "lastResponse s1 = lastResponse s"
    "readEndEvent s1 = readEndEvent s"
    using assms(1,2) by (simp_all add: s1_def headers_ok_def transmit_ok_def view_def)
  note buf = commandToBuffer_eq [OF h1(1) assms(3)]
  note run = assms(5) [unfolded sendCommand_Win_def ev resetMyEvent_Win.simps sum.case
      s1_def [symmetric] Let_def send_fail_def]
  have "(\<exists>k \<le> length (wire_of c). portOutput s' = portOutput s @ take k (wire_of c)) \<and>
    (r = Inl e \<longrightarrow> is_thrown CDCSendException e) \<and> newMsgEvent s' = Open False \<and>
    view s' = view s \<and> msgParser s' = msgParser s \<and> headers_ok s' \<and> transmit_ok s' \<and>
    lastResponse s' = lastResponse s \<and> readEndEvent s' = readEndEvent s"
  proof (cases "send_event_created w \<and> \<not> too_large c")
    case False
    then have "s' = s1" "\<exists>e. r = Inl e \<and> is_thrown CDCSendException e"
      using run by (cases "send_event_created w"; auto simp: buf)+
    with h1 show ?thesis by (auto intro!: exI [of _ 0])
  next
    case True
    define s2 where "s2 = store_transmit (wire_of c) s1"
    define s3 where "s3 = s2\<lparr>portOutput := portOutput s2 @ take (bytesWritten w) (wire_of c)\<rparr>"
    have out: "map the (take (bytesWritten w) (transmitted \<lparr>buff_len = length (wire_of c)\<rparr> s2)) =
        take (bytesWritten w) (wire_of c)"
      using h1(2) by (simp add: s2_def transmitted_def take_map [symmetric] comp_def)
    have r: "s' = s3" "\<forall>e. r = Inl e \<longrightarrow> is_thrown CDCSendException e"
      using run True by (auto simp: buf s2_def [symmetric] out s3_def [symmetric]
          split: wait_result.splits if_splits)
    have "take (bytesWritten w) (wire_of c) =
        take (min (bytesWritten w) (length (wire_of c))) (wire_of c)" by (simp add: min_def)
    then have "\<exists>k \<le> length (wire_of c). portOutput s' = portOutput s @ take k (wire_of c)"
      using h1 unfolding r s3_def s2_def
      by (intro exI [of _ "min (bytesWritten w) (length (wire_of c))"]) simp
    with r(2) h1 show ?thesis
      by (simp add: r(1) s3_def s2_def headers_ok_def view_def)
        (simp add: transmit_ok_def store_transmit_def Let_def)
  qed
  then show "\<exists>k \<le> length (wire_of c). portOutput s' = portOutput s @ take k (wire_of c)"
    "r = Inl e \<Longrightarrow> is_thrown CDCSendException e" "newMsgEvent s' = Open False" "view s' = view s"
    "msgParser s' = msgParser s" "headers_ok s'" "transmit_ok s'" "lastResponse s' = lastResponse s"
    "readEndEvent s' = readEndEvent s"
    by blast+
qed


section \<open>Laws of the reading thread\<close>

text \<open>A read that brings one byte, at once or after a wait, and one that runs into the time limit.\<close>

definition delivers :: "read_attempt \<Rightarrow> byte \<Rightarrow> bool" where
  "delivers a b \<longleftrightarrow>
     (if ReadFile_result a then read_total a = 1 \<and> read_byte a = b
      else read_error a = ERROR_IO_PENDING \<and> read_wait a = READ_OBJECT \<and> read_overlapped a \<and>
        overlapped_total a = 1 \<and> overlapped_byte a = b)"

definition runs_out :: "read_attempt \<Rightarrow> bool" where
  "runs_out a \<longleftrightarrow>
     \<not> ReadFile_result a \<and> read_error a = ERROR_IO_PENDING \<and> read_wait a = READ_OBJECT \<and>
     read_overlapped a \<and> overlapped_total a = 0"

definition signalled :: "comm_round \<Rightarrow> bool" where
  "signalled c \<longleftrightarrow>
     WaitCommEvent_result c \<or>
     comm_error c = ERROR_IO_PENDING \<and> comm_wait c = READ_OBJECT \<and> comm_overlapped c"

text \<open>A pass of the outer loop in which the bytes \<open>bs\<close> arrive.\<close>

definition brings :: "comm_round \<times> read_attempt list \<Rightarrow> ustring \<Rightarrow> bool" where
  "brings round bs \<longleftrightarrow>
     signalled (fst round) \<and>
     (\<exists>as a. snd round = as @ [a] \<and> list_all2 delivers as bs \<and> runs_out a)"

text \<open>The thread between two reads.\<close>

definition idle :: "win_reader \<Rightarrow> bool" where
  "idle r \<longleftrightarrow> running r \<and> \<not> fWaitingOnRead r"

lemma wait_comm_signalled:
  "signalled c \<Longrightarrow> idle r \<Longrightarrow>
     \<exists>r'. wait_comm c r = Inr r' \<and> idle r' \<and> receivedBytes r' = receivedBytes r \<and>
       byteRead r' = byteRead r"
  by (auto simp: wait_comm_def signalled_def idle_def)

text \<open>The last byte of the buffer is the one that was read last.\<close>

definition last_read :: "win_reader \<Rightarrow> bool" where
  "last_read r \<longleftrightarrow> receivedBytes r = [] \<or> byteRead r = last (receivedBytes r)"

text \<open>What the two branches of a read have in common: a byte has been appended.\<close>

lemma process_on_CR_stream:
  assumes "awaits fs buf (c @ coming)" and "receivedBytes r = buf @ c" and "c = [] \<or> c = [byteRead r]"
    and "is_open (newMsgEvent s)" and "parser_ok (msgParser s)" and last: "last_read r"
  shows "\<exists>fs1 fs2 buf' s'. process_on_CR r s = (Inr (r\<lparr>receivedBytes := buf'\<rparr>), s') \<and>
    fs = fs1 @ fs2 \<and> awaits fs2 buf' coming \<and> last_read (r\<lparr>receivedBytes := buf'\<rparr>) \<and>
    view s' = fold absorb (map piece_of fs1) (view s) \<and>
    is_open (newMsgEvent s') \<and> parser_ok (msgParser s') \<and>
    (event_ready_Win (newMsgEvent s) \<or> (\<exists>f \<in> set fs1. fst f \<noteq> MSG_ASYNC) \<longrightarrow>
       event_ready_Win (newMsgEvent s'))"
proof (cases "byteRead r = CR")
  case True
  with last assms(2) have CR: "buf @ c = [] \<or> CR \<in> set (buf @ c)" "buf @ c = [] \<or> last (buf @ c) = CR"
    unfolding last_read_def by (metis last_in_set)+
  from win_ev.processAllMessages_awaits [OF assms(1,5,4) CR(1)] obtain fs1 fs2 buf' s' where
    s': "processAllMessages setMyEvent_Win (buf @ c) s = (Inr (), buf', s')" "fs = fs1 @ fs2"
      "length buf' \<le> length (buf @ c)" "last (buf @ c) = CR \<longrightarrow> buf' = [] \<or> last buf' = CR"
      "awaits fs2 buf' coming" "view s' = fold absorb (map piece_of fs1) (view s)"
      "parser_ok (msgParser s')" "is_open (newMsgEvent s')"
      "event_ready_Win (newMsgEvent s) \<or> (\<exists>f \<in> set fs1. fst f \<noteq> MSG_ASYNC) \<longrightarrow>
         event_ready_Win (newMsgEvent s')" by blast
  have "process_on_CR r s = (Inr (r\<lparr>receivedBytes := buf'\<rparr>), s')"
    using True s'(1) assms(2) by (simp add: process_on_CR_def)
  moreover have "last_read (r\<lparr>receivedBytes := buf'\<rparr>)"
    using True CR(2) s'(3,4) by (auto simp: last_read_def)
  ultimately show ?thesis using s' by blast
next
  case False
  then have "awaits fs (buf @ c) coming" using assms(1,3) awaits_byte [of fs buf] by auto
  moreover have "process_on_CR r s = (Inr (r\<lparr>receivedBytes := buf @ c\<rparr>), s)"
    using False assms(2) by (simp add: process_on_CR_def)
  ultimately show ?thesis
    using assms(2,4,5) last
    by (intro exI [of _ "[]"] exI [of _ fs] exI [of _ "buf @ c"] exI [of _ s]) (simp add: last_read_def)
qed

text \<open>The bytes of an attempt, and the thread when it has been appended.\<close>

definition appended :: "win_reader \<Rightarrow> ustring \<Rightarrow> win_reader \<Rightarrow> bool" where
  "appended r c r' \<longleftrightarrow>
     running r' \<and> bytesTotal r' = length c \<and> receivedBytes r' = receivedBytes r @ c \<and>
     (c = [] \<and> byteRead r' = byteRead r \<or> c = [byteRead r'])"

lemma read_body_appended:
  assumes "idle r" and "delivers a b \<and> c = [b] \<or> runs_out a \<and> c = []"
  shows "\<exists>r'. appended r c r' \<and> read_body a r s =
    (case process_on_CR r' s of (Inl e, s) \<Rightarrow> (Inl e, s)
     | (Inr q, s) \<Rightarrow> (Inr (q\<lparr>fWaitingOnRead := False\<rparr>), s))"
proof (cases "ReadFile_result a")
  case True
  let ?r = "r\<lparr>bytesTotal := read_total a, byteRead := b, receivedBytes := receivedBytes r @ [b]\<rparr>"
  have "c = [b]" "appended r c ?r"
    using True assms by (auto simp: delivers_def runs_out_def appended_def idle_def)
  moreover have "read_body a r s = (case process_on_CR ?r s of (Inl e, s) \<Rightarrow> (Inl e, s)
      | (Inr q, s) \<Rightarrow> (Inr (q\<lparr>fWaitingOnRead := False\<rparr>), s))"
    using True assms
    by (auto simp: delivers_def runs_out_def idle_def read_body_def issue_read_def await_read_def
        Let_def split: prod.split sum.split)
  ultimately show ?thesis by blast
next
  case False
  let ?q = "r\<lparr>fWaitingOnRead := True, bytesTotal := overlapped_total a\<rparr>"
  let ?r = "if c = [] then ?q
    else ?q\<lparr>byteRead := b, receivedBytes := receivedBytes ?q @ [b]\<rparr>"
  have "appended r c ?r"
    using False assms by (auto simp: delivers_def runs_out_def appended_def idle_def)
  moreover have "read_body a r s = await_read a (r\<lparr>bytesTotal := read_total a, fWaitingOnRead := True\<rparr>) s"
    using False assms
    by (auto simp: delivers_def runs_out_def idle_def read_body_def issue_read_def Let_def)
  then have "read_body a r s = (case process_on_CR ?r s of (Inl e, s) \<Rightarrow> (Inl e, s)
      | (Inr q, s) \<Rightarrow> (Inr (q\<lparr>fWaitingOnRead := False\<rparr>), s))"
    using False assms(2) by (auto simp: delivers_def runs_out_def await_read_def Let_def)
  ultimately show ?thesis by blast
qed

lemma read_body_stream:
  assumes "idle r" and "delivers a b \<and> c = [b] \<or> runs_out a \<and> c = []"
    and "awaits fs (receivedBytes r) (c @ coming)"
    and "is_open (newMsgEvent s)" and "parser_ok (msgParser s)" and last: "last_read r"
  shows "\<exists>fs1 fs2 r' s'. read_body a r s = (Inr r', s') \<and> fs = fs1 @ fs2 \<and>
    idle r' \<and> bytesTotal r' = length c \<and> awaits fs2 (receivedBytes r') coming \<and> last_read r' \<and>
    view s' = fold absorb (map piece_of fs1) (view s) \<and>
    is_open (newMsgEvent s') \<and> parser_ok (msgParser s') \<and>
    (event_ready_Win (newMsgEvent s) \<or> (\<exists>f \<in> set fs1. fst f \<noteq> MSG_ASYNC) \<longrightarrow>
       event_ready_Win (newMsgEvent s'))"
proof -
  from read_body_appended [OF assms(1,2)] obtain q where q: "appended r c q"
    "read_body a r s = (case process_on_CR q s of (Inl e, s) \<Rightarrow> (Inl e, s)
       | (Inr q, s) \<Rightarrow> (Inr (q\<lparr>fWaitingOnRead := False\<rparr>), s))" by blast
  have "last_read q" using q(1) last by (auto simp: appended_def last_read_def)
  from process_on_CR_stream [OF assms(3) _ _ assms(4,5) this] q(1) obtain fs1 fs2 buf' s' where
    s': "process_on_CR q s = (Inr (q\<lparr>receivedBytes := buf'\<rparr>), s')"
      "fs = fs1 @ fs2" "awaits fs2 buf' coming" "last_read (q\<lparr>receivedBytes := buf'\<rparr>)"
      "view s' = fold absorb (map piece_of fs1) (view s)"
      "is_open (newMsgEvent s')" "parser_ok (msgParser s')"
      "event_ready_Win (newMsgEvent s) \<or> (\<exists>f \<in> set fs1. fst f \<noteq> MSG_ASYNC) \<longrightarrow>
         event_ready_Win (newMsgEvent s')" by (auto simp: appended_def)
  have "read_body a r s = (Inr (q\<lparr>receivedBytes := buf', fWaitingOnRead := False\<rparr>), s')"
    using q(2) s'(1) by simp
  with s' q(1) show ?thesis
    by (intro exI [of _ fs1] exI [of _ fs2] exI [of _ "q\<lparr>receivedBytes := buf', fWaitingOnRead := False\<rparr>"]
        exI [of _ s']) (simp add: appended_def idle_def last_read_def)
qed

lemma reading_loop_stream:
  "list_all2 delivers as bs \<Longrightarrow> runs_out a \<Longrightarrow> idle r \<Longrightarrow>
   awaits fs (receivedBytes r) (bs @ coming) \<Longrightarrow> is_open (newMsgEvent s) \<Longrightarrow>
   parser_ok (msgParser s) \<Longrightarrow> last_read r \<Longrightarrow>
   \<exists>fs1 fs2 r' s'. reading_loop (as @ [a]) r s = (Inr (True, r'), s') \<and> fs = fs1 @ fs2 \<and>
     idle r' \<and> awaits fs2 (receivedBytes r') coming \<and> last_read r' \<and>
     view s' = fold absorb (map piece_of fs1) (view s) \<and>
     is_open (newMsgEvent s') \<and> parser_ok (msgParser s') \<and>
     (event_ready_Win (newMsgEvent s) \<or> (\<exists>f \<in> set fs1. fst f \<noteq> MSG_ASYNC) \<longrightarrow>
        event_ready_Win (newMsgEvent s'))"
proof (induction as bs arbitrary: fs r s rule: list_all2_induct)
  case Nil
  from read_body_stream [of r a _ "[]" fs coming s] Nil show ?case by fastforce
next
  case (Cons x as b bs)
  from read_body_stream [of r x b "[b]" fs "bs @ coming" s] Cons.hyps(1) Cons.prems
  obtain fs1 fs2 r1 s1 where
    1: "read_body x r s = (Inr r1, s1)" "fs = fs1 @ fs2" "idle r1" "bytesTotal r1 = 1"
      "awaits fs2 (receivedBytes r1) (bs @ coming)" "last_read r1"
      "view s1 = fold absorb (map piece_of fs1) (view s)"
      "is_open (newMsgEvent s1)" "parser_ok (msgParser s1)"
      "event_ready_Win (newMsgEvent s) \<or> (\<exists>f \<in> set fs1. fst f \<noteq> MSG_ASYNC) \<longrightarrow>
         event_ready_Win (newMsgEvent s1)" by auto
  from Cons.IH [OF Cons.prems(1) 1(3,5,8,9,6)] obtain gs1 gs2 r' s' where
    2: "reading_loop (as @ [a]) r1 s1 = (Inr (True, r'), s')" "fs2 = gs1 @ gs2" "idle r'"
      "awaits gs2 (receivedBytes r') coming" "last_read r'"
      "view s' = fold absorb (map piece_of gs1) (view s1)"
      "is_open (newMsgEvent s')" "parser_ok (msgParser s')"
      "event_ready_Win (newMsgEvent s1) \<or> (\<exists>f \<in> set gs1. fst f \<noteq> MSG_ASYNC) \<longrightarrow>
         event_ready_Win (newMsgEvent s')" by blast
  have "reading_loop ((x # as) @ [a]) r s = (Inr (True, r'), s')" using 1(1,4) 2(1) by simp
  with 1(2,7,10) 2(2-) show ?case
    by (intro exI [of _ "fs1 @ gs1"] exI [of _ gs2] exI [of _ r'] exI [of _ s']) auto
qed

lemma running_loop_stream:
  "list_all2 brings script chunks \<Longrightarrow> idle r \<Longrightarrow> awaits fs (receivedBytes r) (concat chunks) \<Longrightarrow>
   is_open (newMsgEvent s) \<Longrightarrow> parser_ok (msgParser s) \<Longrightarrow> last_read r \<Longrightarrow>
   \<exists>s'. running_loop script r s = (Reading [], s') \<and>
     view s' = fold absorb (map piece_of fs) (view s) \<and> is_open (newMsgEvent s') \<and>
     parser_ok (msgParser s') \<and>
     (event_ready_Win (newMsgEvent s) \<or> (\<exists>f \<in> set fs. fst f \<noteq> MSG_ASYNC) \<longrightarrow>
        event_ready_Win (newMsgEvent s'))"
proof (induction script chunks arbitrary: fs r s rule: list_all2_induct)
  case Nil
  then have "fs = [] \<and> receivedBytes r = []" using awaits_end by simp
  with Nil show ?case by (intro exI [of _ s]) (simp add: idle_def)
next
  case (Cons round script bs chunks)
  from Cons.hyps(1) obtain c as a where
    round: "round = (c, as @ [a])" "signalled c" "list_all2 delivers as bs" "runs_out a"
    by (cases round) (auto simp: brings_def)
  from wait_comm_signalled [OF round(2) Cons.prems(1)] obtain r0 where
    r0: "wait_comm c r = Inr r0" "idle r0" "receivedBytes r0 = receivedBytes r" "byteRead r0 = byteRead r"
    by blast
  from reading_loop_stream [OF round(3,4) r0(2), of fs "concat chunks" s] Cons.prems r0(3,4)
  obtain fs1 fs2 r1 s1 where
    1: "reading_loop (as @ [a]) r0 s = (Inr (True, r1), s1)" "fs = fs1 @ fs2" "idle r1"
      "awaits fs2 (receivedBytes r1) (concat chunks)" "last_read r1"
      "view s1 = fold absorb (map piece_of fs1) (view s)"
      "is_open (newMsgEvent s1)" "parser_ok (msgParser s1)"
      "event_ready_Win (newMsgEvent s) \<or> (\<exists>f \<in> set fs1. fst f \<noteq> MSG_ASYNC) \<longrightarrow>
         event_ready_Win (newMsgEvent s1)" by (auto simp: last_read_def)
  from Cons.IH [OF 1(3,4,7,8,5)] obtain s' where
    2: "running_loop script r1 s1 = (Reading [], s')"
      "view s' = fold absorb (map piece_of fs2) (view s1)"
      "is_open (newMsgEvent s')" "parser_ok (msgParser s')"
      "event_ready_Win (newMsgEvent s1) \<or> (\<exists>f \<in> set fs2. fst f \<noteq> MSG_ASYNC) \<longrightarrow>
         event_ready_Win (newMsgEvent s')" by blast
  have "running_loop (round # script) r s = (Reading [], s')"
    using round(1) r0(1) 1(1) 2(1) Cons.prems(1) by (simp add: idle_def)
  with 1(2,6,9) 2(2-) show ?case by (intro exI [of _ s']) auto
qed

subsection \<open>Every behaviour of the port\<close>

text \<open>
  What each piece of the thread keeps, whatever the calls return: the event stays usable, the
  parser intact, the client's part of the object unchanged and, while the buffer has at most
  \<open>n\<close> bytes, the last response one that the decoders can handle.
\<close>

definition keeps :: "nat \<Rightarrow> windows_event impl \<Rightarrow> windows_event impl \<Rightarrow> bool" where
  "keeps n s s' \<longleftrightarrow>
     is_open (newMsgEvent s') \<and> parser_ok (msgParser s') \<and> client_part s' = client_part s \<and>
     (n < 2 ^ 62 \<longrightarrow> response_ok (shown (view s)) \<longrightarrow> response_ok (shown (view s')))"

lemma keeps_refl: "is_open (newMsgEvent s) \<Longrightarrow> parser_ok (msgParser s) \<Longrightarrow> keeps n s s"
  by (simp add: keeps_def)

lemma keeps_trans: "keeps n s t \<Longrightarrow> keeps m t u \<Longrightarrow> n \<le> m \<Longrightarrow> keeps m s u"
  by (auto simp: keeps_def)

lemma keeps_mono: "keeps n s t \<Longrightarrow> n \<le> m \<Longrightarrow> keeps m s t"
  by (auto simp: keeps_def)

lemma process_on_CR_keeps:
  assumes "is_open (newMsgEvent s)" and "parser_ok (msgParser s)"
  obtains q s' where "process_on_CR r s = (Inr q, s')" and "keeps (length (receivedBytes r)) s s'"
    and "length (receivedBytes q) \<le> length (receivedBytes r)"
proof (cases "byteRead r = CR")
  case True
  from win_ev.processAllMessages_refines [OF assms, of "receivedBytes r"] obtain ps b t where
    t: "processAllMessages setMyEvent_Win (receivedBytes r) s = (Inr (), b, t)"
      "framed (receivedBytes r) ps b" "view t = fold absorb ps (view s)"
      "is_open (newMsgEvent t)" "parser_ok (msgParser t)" by blast
  from framed_response_ok [OF t(2), of "view s"]
  have "length (receivedBytes r) < 2 ^ 62 \<longrightarrow> response_ok (shown (view s)) \<longrightarrow> response_ok (shown (view t))"
    by (simp add: t(3))
  with t processAllMessages_client [OF t(1)] have "keeps (length (receivedBytes r)) s t"
    by (simp add: keeps_def)
  moreover have "length b \<le> length (receivedBytes r)" using framed_message_bound [OF t(2)] by simp
  ultimately show thesis using that [of "r\<lparr>receivedBytes := b\<rparr>" t] True t(1) by (simp add: process_on_CR_def)
next
  case False
  then show thesis using that [of r s] keeps_refl [OF assms] by (simp add: process_on_CR_def)
qed

text \<open>An outcome of the thread: an exception that it catches, or the reader with a bounded buffer.\<close>

definition reads :: "nat \<Rightarrow> thrown + win_reader \<Rightarrow> bool" where
  "reads n x \<longleftrightarrow>
     (case x of Inl e \<Rightarrow> is_thrown CDCReceiveException e | Inr r \<Rightarrow> length (receivedBytes r) \<le> n)"

lemma reads_simps [simp]:
  "reads n (Inr r) \<longleftrightarrow> length (receivedBytes r) \<le> n"
  "reads n (Inl (receive_fail l m e))"
  by (simp_all add: reads_def receive_fail_def)

lemma reads_mono: "reads n x \<Longrightarrow> n \<le> m \<Longrightarrow> reads m x"
  by (auto simp: reads_def split: sum.splits)

lemma wait_comm_reads: "reads (length (receivedBytes r)) (wait_comm c r)"
  by (simp add: wait_comm_def split: wait_multiple.split)

lemma read_body_keeps:
  assumes "is_open (newMsgEvent s)" and "parser_ok (msgParser s)" and "read_body a r s = (x, s')"
  shows "keeps (Suc (length (receivedBytes r))) s s' \<and> reads (Suc (length (receivedBytes r))) x"
proof -
  let ?n = "Suc (length (receivedBytes r))"
  have once: "keeps ?n s t \<and> reads ?n y"
    if "length (receivedBytes q) \<le> ?n"
      and "(case process_on_CR q s of (Inl e, s) \<Rightarrow> (Inl e, s)
        | (Inr q, s) \<Rightarrow> (Inr (q\<lparr>fWaitingOnRead := False\<rparr>), s)) = (y, t)" for q y t
  proof -
    from process_on_CR_keeps [OF assms(1,2), of q] obtain q' s1 where
      "process_on_CR q s = (Inr q', s1)" "keeps (length (receivedBytes q)) s s1"
      "length (receivedBytes q') \<le> length (receivedBytes q)" .
    with that keeps_mono [of "length (receivedBytes q)" s s1 ?n] show ?thesis by auto
  qed
  have await: "keeps ?n s t \<and> reads ?n y"
    if "await_read a q s = (y, t)" "receivedBytes q = receivedBytes r" for q y t
  proof (cases "fWaitingOnRead q \<and> read_wait a = READ_OBJECT \<and> read_overlapped a")
    case True
    with that(1) show ?thesis
      by (intro once [of "let r = q\<lparr>bytesTotal := overlapped_total a\<rparr> in
            if overlapped_total a \<noteq> 0
            then r\<lparr>byteRead := overlapped_byte a, receivedBytes := receivedBytes r @ [overlapped_byte a]\<rparr>
            else r"]) (simp_all add: await_read_def Let_def that(2) split: prod.splits sum.splits)
  next
    case False
    with that keeps_refl [OF assms(1,2), of ?n] show ?thesis
      by (auto simp: await_read_def split: if_splits wait_multiple.splits)
  qed
  show ?thesis
  proof (cases "\<not> fWaitingOnRead r \<and> ReadFile_result a")
    case True
    let ?q = "let r = r\<lparr>bytesTotal := read_total a\<rparr>;
          r = (if read_total a \<noteq> 0 then r\<lparr>byteRead := read_byte a\<rparr> else r)
        in r\<lparr>receivedBytes := receivedBytes r @ [byteRead r]\<rparr>"
    have "read_body a r s = (case process_on_CR ?q s of (Inl e, s) \<Rightarrow> (Inl e, s)
        | (Inr q, s) \<Rightarrow> (Inr (q\<lparr>fWaitingOnRead := False\<rparr>), s))"
      using True by (auto simp: read_body_def issue_read_def await_read_def Let_def
          split: prod.splits sum.splits)
    with assms(3) show ?thesis by (intro once [of ?q]) (simp_all add: Let_def)
  next
    case False
    show ?thesis
    proof (cases "\<not> fWaitingOnRead r \<and> read_error a \<noteq> ERROR_IO_PENDING")
      case True
      with False assms(3) keeps_refl [OF assms(1,2)] show ?thesis
        by (auto simp: read_body_def issue_read_def Let_def)
    next
      case pending: False
      let ?q = "if fWaitingOnRead r then r else r\<lparr>bytesTotal := read_total a, fWaitingOnRead := True\<rparr>"
      have "await_read a ?q s = (x, s')"
        using False pending assms(3) by (auto simp: read_body_def issue_read_def Let_def)
      then show ?thesis by (rule await) simp
    qed
  qed
qed

lemma reading_loop_keeps:
  "is_open (newMsgEvent s) \<Longrightarrow> parser_ok (msgParser s) \<Longrightarrow> reading_loop as r s = (x, s') \<Longrightarrow>
   keeps (length (receivedBytes r) + length as) s s' \<and>
   reads (length (receivedBytes r) + length as) (map_sum (\<lambda>e. e) snd x)"
proof (induction as arbitrary: r s)
  case Nil
  then show ?case using keeps_refl [of s] by auto
next
  case (Cons a as)
  obtain y t where y: "read_body a r s = (y, t)" by (cases "read_body a r s")
  note k = read_body_keeps [OF Cons.prems(1,2) y]
  have n: "Suc (length (receivedBytes r)) \<le> length (receivedBytes r) + length (a # as)" by simp
  show ?case
  proof (cases "\<exists>r1. y = Inr r1 \<and> bytesTotal r1 \<noteq> 0")
    case True
    then obtain r1 where r1: "y = Inr r1" "bytesTotal r1 \<noteq> 0" by blast
    with Cons.prems(3) y have run: "reading_loop as r1 t = (x, s')" by simp
    have "is_open (newMsgEvent t)" "parser_ok (msgParser t)" using k by (simp_all add: keeps_def)
    note ih = Cons.IH [OF this run]
    have m: "length (receivedBytes r1) + length as \<le> length (receivedBytes r) + length (a # as)"
      using k r1(1) by simp
    from keeps_trans [OF _ keeps_mono [OF conjunct1 [OF ih] m] n] reads_mono [OF conjunct2 [OF ih] m] k
    show ?thesis by blast
  next
    case False
    with Cons.prems(3) y k keeps_mono [OF _ n] show ?thesis
      by (auto simp: reads_def split: sum.splits)
  qed
qed


lemma caught_receive_Win:
  assumes "is_thrown CDCReceiveException e"
  obtains x where "reader_catch_Win e s = (Returned 1, setReceptionStopped True (setLastReceptionError x s))"
  using assms by (cases e) (auto simp: reader_catch_Win_def caught_by_def)

text \<open>How the thread can stand after a run.\<close>

definition stands :: "reader_status \<Rightarrow> windows_event impl \<Rightarrow> bool" where
  "stands st s \<longleftrightarrow>
     (case st of Reading b \<Rightarrow> True | Terminated e \<Rightarrow> False
      | Returned n \<Rightarrow> n = 0 \<or> n = 1 \<and> receptionStopped s)"

lemma reader_catch_keeps:
  assumes "is_thrown CDCReceiveException e" and "keeps n s t" and "reader_catch_Win e t = (st, s')"
  shows "keeps n s s' \<and> stands st s'"
proof -
  from caught_receive_Win [OF assms(1), of t] assms(3) obtain x where
    "st = Returned 1" "s' = setReceptionStopped True (setLastReceptionError x t)" by (metis prod.inject)
  with assms(2) show ?thesis
    by (simp add: keeps_def stands_def cdc_defs client_part_def view_def)
qed

definition attempts :: "(comm_round \<times> read_attempt list) list \<Rightarrow> nat" where
  "attempts script = sum_list (map (length \<circ> snd) script)"

lemma running_loop_keeps:
  "is_open (newMsgEvent s) \<Longrightarrow> parser_ok (msgParser s) \<Longrightarrow> running_loop script r s = (st, s') \<Longrightarrow>
   keeps (length (receivedBytes r) + attempts script) s s' \<and> stands st s'"
proof (induction script arbitrary: r s)
  case Nil
  then show ?case using keeps_refl [of s] by (auto simp: stands_def split: if_splits)
next
  case (Cons round script)
  obtain c as where round: "round = (c, as)" by (cases round)
  let ?n = "length (receivedBytes r) + attempts (round # script)"
  show ?case
  proof (cases "running r")
    case False
    with Cons.prems round keeps_refl [of s] show ?thesis by (auto simp: stands_def)
  next
    case run: True
    show ?thesis
    proof (cases "wait_comm c r")
      case (Inl e)
      with wait_comm_reads [of r c] have "is_thrown CDCReceiveException e" by (simp add: reads_def)
      from reader_catch_keeps [OF this keeps_refl [OF Cons.prems(1,2)]] Cons.prems(3) run Inl round
      show ?thesis by simp
    next
      case (Inr r0)
      with wait_comm_reads [of r c] have r0: "length (receivedBytes r0) \<le> length (receivedBytes r)" by simp
      obtain x t where x: "reading_loop as r0 s = (x, t)" by (cases "reading_loop as r0 s")
      note k = reading_loop_keeps [OF Cons.prems(1,2) x]
      have n: "length (receivedBytes r0) + length as \<le> ?n" using r0 round by (simp add: attempts_def)
      have kt: "keeps ?n s t" using keeps_mono [OF conjunct1 [OF k] n] .
      show ?thesis
      proof (cases x)
        case Inl2: (Inl e)
        with k have "is_thrown CDCReceiveException e" by (simp add: reads_def)
        from reader_catch_keeps [OF this kt] Cons.prems(3) run Inr round x Inl2
        show ?thesis by simp
      next
        case Inr2: (Inr y)
        then obtain ended r1 where y: "x = Inr (ended, r1)" by (cases y) simp
        show ?thesis
        proof (cases ended)
          case True
          with Cons.prems(3) run Inr round x y have "running_loop script r1 t = (st, s')" by simp
          from Cons.IH [OF _ _ this] k have ih:
            "keeps (length (receivedBytes r1) + attempts script) t s' \<and> stands st s'"
            by (simp add: keeps_def)
          have "length (receivedBytes r1) + attempts script \<le> ?n"
            using k y r0 round by (simp add: attempts_def)
          from keeps_trans [OF kt keeps_mono [OF conjunct1 [OF ih] this]] ih show ?thesis by simp
        next
          case False
          with Cons.prems(3) run Inr round x y kt show ?thesis by (auto simp: stands_def)
        qed
      qed
    qed
  qed
qed


section \<open>Properties\<close>

text \<open>
  C22. No message is lost on Windows either. Let the device send a stream of self-delimiting
  messages, and let its bytes reach the thread one by one, each at once or after an overlapped
  wait, in any number of passes of the outer loop that end with a read that has run out of
  time. Then the thread is still reading, its buffer is empty, and the object is what the
  messages, absorbed one by one in order, make it. There is no bound on the stream.
\<close>

theorem reader_delivers_stream_Win:
  assumes "is_open (newMsgEvent s)" and "parser_ok (msgParser s)" and "is_open (readStartEvent s)"
    and "SetCommMask_result w" and "read_event_created w"
    and "list_all2 on_wire fs ws" and "list_all2 brings script chunks" and "concat chunks = concat ws"
  shows "\<exists>s'. readMsgThread_Win w script s = (Reading [], s') \<and>
    view s' = fold absorb (map piece_of fs) (view s) \<and>
    ((\<exists>f \<in> set fs. fst f \<noteq> MSG_ASYNC) \<longrightarrow> event_ready_Win (newMsgEvent s'))"
proof -
  from assms(3) obtain b where b: "readStartEvent s = Open b" by (elim is_openE)
  let ?s = "s\<lparr>readStartEvent := Open True\<rparr>"
  have "awaits fs (receivedBytes initial_reader) (concat chunks)"
    using awaits_start [OF assms(6)] assms(8) by (simp add: initial_reader_def)
  moreover have "idle initial_reader" "last_read initial_reader"
    by (simp_all add: idle_def initial_reader_def last_read_def)
  ultimately obtain s' where "running_loop script initial_reader ?s = (Reading [], s')"
    "view s' = fold absorb (map piece_of fs) (view ?s)"
    "(\<exists>f \<in> set fs. fst f \<noteq> MSG_ASYNC) \<longrightarrow> event_ready_Win (newMsgEvent s')"
    using running_loop_stream [OF assms(7), of initial_reader fs ?s] assms(1,2) by auto
  with assms(4,5) b show ?thesis by (simp add: readMsgThread_Win_def view_def)
qed

definition sample_object_Win :: "windows_event impl" where
  "sample_object_Win = fresh_object ''COM5'' (Open False)"

text \<open>A byte that is there at once, and a read that runs out of time.\<close>

definition byte_at_once :: "byte \<Rightarrow> read_attempt" where
  "byte_at_once b =
     \<lparr>ReadFile_result = True, read_error = 0, read_total = 1, read_byte = b,
      read_wait = READ_OBJECT, read_overlapped = True, overlapped_total = 0, overlapped_byte = 0\<rparr>"

definition no_more_bytes :: read_attempt where
  "no_more_bytes =
     \<lparr>ReadFile_result = False, read_error = ERROR_IO_PENDING, read_total = 0, read_byte = 0,
      read_wait = READ_OBJECT, read_overlapped = True, overlapped_total = 0, overlapped_byte = 0\<rparr>"

definition arrival :: "ustring \<Rightarrow> comm_round \<times> read_attempt list" where
  "arrival bs =
     (\<lparr>WaitCommEvent_result = True, comm_error = 0, comm_wait = READ_OBJECT,
       comm_overlapped = True, comm_total = 0\<rparr>, map byte_at_once bs @ [no_more_bytes])"

lemma arrival_brings [simp]: "brings (arrival bs) bs"
proof -
  have "list_all2 delivers (map byte_at_once bs) bs"
    by (induction bs) (simp_all add: delivers_def byte_at_once_def)
  then show ?thesis by (simp add: brings_def arrival_def signalled_def runs_out_def no_more_bytes_def)
qed

theorem reader_delivers_stream_Win_witness:
  "\<exists>s'. readMsgThread_Win \<lparr>SetCommMask_result = True, read_event_created = True, start_error = 0\<rparr>
     [arrival [62, 79], arrival [75, 13]] sample_object_Win = (Reading [], s') \<and>
   shown (view s') = (MSG_TEST, crlf ''<OK'') \<and> event_ready_Win (newMsgEvent s')"
proof -
  let ?w = "\<lparr>SetCommMask_result = True, read_event_created = True, start_error = 0\<rparr>"
  have "frame n MSG_TEST (crlf ''<OK'')" for n
    by (rule frame_fixed) (simp add: fixed_frames_def)
  then have w: "list_all2 on_wire [(MSG_TEST, crlf ''<OK'')] [[62, 79, 75, 13]]"
    by (simp add: on_wire_def self_delimiting_def fix_head_def bracket_defs crlf_def)
  have b: "list_all2 brings [arrival [62, 79], arrival [75, 13]] [[62, 79], [75, 13]]" by simp
  have ev: "is_open (newMsgEvent sample_object_Win)" "is_open (readStartEvent sample_object_Win)"
    "parser_ok (msgParser sample_object_Win)"
    by (simp_all add: sample_object_Win_def)
  from reader_delivers_stream_Win [OF ev(1,3,2) _ _ w b, of ?w] show ?thesis by (auto simp: piece_of_def)
qed

text \<open>The whole thread: all that it changes besides is the event of its start.\<close>

lemma readMsgThread_Win_keeps:
  assumes "is_open (newMsgEvent s)" and "parser_ok (msgParser s)"
    and "readMsgThread_Win w script s = (st, s')"
  shows "keeps (attempts script) (s\<lparr>readStartEvent := readStartEvent s'\<rparr>) s' \<and> stands st s'"
proof (cases "SetCommMask_result w \<and> read_event_created w \<and> is_open (readStartEvent s)")
  case True
  then obtain b where b: "readStartEvent s = Open b" by (elim conjE is_openE)
  let ?s = "s\<lparr>readStartEvent := Open True\<rparr>"
  have "running_loop script initial_reader ?s = (st, s')"
    using assms(3) True b by (simp add: readMsgThread_Win_def)
  from running_loop_keeps [OF _ _ this] assms(1,2) have
    k: "keeps (attempts script) ?s s' \<and> stands st s'" by (simp add: initial_reader_def)
  then have "readStartEvent s' = Open True" by (simp add: keeps_def client_part_def)
  with k show ?thesis by simp
next
  case False
  then obtain x where x: "st = Returned 1" "s' = setReceptionStopped True (setLastReceptionError x s)"
    using assms(3) by (cases "readStartEvent s")
      (auto simp: readMsgThread_Win_def reader_catch_Win_def receive_fail_def THROW_EXCEPT_def
        caught_by_def split: if_splits)
  with assms(1,2) show ?thesis
    by (simp add: keeps_def stands_def cdc_defs client_part_def view_def)
qed

text \<open>
  Nothing ends the program on Windows either, a start that fails and a closed \<open>readStartEvent\<close>
  included.
\<close>

lemma reader_never_terminates_Win:
  assumes "is_open (newMsgEvent s)" and "parser_ok (msgParser s)"
    and "readMsgThread_Win w script s = (st, s')"
  shows "(\<forall>e. st \<noteq> Terminated e) \<and> is_open (newMsgEvent s') \<and> parser_ok (msgParser s') \<and>
    (\<forall>n. st = Returned n \<longrightarrow> n = 0 \<or> n = 1 \<and> receptionStopped s') \<and>
    portOutput s' = portOutput s \<and> messageHeaders s' = messageHeaders s \<and>
    (attempts script < 2 ^ 62 \<and> response_ok (shown (view s)) \<longrightarrow> response_ok (shown (view s')))"
  using readMsgThread_Win_keeps [OF assms]
  by (auto simp: keeps_def stands_def client_part_def view_def split: reader_status.splits)

text \<open>
  C26. Sending on Windows. The bytes that reach the port are a prefix of the command's wire
  format, the only exception is \<open>CDCSendException\<close>, \<open>newMsgEvent\<close> is cleared on every path, and
  the reader's part of the object is untouched. The number of bytes that the port has taken does
  not matter to the code: when \<open>WriteFile\<close> succeeds at once the call returns normally, with just
  that many bytes on the port.
\<close>

theorem command_written_Win:
  assumes "headers_ok s" and "transmit_ok s" and "cmd_msgType c \<noteq> MSG_ERROR"
    and "is_open (newMsgEvent s)" and "sendCommand_Win w c s = (r, s')"
  shows "(\<exists>k \<le> length (wire_of c). portOutput s' = portOutput s @ take k (wire_of c)) \<and>
    (\<forall>e. r = Inl e \<longrightarrow> is_thrown CDCSendException e) \<and>
    newMsgEvent s' = Open False \<and> view s' = view s \<and> headers_ok s' \<and> transmit_ok s' \<and>
    (send_event_created w \<and> WriteFile_result w \<and> \<not> too_large c \<longrightarrow>
       r = Inr () \<and> portOutput s' = portOutput s @ take (bytesWritten w) (wire_of c))"
proof -
  from assms(4) obtain b where ev: "newMsgEvent s = Open b" by (elim is_openE)
  let ?s = "s\<lparr>newMsgEvent := Open False\<rparr>"
  have h: "headers_ok ?s" "transmit_ok ?s" using assms(1,2) by (simp_all add: headers_ok_def transmit_ok_def)
  have out: "map the (take (bytesWritten w) (transmitted \<lparr>buff_len = length (wire_of c)\<rparr>
      (store_transmit (wire_of c) ?s))) = take (bytesWritten w) (wire_of c)"
    using h(2) by (simp add: transmitted_def take_map [symmetric] comp_def)
  have "r = Inr () \<and> portOutput s' = portOutput s @ take (bytesWritten w) (wire_of c)"
    if "send_event_created w" "WriteFile_result w" "\<not> too_large c"
    using assms(5) that ev
    by (auto simp: sendCommand_Win_def commandToBuffer_eq [OF h(1) assms(3)] Let_def out)
  with sendCommand_Win_outcome [OF assms] show ?thesis by blast
qed

theorem command_written_Win_witness:
  "\<exists>s'. sendCommand_Win \<lparr>send_event_created = True, WriteFile_result = True, bytesWritten = 2,
      send_error = 0, send_waitResult = WAIT_FAILED, send_overlapped = False\<rparr>
      (constructCommand MSG_RES_TR []) sample_object_Win = (Inr (), s') \<and> portOutput s' = [62, 82]"
proof -
  let ?w = "\<lparr>send_event_created = True, WriteFile_result = True, bytesWritten = 2,
      send_error = 0, send_waitResult = WAIT_FAILED, send_overlapped = False\<rparr>"
  let ?c = "constructCommand MSG_RES_TR []"
  have w: "wire_of ?c = [62, 82, 84, 13]" by (simp add: constructCommand_def wire_of_def payload_def)
  obtain r s' where run: "sendCommand_Win ?w ?c sample_object_Win = (r, s')"
    by (cases "sendCommand_Win ?w ?c sample_object_Win")
  have ok: "headers_ok sample_object_Win" "transmit_ok sample_object_Win"
    "is_open (newMsgEvent sample_object_Win)" "portOutput sample_object_Win = []"
    "cmd_msgType ?c \<noteq> MSG_ERROR"
    by (simp_all add: sample_object_Win_def constructCommand_def)
  have "\<not> too_large ?c" by (simp add: too_large_def carries_data_def constructCommand_def)
  with command_written_Win [OF ok(1,2,5,3) run] run ok(4) w show ?thesis by simp
qed

text \<open>
  C27. Opening the port on Windows succeeds if and only if all five calls succeed, and then the
  port is set to 8 bits without parity and with one stop bit at 57600 baud, the rest of its
  control block unchanged, with the time limits of the code. Its name is the parameter behind
  the device prefix, also when the parameter is empty: the default \<open>COM1\<close> is never used. Every
  failure is a \<open>CDCImplException\<close>.
\<close>

theorem port_settings_Win:
  "case openPort_Win w portName of
     Inl e \<Rightarrow> is_thrown CDCImplException e \<and>
       \<not> (CreateFile_result w \<noteq> None \<and> GetCommState_result w \<noteq> None \<and> SetCommState_result w \<and>
          GetCommTimeouts_result w \<noteq> None \<and> SetCommTimeouts_result w)
   | Inr p \<Rightarrow> \<exists>h dcb t. CreateFile_result w = Some h \<and> GetCommState_result w = Some dcb \<and>
       SetCommState_result w \<and> GetCommTimeouts_result w = Some t \<and> SetCommTimeouts_result w \<and>
       p = \<lparr>opened_name = [CHR 0x5C, CHR 0x5C, CHR ''.'', CHR 0x5C] @ portName, opened_handle = h,
            opened_dcb = \<lparr>DCBlength = DCBlength dcb, BaudRate = 57600, ByteSize = 8, Parity = 0, StopBits = 0\<rparr>,
            opened_timeouts = \<lparr>ReadIntervalTimeout = 50, ReadTotalTimeoutConstant = 50,
              ReadTotalTimeoutMultiplier = 10, WriteTotalTimeoutConstant = 50,
              WriteTotalTimeoutMultiplier = 10\<rparr>\<rparr>"
proof -
  have eq: "t\<lparr>ReadIntervalTimeout := a, ReadTotalTimeoutConstant := b, ReadTotalTimeoutMultiplier := c,
      WriteTotalTimeoutConstant := d, WriteTotalTimeoutMultiplier := e\<rparr> =
    \<lparr>ReadIntervalTimeout = a, ReadTotalTimeoutConstant = b, ReadTotalTimeoutMultiplier = c,
      WriteTotalTimeoutConstant = d, WriteTotalTimeoutMultiplier = e\<rparr>" for t :: win_timeouts and a b c d e
    by simp
  have eq2: "t\<lparr>BaudRate := a, ByteSize := b, Parity := c, StopBits := d\<rparr> =
    \<lparr>DCBlength = DCBlength t, BaudRate = a, ByteSize = b, Parity = c, StopBits = d\<rparr>"
    for t :: win_dcb and a b c d by simp
  show ?thesis
    by (simp add: openPort_Win_def getCompletePortName_def Let_def eq eq2 CBR_57600_def
        NOPARITY_def ONESTOPBIT_def split: option.splits)
qed

end
