(* ===== verification/Windows_Client.thy ===== *)
theory Windows_Client
  imports Api Windows_Port
begin

text \<open>
  The public interface on Windows: the platform record built from \<open>sendCommand\<close>,
  \<open>waitForMyEvent\<close> and the reading thread of theory \<open>Windows_Port\<close>, the proof that it keeps
  the contract \<open>command_channel\<close>, and what follows for a client.
\<close>

section \<open>The platform\<close>

text \<open>A script with more reads than bytes can be in memory brings none.\<close>

definition reads_on_Win ::
  "win_reader \<Rightarrow> (comm_round \<times> read_attempt list) list \<Rightarrow> windows_event impl \<Rightarrow> windows_event impl" where
  "reads_on_Win r script s =
     (if length (receivedBytes r) + attempts script < 2 ^ 62 then snd (running_loop script r s) else s)"

text \<open>
  The reading thread works while the client waits, and not between the end of the wait and the
  decoding of the response.
\<close>

definition windows_platform ::
  "win_send \<Rightarrow> win_reader \<Rightarrow> (comm_round \<times> read_attempt list) list \<Rightarrow> windows_event platform" where
  "windows_platform w r script =
     \<lparr>send_of = sendCommand_Win w,
      wait_of = wait_Win,
      reader_of = reads_on_Win r script,
      woken_of = (\<lambda>s. s),
      checked_of = (\<lambda>s. s)\<rparr>"

text \<open>
  The reading thread works all the time, as in theory \<open>Linux_Client\<close>; the wait may fail with the
  error \<open>lastError\<close>.
\<close>

definition waits_Win :: "nat option \<Rightarrow> windows_event \<Rightarrow> thrown + windows_event" where
  "waits_Win failed e =
     (case failed of
        None \<Rightarrow> wait_Win e
      | Some lastError \<Rightarrow> bindE (waitForMyEvent_Win WAIT_FAILED lastError e) (\<lambda>(r, e'). Inr e'))"

definition windows_concurrent ::
  "win_send \<Rightarrow> nat option \<Rightarrow> win_reader \<Rightarrow> (comm_round \<times> read_attempt list) list \<Rightarrow>
     win_reader \<Rightarrow> (comm_round \<times> read_attempt list) list \<Rightarrow>
     win_reader \<Rightarrow> (comm_round \<times> read_attempt list) list \<Rightarrow> windows_event platform" where
  "windows_concurrent w failed r script r' script' r'' script'' =
     \<lparr>send_of = sendCommand_Win w,
      wait_of = waits_Win failed,
      reader_of = reads_on_Win r script,
      woken_of = reads_on_Win r' script',
      checked_of = reads_on_Win r'' script''\<rparr>"

definition stores_nothing_Win :: "win_reader \<Rightarrow> (comm_round \<times> read_attempt list) list \<Rightarrow> bool" where
  "stores_nothing_Win r script \<longleftrightarrow>
     (\<forall>s. good_object s \<longrightarrow> last_shown (reads_on_Win r script s) = last_shown s)"

lemma good_object_iff:
  "good_object (s :: windows_event impl) \<longleftrightarrow>
     headers_ok s \<and> transmit_ok s \<and> is_open (newMsgEvent s) \<and> is_open (readEndEvent s) \<and>
     parser_ok (msgParser s) \<and> response_ok (shown (view s))"
  by (simp add: good_object_def)

lemma keeps_good:
  assumes "good_object s" and "keeps n s s'" and "n < 2 ^ 62"
  shows "good_object s'"
proof -
  have "headers_ok s' = headers_ok s \<and> transmit_ok s' = transmit_ok s \<and> readEndEvent s' = readEndEvent s"
    using assms(2) by (simp add: keeps_def client_part_def headers_ok_def transmit_ok_def)
  with assms show ?thesis by (simp add: good_object_iff keeps_def)
qed

lemma reads_on_Win_good:
  assumes g: "good_object s"
  shows "good_object (reads_on_Win r script s)"
proof -
  obtain st s' where run: "running_loop script r s = (st, s')" by (cases "running_loop script r s")
  from running_loop_keeps [OF _ _ run] g have
    "keeps (length (receivedBytes r) + attempts script) s s'" by (simp add: good_object_iff)
  with g run show ?thesis using keeps_good [OF g] by (simp add: reads_on_Win_def)
qed

lemma waits_Win_good:
  assumes "good_object s"
  shows "case waits_Win failed (newMsgEvent s) of
    Inl e \<Rightarrow> is_thrown CDCReceiveException e | Inr ev \<Rightarrow> good_object (s\<lparr>newMsgEvent := ev\<rparr>)"
proof (cases failed)
  case None
  from assms have open_ev: "is_open (newMsgEvent s)" by (simp add: good_object_def)
  show ?thesis
  proof (cases "event_ready_Win (newMsgEvent s)")
    case True
    from win_ev.wait_ready [OF open_ev True] obtain ev where
      "wait_Win (newMsgEvent s) = Inr ev" "is_open ev" by blast
    with assms None show ?thesis by (simp add: waits_Win_def)
  next
    case False
    from win_ev.wait_unready [OF open_ev False] None show ?thesis by (auto simp: waits_Win_def)
  qed
qed (simp add: waits_Win_def waitForMyEvent_Win_def)

lemma channel_Win:
  assumes "stores_nothing_Win r'' script''"
  shows "command_channel (windows_concurrent w failed r script r' script' r'' script'') good_object"
    (is "command_channel ?P _")
proof (rule command_channel.intro)
  fix s c x and s' :: "windows_event impl"
  assume "good_object s" "cmd_msgType c \<noteq> MSG_ERROR" "send_of ?P c s = (x, s')"
  then have a: "headers_ok s" "transmit_ok s" "cmd_msgType c \<noteq> MSG_ERROR" "is_open (newMsgEvent s)"
    "sendCommand_Win w c s = (x, s')" "good_object s"
    by (simp_all add: good_object_iff windows_concurrent_def)
  from sendCommand_Win_outcome [OF a(1-5)] a(6) show
    "good_object s' \<and> (\<forall>e. x = Inl e \<longrightarrow> is_thrown CDCSendException e \<or> e = NotReturned)"
    by (auto simp: good_object_iff)
next
  fix s :: "windows_event impl"
  assume g: "good_object s"
  then show "good_object (reader_of ?P s)" "good_object (woken_of ?P s)"
    by (simp_all add: windows_concurrent_def reads_on_Win_good)
  from g assms show "good_object (checked_of ?P s) \<and> last_shown (checked_of ?P s) = last_shown s"
    by (simp add: windows_concurrent_def reads_on_Win_good stores_nothing_Win_def)
  from g show "case wait_of ?P (newMsgEvent s) of
      Inl e \<Rightarrow> is_thrown CDCReceiveException e | Inr ev \<Rightarrow> good_object (s\<lparr>newMsgEvent := ev\<rparr>)"
    using waits_Win_good [of s failed] by (simp add: windows_concurrent_def)
  from g show "response_ok (last_shown s) \<and> parser_ok (msgParser s)" by (simp add: good_object_def)
qed

lemma no_passes: "running r \<Longrightarrow> reads_on_Win r [] s = s"
  by (simp add: reads_on_Win_def)

lemma windows_platform_sequential:
  "windows_platform w r script = windows_concurrent w None r script initial_reader [] initial_reader []"
  by (simp add: windows_platform_def windows_concurrent_def waits_Win_def fun_eq_iff no_passes
      initial_reader_def)

interpretation win: command_channel
  "windows_platform w r script" "good_object :: windows_event impl \<Rightarrow> bool"
  unfolding windows_platform_sequential
  by (rule channel_Win) (simp add: stores_nothing_Win_def no_passes initial_reader_def)

section \<open>Properties\<close>

lemma sample_object_Win_good: "good_object sample_object_Win"
  unfolding sample_object_Win_def by (rule good_fresh_object)


definition write_ok :: "nat \<Rightarrow> win_send" where
  "write_ok n =
     \<lparr>send_event_created = True, WriteFile_result = True, bytesWritten = n, send_error = 0,
      send_waitResult = WAIT_OBJECT_0, send_overlapped = True\<rparr>"

lemma send_write_ok:
  assumes "good_object s" and "cmd_msgType c \<noteq> MSG_ERROR" and "\<not> too_large c"
  obtains s1 where "sendCommand_Win (write_ok n) c s = (Inr (), s1)"
proof -
  from assms(1) obtain b where ev: "newMsgEvent s = Open b"
    by (auto simp: good_object_def elim: is_openE)
  have "headers_ok (s\<lparr>newMsgEvent := Open False\<rparr>)"
    using assms(1) by (simp add: good_object_def headers_ok_def)
  from commandToBuffer_eq [OF this assms(2)] assms(3) ev show thesis
    by (intro that) (simp add: sendCommand_Win_def write_ok_def Let_def)
qed


end
