(* ===== verification/Interface_Outcomes.thy ===== *)
theory Interface_Outcomes
  imports Linux_Client Windows_Client
begin

text \<open>
  How the methods of the public interface end, on both platforms, with the reading thread at work
  all the time.
\<close>

section \<open>Rounds that store no response\<close>

text \<open>Asynchronous messages are passed to the listener and leave the last response alone.\<close>

lemma shown_asyncs: "\<forall>f \<in> set fs. fst f = MSG_ASYNC \<Longrightarrow> shown (fold absorb (map piece_of fs) v) = shown v"
  using shown_absorb [of "map piece_of fs" v] by (auto simp: piece_of_def)

lemma asyncs_store_nothing:
  assumes "list_all2 on_wire fs ws" and "concat chunks = concat ws" and "length (concat ws) < 2 ^ 31"
    and "\<forall>f \<in> set fs. fst f = MSG_ASYNC"
  shows "stores_nothing_Lin [] (map data_round chunks)"
  unfolding stores_nothing_Lin_def
proof (intro allI impI)
  fix s :: "linux_event impl"
  assume "good_object s"
  then have "is_open (newMsgEvent s)" "parser_ok (msgParser s)" by (simp_all add: good_object_def)
  moreover have "awaits fs [] (concat chunks)" using awaits_start [OF assms(1)] assms(2) by simp
  ultimately obtain s' where s': "reader_loop (map data_round chunks) [] s = (Reading [], s')"
    "view s' = fold absorb (map piece_of fs) (view s)"
    using reader_loop_stream [of fs "[]" chunks s] assms(2,3) by auto
  from s'(2) have "last_shown s' = last_shown s"
    using shown_asyncs [OF assms(4)] last_shown_simps(2) by metis
  with s'(1) show "last_shown (reads_on_Lin [] (map data_round chunks) s) = last_shown s"
    by (simp add: reads_on_Lin_def)
qed

section \<open>Property\<close>

text \<open>
  C4. The methods keep what their header documents. On both platforms, for every result of the
  system calls, whatever the device sends and whatever the reading thread does before the call,
  while the client waits, and until it looks at the type of the response: as long as no response
  is stored after that look and before the decoding, every method of the public interface, the
  overloads on pointers included, returns a value or throws a \<open>CDCSendException\<close> or
  \<open>CDCReceiveException\<close> (or is still in a system call), and the object is good afterwards, so this
  holds for every sequence of calls. \<open>getTRModuleInfo\<close> does not return NULL. The overloads on
  pointers are called with readable memory of the given lengths; the one of \<open>upload\<close> needs a zero
  byte in it besides, and otherwise reads beyond it. (What a response stored between the look
  and the decoding can do is the subject of the properties on two threads.)
\<close>

theorem api_outcomes:
  assumes "good_object s" and "stores_nothing_Lin b'' r''"
    and "good_object s'" and "stores_nothing_Win q'' v''"
  shows "every_method good_object (linux_concurrent h script failed b r b' r' b'' r'') s \<and>
    good_object (registerAsyncMsgListener l s) \<and> good_object (unregisterAsyncMsgListener s) \<and>
    every_method good_object (windows_concurrent w failed' q v q' v' q'' v'') s' \<and>
    good_object (registerAsyncMsgListener l s') \<and> good_object (unregisterAsyncMsgListener s')"
  using command_channel.interface_proper [OF channel_Lin [OF assms(2)] assms(1)]
    command_channel.interface_proper [OF channel_Win [OF assms(4)] assms(3)]
    good_object_listener [OF assms(1)] good_object_listener [OF assms(3)]
  by simp

text \<open>An asynchronous message arrives between the look at the type and the decoding.\<close>

lemma sample_async: "on_wire (MSG_ASYNC, [60, 68, 82, 1, 58, 7, 13]) [60, 68, 82, 1, 58, 7, 13]"
proof -
  have "frame n MSG_ASYNC (uchar_str ''<DR'' @ [1] @ uchar_str '':'' @ [7] @ [CR])" for n
    by (rule frame_async) simp_all
  then show ?thesis by (simp add: on_wire_def self_delimiting_def fix_head_def bracket_defs)
qed

theorem api_outcomes_witness:
  "every_method good_object (linux_concurrent 3 [] (Some 4) [60] [data_round [13]] [60] []
     [] (map data_round [[60, 68, 82], [1, 58, 7, 13]])) sample_object \<and>
   every_method good_object (windows_concurrent (write_ok 3) None initial_reader [arrival [60, 83, 13]]
     initial_reader [] initial_reader []) sample_object_Win"
proof -
  have "stores_nothing_Lin [] (map data_round [[60, 68, 82], [1, 58, 7, 13]])"
    using asyncs_store_nothing [of "[(MSG_ASYNC, [60, 68, 82, 1, 58, 7, 13])]" "[[60, 68, 82, 1, 58, 7, 13]]"
        "[[60, 68, 82], [1, 58, 7, 13]]"] sample_async by simp
  moreover have "stores_nothing_Win initial_reader []"
    by (simp add: stores_nothing_Win_def no_passes initial_reader_def)
  ultimately show ?thesis
    using api_outcomes [OF sample_object_good _ sample_object_Win_good] by blast
qed

end
