(* ===== verification/Hex_File.thy ===== *)
theory Hex_File
  imports Cdc_Prelude
begin

text \<open>
  What the programs that read text files of hexadecimal digits share
  (\<open>src/examples/PgmHex/PgmHex.cpp\<close>, \<open>src/examples/PgmIqrf/PgmIqrf.cpp\<close>): reading a character
  and converting two of them to a number, and the inverse of this conversion. A file is the
  list of its bytes that have not been read. \<open>tolower\<close> is that of the C locale,
  which leaves the bytes above 127 alone (their \<open>char\<close> is negative where it is signed).
\<close>

unbundle bit_operations_syntax

section \<open>Definitions\<close>

fun iqrfReadByteFromFile :: "ustring \<Rightarrow> byte \<times> ustring" where
  "iqrfReadByteFromFile [] = (0, [])"
| "iqrfReadByteFromFile (c # file) = (c, file)"

definition tolower :: "byte \<Rightarrow> byte" where
  "tolower c = (if 0x41 \<le> c \<and> c \<le> 0x5A then c + 0x20 else c)"

definition iqrfPgmConvertToNum :: "byte \<Rightarrow> byte \<Rightarrow> byte" where
  "iqrfPgmConvertToNum dataByteHi dataByteLo =
     (let result = 0;
          result = (if 0x30 \<le> dataByteHi \<and> dataByteHi \<le> 0x39 then push_bit 4 (dataByteHi - 0x30)
                    else if 0x61 \<le> dataByteHi \<and> dataByteHi \<le> 0x66
                    then push_bit 4 (dataByteHi - 87)
                    else result)
      in if 0x30 \<le> dataByteLo \<and> dataByteLo \<le> 0x39 then result OR (dataByteLo - 0x30)
         else if 0x61 \<le> dataByteLo \<and> dataByteLo \<le> 0x66 then result OR (dataByteLo - 87)
         else result)"

section \<open>The inverse\<close>

definition hex_digit :: "bool \<Rightarrow> nat \<Rightarrow> byte" where
  "hex_digit upper n = (if n < 10 then of_nat (48 + n) else of_nat ((if upper then 55 else 87) + n))"

definition hex_byte :: "bool \<Rightarrow> byte \<Rightarrow> ustring" where
  "hex_byte upper b = [hex_digit upper (unat b div 16), hex_digit upper (unat b mod 16)]"

definition hex_text :: "bool \<Rightarrow> ustring \<Rightarrow> ustring" where
  "hex_text upper bs = concat (map (hex_byte upper) bs)"

lemma hex_text_simps [simp]:
  "hex_text u [] = []" "hex_text u (b # bs) = hex_byte u b @ hex_text u bs"
  "hex_text u (bs @ cs) = hex_text u bs @ hex_text u cs"
  by (simp_all add: hex_text_def)

lemma length_hex_text [simp]: "length (hex_text u bs) = 2 * length bs"
  by (induction bs) (simp_all add: hex_byte_def)

text \<open>The value of a digit, which the conversion combines by shift and or.\<close>

definition digit_value :: "byte \<Rightarrow> byte" where
  "digit_value c =
     (if 0x30 \<le> c \<and> c \<le> 0x39 then c - 0x30 else if 0x61 \<le> c \<and> c \<le> 0x66 then c - 87 else 0)"

lemma convert_digit_value:
  "iqrfPgmConvertToNum hi lo = push_bit 4 (digit_value hi) OR digit_value lo"
  by (simp add: iqrfPgmConvertToNum_def digit_value_def Let_def)

text \<open>What is checked of the 32 digits.\<close>

definition digit_checks :: "bool \<Rightarrow> nat \<Rightarrow> bool" where
  "digit_checks u n \<longleftrightarrow>
     (let c = tolower (hex_digit u n) in
      c \<noteq> 10 \<and> c \<noteq> 13 \<and> c \<noteq> 0 \<and> c \<noteq> 0x23 \<and> hex_digit u n \<noteq> 0 \<and> hex_digit u n \<noteq> 0x3A \<and>
      digit_value c = of_nat n)"

lemma digits_checked: "list_all (\<lambda>n. digit_checks False n \<and> digit_checks True n) [0..<16]"
  by code_simp

lemma digit_checked: "n < 16 \<Longrightarrow> digit_checks u n"
  using digits_checked by (cases u) (auto simp: list_all_iff)

lemma hex_digit_codes:
  assumes "n < 16"
  shows "hex_digit u n \<noteq> 0" "tolower (hex_digit u n) \<noteq> 10" "tolower (hex_digit u n) \<noteq> 13"
    "tolower (hex_digit u n) \<noteq> 0" "hex_digit u n \<noteq> 0x3A" "tolower (hex_digit u n) \<noteq> 0x23"
    "digit_value (tolower (hex_digit u n)) = of_nat n"
  using digit_checked [OF assms, of u] by (simp_all add: digit_checks_def Let_def)

lemma high_digit: "unat (b :: byte) div 16 < 16"
proof -
  have "unat b < 256" using unsigned_less [of b] by simp
  then show ?thesis by simp
qed

text \<open>Two digits read back are the byte.\<close>

lemma convert_hex_byte [simp]:
  "iqrfPgmConvertToNum (tolower (hex_digit u (unat b div 16))) (tolower (hex_digit u (unat b mod 16))) = b"
proof -
  have "unat (drop_bit 4 b) = unat b div 16" by (subst unat_drop_bit_eq) (simp add: drop_bit_eq_div)
  then have "of_nat (unat b div 16) = drop_bit 4 b" by (metis of_nat_unat unsigned_ucast_eq ucast_id)
  moreover have "unat (take_bit 4 b) = unat b mod 16" by (subst unsigned_take_bit_eq) (simp add: take_bit_eq_mod)
  then have "of_nat (unat b mod 16) = take_bit 4 b" by (metis of_nat_unat unsigned_ucast_eq ucast_id)
  moreover have "push_bit 4 (drop_bit 4 b) OR take_bit 4 b = b"
    by (rule bit_word_eqI) (auto simp: bit_simps)
  ultimately show ?thesis
    using high_digit [of b] by (simp add: convert_digit_value hex_digit_codes)
qed

end
