(* ===== verification/Pgm_Hex.thy ===== *)
theory Pgm_Hex
  imports Hex_File Cdc_Exceptions
begin

text \<open>
  The hex file programmer (\<open>src/examples/PgmHex/PgmHex.cpp\<close>): reading the lines of an Intel
  hex file, collecting their data into the image of a memory block, and the loop that uploads
  each image when the data of another block follow. The global variables of the program are
  the record \<open>hex_pgm\<close>; flags of type \<open>uint8_t\<close> that hold 0 or 1 are booleans. Accesses to
  the two arrays with a computed index are checked: one outside of the array is
  \<open>UndefinedBehaviour\<close>.
\<close>

unbundle bit_operations_syntax

section \<open>Constants and state\<close>

datatype pgm_result =
    IQRF_PGM_SUCCESS
  | IQRF_PGM_FLASH_BLOCK_READY
  | IQRF_PGM_EEPROM_BLOCK_READY
  | IQRF_PGM_EEEPROM_BLOCK_READY
  | IQRF_PGM_ERROR

datatype line_result =
    IQRF_PGM_FILE_DATA_READY
  | IQRF_PGM_FILE_DATA_ERROR
  | IQRF_PGM_END_OF_FILE

definition SERIAL_EEPROM_MIN_ADR :: nat where "SERIAL_EEPROM_MIN_ADR = 0x0200"
definition SERIAL_EEPROM_MAX_ADR :: nat where "SERIAL_EEPROM_MAX_ADR = 0x09FF"
definition IQRF_LICENCED_MEM_MIN_ADR :: nat where "IQRF_LICENCED_MEM_MIN_ADR = 0x2C00"
definition IQRF_LICENCED_MEM_MAX_ADR :: nat where "IQRF_LICENCED_MEM_MAX_ADR = 0x37BF"
definition IQRF_MAIN_MEM_MIN_ADR :: nat where "IQRF_MAIN_MEM_MIN_ADR = 0x3A00"
definition IQRF_MAIN_MEM_MAX_ADR :: nat where "IQRF_MAIN_MEM_MAX_ADR = 0x3FFF"
definition PIC16LF1938_EEPROM_MIN :: nat where "PIC16LF1938_EEPROM_MIN = 0xF000"
definition PIC16LF1938_EEPROM_MAX :: nat where "PIC16LF1938_EEPROM_MAX = 0xF0FF"
definition SIZE_OF_CODE_LINE_BUFFER :: nat where "SIZE_OF_CODE_LINE_BUFFER = 64"

definition TARGET_FLASH_W :: byte where "TARGET_FLASH_W = 0x85"
definition TARGET_EEPROM_W :: byte where "TARGET_EEPROM_W = 0x86"
definition TARGET_EEEPROM_W :: byte where "TARGET_EEEPROM_W = 0x87"

record PREPARE_MEM_BLOCK =
  HiAddress :: "32 word"
  Address :: "16 word"
  MemoryBlockNumber :: "16 word"
  MemoryBlockProcessState :: byte
  DataInBufferReady :: bool
  DataOverflow :: bool
  MemoryBlock :: "byte list"

record hex_pgm = PREPARE_MEM_BLOCK +
  IqrfPgmCodeLineBuffer :: "byte list"
  hexFile :: ustring

text \<open>The size of \<open>MemoryBlock\<close>, and the variables when the program starts.\<close>

definition MEMORY_BLOCK_SIZE :: nat where "MEMORY_BLOCK_SIZE = 68"

definition initial_pgm :: "ustring \<Rightarrow> hex_pgm" where
  "initial_pgm file =
     \<lparr>HiAddress = 0, Address = 0, MemoryBlockNumber = 0, MemoryBlockProcessState = 0,
      DataInBufferReady = False, DataOverflow = False, MemoryBlock = replicate MEMORY_BLOCK_SIZE 0,
      IqrfPgmCodeLineBuffer = replicate SIZE_OF_CODE_LINE_BUFFER 0, hexFile = file\<rparr>"

type_synonym 'a checked = "thrown + 'a"

section \<open>Reading a line\<close>

text \<open>The search for the colon: the character found, 0 at the end of the file.\<close>

fun find_start :: "ustring \<Rightarrow> byte \<times> ustring" where
  "find_start [] = (0, [])"
| "find_start (Sign # file) = (if Sign \<noteq> 0 \<and> Sign \<noteq> 0x3A then find_start file else (Sign, file))"

text \<open>The reading loop, with \<open>CodeLineBufferPtr\<close> and \<open>CodeLineBufferCrc\<close>.\<close>

function read_line_data ::
  "nat \<Rightarrow> byte \<Rightarrow> byte list \<Rightarrow> ustring \<Rightarrow> line_result \<times> byte list \<times> ustring" where
  "read_line_data CodeLineBufferPtr CodeLineBufferCrc buf file =
     (let (c, file) = iqrfReadByteFromFile file; DataByteHi = tolower c in
      if DataByteHi = 0x0A \<or> DataByteHi = 0x0D then
        (if CodeLineBufferCrc \<noteq> 0 then IQRF_PGM_FILE_DATA_ERROR else IQRF_PGM_FILE_DATA_READY,
         buf, file)
      else
        (let (c, file) = iqrfReadByteFromFile file;
             DataByteLo = tolower c;
             DataByte = iqrfPgmConvertToNum DataByteHi DataByteLo;
             CodeLineBufferCrc = CodeLineBufferCrc + DataByte;
             buf = buf[CodeLineBufferPtr := DataByte];
             CodeLineBufferPtr = CodeLineBufferPtr + 1
         in if CodeLineBufferPtr \<ge> SIZE_OF_CODE_LINE_BUFFER then (IQRF_PGM_FILE_DATA_ERROR, buf, file)
            else read_line_data CodeLineBufferPtr CodeLineBufferCrc buf file))"
  by pat_completeness auto
termination
  by (relation "measure (\<lambda>(p, c, b, f). SIZE_OF_CODE_LINE_BUFFER - p)") auto

declare read_line_data.simps [simp del]

definition iqrfPgmReadHEXFileLine :: "hex_pgm \<Rightarrow> line_result \<times> hex_pgm" where
  "iqrfPgmReadHEXFileLine s =
     (let (Sign, file) = find_start (hexFile s) in
      if Sign = 0 then (IQRF_PGM_END_OF_FILE, s\<lparr>hexFile := file\<rparr>)
      else
        (let (r, buf, file) = read_line_data 0 0 (IqrfPgmCodeLineBuffer s) file
         in (r, s\<lparr>IqrfPgmCodeLineBuffer := buf, hexFile := file\<rparr>)))"

section \<open>The image of a block\<close>

definition low_byte :: "nat \<Rightarrow> byte" where "low_byte n = of_nat (n mod 256)"
definition high_byte :: "nat \<Rightarrow> byte" where "high_byte n = of_nat (n div 256)"

text \<open>\<open>MemBlock\<close> is a \<open>uint16_t\<close>; its values are written as natural numbers below 2^16.\<close>

definition iqrfPgmMoveOverflowedData :: "hex_pgm \<Rightarrow> hex_pgm" where
  "iqrfPgmMoveOverflowedData s =
     (let b = take 34 (MemoryBlock s) @ take 34 (MemoryBlock s);
          b = replicate 34 0 @ drop 34 b;
          MemBlock = unat (b ! 35) * 256 + unat (b ! 34);
          MemBlock = MemBlock div 32;
          s = s\<lparr>MemoryBlockNumber := of_nat (MemBlock + 0x10)\<rparr>;
          MemBlock = (MemBlock + 1) * 32 mod 0x10000;
          b = b[0 := low_byte MemBlock];
          b = b[1 := high_byte MemBlock]
      in s\<lparr>MemoryBlock := b, DataOverflow := False, MemoryBlockProcessState := 1\<rparr>)"

definition block_ready :: "hex_pgm \<Rightarrow> pgm_result" where
  "block_ready s =
     (if MemoryBlockNumber s < 80 then IQRF_PGM_EEEPROM_BLOCK_READY else IQRF_PGM_FLASH_BLOCK_READY)"

text \<open>The copying loop for serial EEPROM: every second byte, around the end of the image.\<close>

fun copy_serial ::
  "byte list \<Rightarrow> nat \<Rightarrow> nat \<Rightarrow> nat \<Rightarrow> byte list \<Rightarrow> byte list checked" where
  "copy_serial line Cnt 0 DestinationIndex block = Inr block"
| "copy_serial line Cnt (Suc n) DestinationIndex block =
     (if length line \<le> 2 * Cnt + 4 \<or> length block \<le> DestinationIndex then Inl UndefinedBehaviour
      else
        (let block = block[DestinationIndex := line ! (2 * Cnt + 4)];
             DestinationIndex = DestinationIndex + 1;
             DestinationIndex = (if DestinationIndex = 68 then 2 else DestinationIndex)
         in copy_serial line (Cnt + 1) n DestinationIndex block))"

text \<open>The copying loop for internal EEPROM.\<close>

fun copy_internal :: "byte list \<Rightarrow> nat \<Rightarrow> nat \<Rightarrow> byte list \<Rightarrow> byte list checked" where
  "copy_internal line Cnt 0 block = Inr block"
| "copy_internal line Cnt (Suc n) block =
     (if length line \<le> 2 * Cnt + 4 \<or> length block \<le> Cnt + 2 then Inl UndefinedBehaviour
      else copy_internal line (Cnt + 1) n (block[Cnt + 2 := line ! (2 * Cnt + 4)]))"

text \<open>\<open>memcpy(&MemoryBlock[DestinationIndex], &IqrfPgmCodeLineBuffer[4], DataCounter)\<close>.\<close>

definition copy_flash :: "byte list \<Rightarrow> nat \<Rightarrow> nat \<Rightarrow> byte list \<Rightarrow> byte list checked" where
  "copy_flash line DataCounter DestinationIndex block =
     (if length line < 4 + DataCounter \<or> length block < DestinationIndex + DataCounter
      then Inl UndefinedBehaviour
      else Inr (take DestinationIndex block @ take DataCounter (drop 4 line) @
                drop (DestinationIndex + DataCounter) block))"

section \<open>Preparing a block\<close>

text \<open>
  One pass of the loop, in three parts. The first reads a line when none is waiting; a result
  is the value that the function returns.
\<close>

definition fetch_line :: "hex_pgm \<Rightarrow> pgm_result option \<times> hex_pgm" where
  "fetch_line s =
     (if \<not> DataInBufferReady s then
        (let (OperationResult, s) = iqrfPgmReadHEXFileLine s in
         case OperationResult of
           IQRF_PGM_FILE_DATA_ERROR \<Rightarrow> (Some IQRF_PGM_ERROR, s)
         | IQRF_PGM_END_OF_FILE \<Rightarrow>
             (if MemoryBlockNumber s \<noteq> 0 then (Some (block_ready s), s)
              else if DataOverflow s
              then (Some IQRF_PGM_EEEPROM_BLOCK_READY, iqrfPgmMoveOverflowedData s)
              else (Some IQRF_PGM_SUCCESS, s))
         | IQRF_PGM_FILE_DATA_READY \<Rightarrow> (None, s\<lparr>DataInBufferReady := True\<rparr>))
      else (None, s))"

text \<open>Data for the external serial EEPROM.\<close>

definition serial_data :: "hex_pgm \<Rightarrow> (pgm_result option \<times> hex_pgm) checked" where
  "serial_data s =
     (let line = IqrfPgmCodeLineBuffer s;
          adr = unat (Address s);
          s = (if MemoryBlockNumber s = 0 then
                 (let MemBlock = (adr - 0x200) div 32 * 32;
                      b = replicate 68 0;
                      b = b[34 := low_byte MemBlock];
                      b = b[35 := high_byte MemBlock];
                      MemBlock = MemBlock + 0x20;
                      b = b[0 := low_byte MemBlock];
                      b = b[1 := high_byte MemBlock]
                  in s\<lparr>MemoryBlock := b, MemoryBlockNumber := of_nat (adr div 32),
                       MemoryBlockProcessState := 1\<rparr>)
               else s);
          MemBlock = adr div 32;
          DestinationIndex = adr mod 32 + 36;
          DataCounter = unat (line ! 0) div 2
      in
      if MemoryBlockNumber s \<noteq> of_nat MemBlock then Inr (Some (block_ready s), s)
      else
        (let s = (if DestinationIndex + DataCounter > 68 then s\<lparr>DataOverflow := True\<rparr> else s) in
         case copy_serial line 0 DataCounter DestinationIndex (MemoryBlock s) of
           Inl e \<Rightarrow> Inl e
         | Inr b \<Rightarrow>
             (let s = s\<lparr>MemoryBlock := b\<rparr> in
              if DataOverflow s
              then Inr (Some IQRF_PGM_EEEPROM_BLOCK_READY, s\<lparr>DataInBufferReady := False\<rparr>)
              else Inr (None, s))))"

text \<open>
  Data for one of the two flash areas, whose last address is \<open>last_adr\<close>; the code has this
  part twice, and behind it what it does with a valid address.
\<close>

definition flash_data :: "nat \<Rightarrow> hex_pgm \<Rightarrow> (pgm_result option \<times> hex_pgm) checked" where
  "flash_data last_adr s =
     (let line = IqrfPgmCodeLineBuffer s;
          adr = unat (Address s);
          MemBlock = adr div 32;
          DestinationIndex = adr mod 32 * 2;
          DestinationIndex = (if DestinationIndex < 32 then DestinationIndex + 2
                              else DestinationIndex + 4);
          DataCounter = unat (line ! 0);
          DataCounter = (if adr + DataCounter div 2 > last_adr then (last_adr - adr) * 2
                         else DataCounter)
      in
      if DestinationIndex + DataCounter > 68 then Inr (Some IQRF_PGM_ERROR, s)
      else if MemoryBlockNumber s \<noteq> 0 \<and> MemoryBlockNumber s \<noteq> of_nat MemBlock
      then Inr (Some (block_ready s), s)
      else
        (let s = s\<lparr>MemoryBlockNumber := of_nat MemBlock, MemoryBlockProcessState := 2\<rparr>;
             MemBlock = MemBlock * 32;
             b = (MemoryBlock s)[0 := low_byte MemBlock];
             b = b[1 := high_byte MemBlock];
             MemBlock = MemBlock + 0x10;
             b = b[34 := low_byte MemBlock];
             b = b[35 := high_byte MemBlock]
         in case copy_flash line DataCounter DestinationIndex b of
              Inl e \<Rightarrow> Inl e
            | Inr b \<Rightarrow> Inr (None, s\<lparr>MemoryBlock := b\<rparr>)))"

text \<open>Data for the internal EEPROM.\<close>

definition internal_data :: "hex_pgm \<Rightarrow> (pgm_result option \<times> hex_pgm) checked" where
  "internal_data s =
     (let line = IqrfPgmCodeLineBuffer s; DataCounter = unat (line ! 0) in
      if MemoryBlockNumber s \<noteq> 0 then Inr (Some (block_ready s), s)
      else
        (let b = (MemoryBlock s)[0 := low_byte (unat (Address s))];
             b = b[1 := of_nat (DataCounter div 2)];
             s = s\<lparr>MemoryBlock := b\<rparr>
         in if unat (Address s) + unat (b ! 1) > PIC16LF1938_EEPROM_MAX \<or> unat (b ! 1) > 32
            then Inr (Some IQRF_PGM_ERROR, s)
            else
              (case copy_internal line 0 (unat (b ! 1)) b of
                 Inl e \<Rightarrow> Inl e
               | Inr b \<Rightarrow>
                   Inr (Some IQRF_PGM_EEPROM_BLOCK_READY,
                        s\<lparr>MemoryBlock := b, DataInBufferReady := False, MemoryBlockProcessState := 1\<rparr>))))"

text \<open>
  The second part: the line in the buffer. The address of data is computed in 32 bits and
  halved; what is left in the overflow part of the image comes first.
\<close>

definition locate :: "hex_pgm \<Rightarrow> hex_pgm" where
  "locate s =
     (let line = IqrfPgmCodeLineBuffer s;
          s = s\<lparr>Address := ucast ((HiAddress s + push_bit 8 (ucast (line ! 1)) + ucast (line ! 2)) div 2)\<rparr>
      in if DataOverflow s then iqrfPgmMoveOverflowedData s else s)"

definition process_line :: "hex_pgm \<Rightarrow> (pgm_result option \<times> hex_pgm) checked" where
  "process_line s =
     (let line = IqrfPgmCodeLineBuffer s in
      if line ! 3 = 0 then
        (let s = locate s; adr = unat (Address s) in
         if adr \<ge> SERIAL_EEPROM_MIN_ADR \<and> adr \<le> SERIAL_EEPROM_MAX_ADR then serial_data s
         else if adr \<ge> IQRF_MAIN_MEM_MIN_ADR \<and> adr \<le> IQRF_MAIN_MEM_MAX_ADR
         then flash_data IQRF_MAIN_MEM_MAX_ADR s
         else if adr \<ge> IQRF_LICENCED_MEM_MIN_ADR \<and> adr \<le> IQRF_LICENCED_MEM_MAX_ADR
         then flash_data IQRF_LICENCED_MEM_MAX_ADR s
         else if adr \<ge> PIC16LF1938_EEPROM_MIN \<and> adr \<le> PIC16LF1938_EEPROM_MAX
         then internal_data s
         else Inr (None, s))
      else if line ! 3 = 4 then
        Inr (None, s\<lparr>HiAddress := push_bit 24 (ucast (line ! 4)) + push_bit 16 (ucast (line ! 5))\<rparr>)
      else Inr (None, s))"

text \<open>The loop. A line that is waiting, or the rest of the file, becomes smaller.\<close>

lemma find_start_shorter: "find_start f = (c, f') \<Longrightarrow> c \<noteq> 0 \<Longrightarrow> length f' < length f"
  by (induction f) (auto split: if_splits)

lemma find_start_length: "find_start f = (c, f') \<Longrightarrow> length f' \<le> length f"
  by (induction f) (auto split: if_splits)

lemma iqrfReadByte_length: "iqrfReadByteFromFile f = (c, f') \<Longrightarrow> length f' \<le> length f"
  by (cases f) auto

lemma read_line_data_length:
  "read_line_data p c buf f = (r, buf', f') \<Longrightarrow> length f' \<le> length f \<and> length buf' = length buf"
proof (induction p c buf f rule: read_line_data.induct)
  case (1 p c buf f)
  obtain c1 f1 where 1: "iqrfReadByteFromFile f = (c1, f1)" by (cases "iqrfReadByteFromFile f")
  obtain c2 f2 where 2: "iqrfReadByteFromFile f1 = (c2, f2)" by (cases "iqrfReadByteFromFile f1")
  from 1 2 have l: "length f1 \<le> length f" "length f2 \<le> length f1" using iqrfReadByte_length by auto
  show ?case
  proof (cases "tolower c1 = 0x0A \<or> tolower c1 = 0x0D")
    case True
    with "1.prems" 1 l show ?thesis by (subst (asm) read_line_data.simps) (auto simp: Let_def)
  next
    case False
    note ih = "1.IH" [OF 1 [symmetric] refl refl False 2 [symmetric] refl refl refl refl refl refl]
    show ?thesis
    proof (cases "p + 1 \<ge> SIZE_OF_CODE_LINE_BUFFER")
      case True
      with "1.prems" 1 2 False l show ?thesis
        by (subst (asm) read_line_data.simps) (auto simp: Let_def)
    next
      case more: False
      have "read_line_data p c buf f = read_line_data (p + 1) (c + iqrfPgmConvertToNum (tolower c1) (tolower c2))
          (buf[p := iqrfPgmConvertToNum (tolower c1) (tolower c2)]) f2"
        using 1 2 False more by (subst read_line_data.simps) (simp add: Let_def)
      with ih [OF more] "1.prems" l show ?thesis by simp
    qed
  qed
qed

lemma read_line_result:
  assumes "iqrfPgmReadHEXFileLine s = (r, s')"
  obtains b f where "s' = s\<lparr>IqrfPgmCodeLineBuffer := b, hexFile := f\<rparr>"
    and "length b = length (IqrfPgmCodeLineBuffer s)" and "length f \<le> length (hexFile s)"
    and "r \<noteq> IQRF_PGM_END_OF_FILE \<Longrightarrow> length f < length (hexFile s)"
proof -
  obtain c f1 where 1: "find_start (hexFile s) = (c, f1)" by (cases "find_start (hexFile s)")
  show thesis
  proof (cases "c = 0")
    case True
    with assms 1 have "r = IQRF_PGM_END_OF_FILE" "s' = s\<lparr>hexFile := f1\<rparr>"
      by (auto simp: iqrfPgmReadHEXFileLine_def)
    with find_start_length [OF 1] show thesis
      by (intro that [where b = "IqrfPgmCodeLineBuffer s" and f = f1]) simp_all
  next
    case False
    obtain r2 b f where 2: "read_line_data 0 0 (IqrfPgmCodeLineBuffer s) f1 = (r2, b, f)"
      by (cases "read_line_data 0 0 (IqrfPgmCodeLineBuffer s) f1") auto
    from read_line_data_length [OF 2] find_start_shorter [OF 1 False] have
      "length f < length (hexFile s)" "length b = length (IqrfPgmCodeLineBuffer s)" by simp_all
    with assms 1 2 False show thesis
      by (intro that [where b = b and f = f]) (simp_all add: iqrfPgmReadHEXFileLine_def)
  qed
qed

lemma fetch_line_file:
  assumes "fetch_line s = (None, s')"
  shows "DataInBufferReady s'" and "DataInBufferReady s \<Longrightarrow> hexFile s' = hexFile s"
    and "\<not> DataInBufferReady s \<Longrightarrow> length (hexFile s') < length (hexFile s)"
proof -
  obtain r t where r: "iqrfPgmReadHEXFileLine s = (r, t)" by (cases "iqrfPgmReadHEXFileLine s")
  show "DataInBufferReady s'" "DataInBufferReady s \<Longrightarrow> hexFile s' = hexFile s"
    using assms r by (auto simp: fetch_line_def split: if_splits line_result.splits)
  show "length (hexFile s') < length (hexFile s)" if "\<not> DataInBufferReady s"
  proof (rule read_line_result [OF r])
    fix b f
    assume "t = s\<lparr>IqrfPgmCodeLineBuffer := b, hexFile := f\<rparr>"
      "r \<noteq> IQRF_PGM_END_OF_FILE \<Longrightarrow> length f < length (hexFile s)"
    with assms r that show ?thesis
      by (auto simp: fetch_line_def split: if_splits line_result.splits)
  qed
qed

lemma overflow_file [simp]:
  "hexFile (iqrfPgmMoveOverflowedData s) = hexFile s"
  "DataInBufferReady (iqrfPgmMoveOverflowedData s) = DataInBufferReady s"
  "IqrfPgmCodeLineBuffer (iqrfPgmMoveOverflowedData s) = IqrfPgmCodeLineBuffer s"
  "Address (iqrfPgmMoveOverflowedData s) = Address s"
  "HiAddress (iqrfPgmMoveOverflowedData s) = HiAddress s"
  "DataOverflow (iqrfPgmMoveOverflowedData s) = False"
  "MemoryBlockProcessState (iqrfPgmMoveOverflowedData s) = 1"
  by (simp_all add: iqrfPgmMoveOverflowedData_def Let_def)

lemma serial_data_file: "serial_data s = Inr (r, s') \<Longrightarrow> hexFile s' = hexFile s"
  by (auto simp: serial_data_def Let_def split: if_splits sum.splits)

lemma flash_data_file: "flash_data l s = Inr (r, s') \<Longrightarrow> hexFile s' = hexFile s"
  by (auto simp: flash_data_def Let_def split: if_splits sum.splits)

lemma internal_data_file: "internal_data s = Inr (r, s') \<Longrightarrow> hexFile s' = hexFile s"
  by (auto simp: internal_data_def Let_def split: if_splits sum.splits)

lemma locate_fields [simp]:
  "hexFile (locate s) = hexFile s" "DataInBufferReady (locate s) = DataInBufferReady s"
  "DataOverflow (locate s) = False" "IqrfPgmCodeLineBuffer (locate s) = IqrfPgmCodeLineBuffer s"
  "HiAddress (locate s) = HiAddress s"
  "\<not> DataOverflow s \<Longrightarrow> MemoryBlockNumber (locate s) = MemoryBlockNumber s"
  by (simp_all add: locate_def Let_def)

lemma process_line_cases:
  assumes "process_line s = Inr x"
  obtains (serial) "IqrfPgmCodeLineBuffer s ! 3 = 0" "serial_data (locate s) = Inr x"
  | (flash) l where "IqrfPgmCodeLineBuffer s ! 3 = 0" "flash_data l (locate s) = Inr x"
  | (internal) "IqrfPgmCodeLineBuffer s ! 3 = 0" "internal_data (locate s) = Inr x"
  | (other) "IqrfPgmCodeLineBuffer s ! 3 = 0" "x = (None, locate s)"
  | (none) h where "IqrfPgmCodeLineBuffer s ! 3 \<noteq> 0" "x = (None, s\<lparr>HiAddress := h\<rparr>)"
proof (cases "IqrfPgmCodeLineBuffer s ! 3 = 0")
  case True
  have "serial_data (locate s) = Inr x \<or> (\<exists>l. flash_data l (locate s) = Inr x) \<or>
      internal_data (locate s) = Inr x \<or> x = (None, locate s)"
    using assms True unfolding process_line_def Let_def by (auto split: if_splits)
  with that(1-4) True show thesis by blast
next
  case False
  show thesis
  proof (rule that(5) [OF False])
    show "x = (None, s\<lparr>HiAddress := if IqrfPgmCodeLineBuffer s ! 3 = 4
        then push_bit 24 (ucast (IqrfPgmCodeLineBuffer s ! 4)) + push_bit 16 (ucast (IqrfPgmCodeLineBuffer s ! 5))
        else HiAddress s\<rparr>)"
      using assms False by (auto simp: process_line_def Let_def split: if_splits)
  qed
qed

lemma process_line_file: "process_line s = Inr (r, s') \<Longrightarrow> hexFile s' = hexFile s"
  by (erule process_line_cases)
    (auto dest!: serial_data_file flash_data_file internal_data_file)

function prepare_loop :: "hex_pgm \<Rightarrow> (pgm_result \<times> hex_pgm) checked" where
  "prepare_loop s =
     (case fetch_line s of
        (Some r, s) \<Rightarrow> Inr (r, s)
      | (None, s) \<Rightarrow>
          (case process_line s of
             Inl e \<Rightarrow> Inl e
           | Inr (Some r, s) \<Rightarrow> Inr (r, s)
           | Inr (None, s) \<Rightarrow> prepare_loop (s\<lparr>DataInBufferReady := False\<rparr>)))"
  by pat_completeness auto
termination
proof (relation "measure (\<lambda>s. 2 * length (hexFile s) + (if DataInBufferReady s then 1 else 0))",
    goal_cases)
  case (2 s o1 t x y u)
  then have "fetch_line s = (None, t)" "process_line t = Inr (None, u)" by auto
  with fetch_line_file [of s t] process_line_file [of t None u] show ?case
    by (cases "DataInBufferReady s") simp_all
qed simp

declare prepare_loop.simps [simp del]

definition iqrfPgmPrepareMemBlock :: "hex_pgm \<Rightarrow> (pgm_result \<times> hex_pgm) checked" where
  "iqrfPgmPrepareMemBlock s =
     (let s = (if \<not> DataOverflow s then s\<lparr>MemoryBlock := concat (replicate 34 [0xFF, 0x3F])\<rparr> else s);
          s = s\<lparr>MemoryBlockNumber := 0\<rparr>
      in prepare_loop s)"

section \<open>Programming\<close>

text \<open>
  What is written for a block: the target, where the data start in the image, their size, and
  the image afterwards (for internal EEPROM the number of bytes is replaced by 0 first).
\<close>

definition packet :: "pgm_result \<Rightarrow> nat \<Rightarrow> hex_pgm \<Rightarrow> byte \<times> nat \<times> nat \<times> hex_pgm" where
  "packet OpResult state s =
     (case OpResult of
        IQRF_PGM_FLASH_BLOCK_READY \<Rightarrow>
          (TARGET_FLASH_W, if state = 2 then 0 else 34, 32 + 2, s)
      | IQRF_PGM_EEEPROM_BLOCK_READY \<Rightarrow> (TARGET_EEEPROM_W, 34, 32 + 2, s)
      | _ \<Rightarrow>
          (TARGET_EEPROM_W, 0, unat (MemoryBlock s ! 1) + 2,
           s\<lparr>MemoryBlock := (MemoryBlock s)[1 := 0]\<rparr>))"

text \<open>
  The inner loop, with \<open>MemoryBlockProcessState\<close> as a number. \<open>write\<close> is what is done with a
  packet: it is given the target, the memory from the start of the data on, and the size.
\<close>

fun write_packets ::
  "(byte \<Rightarrow> ustring \<Rightarrow> nat \<Rightarrow> 's \<Rightarrow> (thrown + unit) \<times> 's) \<Rightarrow> pgm_result \<Rightarrow> nat \<Rightarrow> hex_pgm \<Rightarrow> 's \<Rightarrow>
     (thrown + hex_pgm) \<times> 's" where
  "write_packets write OpResult 0 s u = (Inr s, u)"
| "write_packets write OpResult (Suc n) s u =
     (let (Target, start, DataSize, s) = packet OpResult (Suc n) s in
      case write Target (drop start (MemoryBlock s)) DataSize u of
        (Inl e, u) \<Rightarrow> (Inl e, u)
      | (Inr _, u) \<Rightarrow>
          write_packets write OpResult n (s\<lparr>MemoryBlockProcessState := of_nat n\<rparr>) u)"

text \<open>
  What is still to do: the bytes of the file, a line that is waiting, data that are in the
  overflow part of the image. Every block takes some of it.
\<close>

definition to_do :: "hex_pgm \<Rightarrow> nat" where
  "to_do s = 4 * length (hexFile s) + (if DataInBufferReady s then 2 else 0) +
     (if DataOverflow s then 1 else 0)"

text \<open>
  How a part of the pass that handles a waiting line ends: the line is done, or the function
  returns because another block has been begun.
\<close>

definition line_step :: "hex_pgm \<Rightarrow> pgm_result option \<times> hex_pgm \<Rightarrow> bool" where
  "line_step s x \<longleftrightarrow>
     hexFile (snd x) = hexFile s \<and>
     (fst x \<in> {None, Some IQRF_PGM_ERROR} \<or> \<not> DataInBufferReady (snd x) \<or>
      (DataInBufferReady (snd x) \<and> DataOverflow (snd x) = DataOverflow s \<and> MemoryBlockNumber s \<noteq> 0))"

lemma serial_data_step: "serial_data s = Inr x \<Longrightarrow> \<not> DataOverflow s \<Longrightarrow> line_step s x"
  by (auto simp: serial_data_def Let_def line_step_def split: if_splits sum.splits)

lemma flash_data_step: "flash_data l s = Inr x \<Longrightarrow> \<not> DataOverflow s \<Longrightarrow> line_step s x"
  by (auto simp: flash_data_def Let_def line_step_def split: if_splits sum.splits)

lemma internal_data_step: "internal_data s = Inr x \<Longrightarrow> \<not> DataOverflow s \<Longrightarrow> line_step s x"
  by (auto simp: internal_data_def Let_def line_step_def split: if_splits sum.splits)

lemma process_line_step:
  assumes "process_line s = Inr (r, s')"
  shows "line_step (locate s) (r, s') \<or> r = None"
  using assms
  by (cases rule: process_line_cases)
    (auto intro: serial_data_step flash_data_step internal_data_step)

lemma process_line_returns:
  assumes "process_line s = Inr (Some r, s')" and "r \<notin> {IQRF_PGM_SUCCESS, IQRF_PGM_ERROR}"
    and "DataInBufferReady s"
  shows "to_do s' \<le> to_do s \<and> (MemoryBlockNumber s = 0 \<longrightarrow> to_do s' < to_do s)"
proof -
  from process_line_step [OF assms(1)] assms(2) have
    l: "hexFile s' = hexFile s" "\<not> DataInBufferReady s' \<or>
      (\<not> DataOverflow s' \<and> MemoryBlockNumber (locate s) \<noteq> 0)"
    by (auto simp: line_step_def)
  show ?thesis
  proof (cases "DataOverflow s")
    case True
    with l assms(3) show ?thesis by (auto simp: to_do_def)
  next
    case False
    then have "MemoryBlockNumber (locate s) = MemoryBlockNumber s" by simp
    with l assms(3) False show ?thesis by (auto simp: to_do_def)
  qed
qed

text \<open>A result of the function has taken something of what is to do.\<close>

lemma prepare_loop_to_do:
  "prepare_loop s = Inr (r, s') \<Longrightarrow> r \<notin> {IQRF_PGM_SUCCESS, IQRF_PGM_ERROR} \<Longrightarrow>
     to_do s' \<le> to_do s \<and> (MemoryBlockNumber s = 0 \<longrightarrow> to_do s' < to_do s)"
proof (induction s rule: prepare_loop.induct)
  case (1 s)
  obtain q t where t: "fetch_line s = (q, t)" by (cases "fetch_line s")
  obtain l u where l: "iqrfPgmReadHEXFileLine s = (l, u)" by (cases "iqrfPgmReadHEXFileLine s")
  from read_line_result [OF l] obtain b f where
    u: "u = s\<lparr>IqrfPgmCodeLineBuffer := b, hexFile := f\<rparr>" "length f \<le> length (hexFile s)"
      "l \<noteq> IQRF_PGM_END_OF_FILE \<Longrightarrow> length f < length (hexFile s)" by metis
  show ?case
  proof (cases q)
    case (Some x)
    with "1.prems" t have "prepare_loop s = Inr (x, t)" by (subst prepare_loop.simps) simp
    with "1.prems" have x: "r = x" "s' = t" by simp_all
    with u(1,2) t Some l "1.prems"(2) show ?thesis
      by (auto simp: fetch_line_def to_do_def split: if_splits line_result.splits)
  next
    case None
    have less: "to_do t \<le> to_do s \<and> (\<not> DataInBufferReady s \<longrightarrow> to_do t < to_do s) \<and>
        DataInBufferReady t \<and> MemoryBlockNumber t = MemoryBlockNumber s"
      using u t None l
      by (auto simp: fetch_line_def to_do_def split: if_splits line_result.splits)
    show ?thesis
    proof (cases "process_line t")
      case (Inl e)
      with "1.prems"(1) t None have False by (subst (asm) prepare_loop.simps) simp
      then show ?thesis ..
    next
      case (Inr y)
      obtain z v where z: "process_line t = Inr (z, v)" using Inr by (cases y) simp
      show ?thesis
      proof (cases z)
        case (Some x)
        with t None z have "prepare_loop s = Inr (x, v)" by (subst prepare_loop.simps) simp
        with "1.prems"(1) have "r = x" "s' = v" by simp_all
        with process_line_returns [of t x v] z Some "1.prems"(2) less show ?thesis by auto
      next
        case none: None
        with "1.prems"(1) t None z have "prepare_loop (v\<lparr>DataInBufferReady := False\<rparr>) = Inr (r, s')"
          by (subst (asm) prepare_loop.simps) simp
        with "1.IH" [OF t [symmetric] None z refl none] "1.prems"(2) have
          "to_do s' \<le> to_do (v\<lparr>DataInBufferReady := False\<rparr>)" by blast
        moreover have "to_do (v\<lparr>DataInBufferReady := False\<rparr>) < to_do t"
          using process_line_file [OF z] less by (simp add: to_do_def)
        ultimately show ?thesis using less by simp
      qed
    qed
  qed
qed

lemma prepare_to_do:
  assumes "iqrfPgmPrepareMemBlock s = Inr (r, s')" and "r \<notin> {IQRF_PGM_SUCCESS, IQRF_PGM_ERROR}"
  shows "to_do s' < to_do s"
proof -
  define t where "t = (if \<not> DataOverflow s then s\<lparr>MemoryBlock := concat (replicate 34 [0xFF, 0x3F])\<rparr>
    else s)\<lparr>MemoryBlockNumber := 0\<rparr>"
  have "prepare_loop t = Inr (r, s')"
    using assms(1) by (simp only: iqrfPgmPrepareMemBlock_def Let_def t_def)
  moreover have "to_do t = to_do s" "MemoryBlockNumber t = 0" by (simp_all add: t_def to_do_def)
  ultimately show ?thesis using prepare_loop_to_do [of t r s'] assms(2) by simp
qed

lemma write_packets_to_do:
  "write_packets write r n s u = (Inr s', u') \<Longrightarrow> to_do s' = to_do s"
proof (induction n arbitrary: s u)
  case (Suc n)
  obtain Target start size t where p: "packet r (Suc n) s = (Target, start, size, t)"
    by (cases "packet r (Suc n) s") auto
  then have "to_do (t\<lparr>MemoryBlockProcessState := of_nat n\<rparr>) = to_do s"
    by (auto simp: packet_def to_do_def split: pgm_result.splits)
  with Suc p show ?case by (auto split: prod.splits sum.splits)
qed simp

text \<open>The loop of \<open>main\<close>: the blocks of a file, one after the other.\<close>

function program_loop ::
  "(byte \<Rightarrow> ustring \<Rightarrow> nat \<Rightarrow> 's \<Rightarrow> (thrown + unit) \<times> 's) \<Rightarrow> hex_pgm \<Rightarrow> 's \<Rightarrow>
     (thrown + pgm_result \<times> hex_pgm) \<times> 's" where
  "program_loop write s u =
     (case iqrfPgmPrepareMemBlock s of
        Inl e \<Rightarrow> (Inl e, u)
      | Inr (OpResult, s) \<Rightarrow>
          if OpResult \<in> {IQRF_PGM_SUCCESS, IQRF_PGM_ERROR} then (Inr (OpResult, s), u)
          else
            (case write_packets write OpResult (unat (MemoryBlockProcessState s)) s u of
               (Inl e, u) \<Rightarrow> (Inl e, u)
             | (Inr s, u) \<Rightarrow> program_loop write s u))"
  by pat_completeness auto
termination
proof (relation "measure (\<lambda>(w, s, u). to_do s)", goal_cases)
  case (2 w s u p r t q v t')
  then have "iqrfPgmPrepareMemBlock s = Inr (r, t)" "r \<notin> {IQRF_PGM_SUCCESS, IQRF_PGM_ERROR}" by auto
  from prepare_to_do [OF this] have "to_do t < to_do s" .
  moreover have "to_do t' = to_do t" using 2 write_packets_to_do [of w r _ t u t' v] by metis
  ultimately show ?case by simp
qed simp

declare program_loop.simps [simp del]

end
