(* ===== verification/Pgm_Hex_Correct.thy ===== *)
theory Pgm_Hex_Correct
  imports Pgm_Hex
begin

text \<open>
  What the hex file programmer does: a line that is read back is what was written in it, the
  arrays are not left as long as the lines are not too long, and a file of data for the flash
  memory is programmed as a fold over its records says that collects the image of a block and
  writes it when the data of another block follow.
\<close>

unbundle bit_operations_syntax

section \<open>Lines\<close>

lemma read_line_data_hex:
  assumes "length buf = 64" and "p + length bs < 64" and "e \<in> {10, 13}"
  shows "read_line_data p c buf (hex_text u bs @ e # rest) =
    (if c + sum_list bs \<noteq> 0 then IQRF_PGM_FILE_DATA_ERROR else IQRF_PGM_FILE_DATA_READY,
     take p buf @ bs @ drop (p + length bs) buf, rest)"
  using assms(1,2)
proof (induction bs arbitrary: p c buf)
  case Nil
  from assms(3) have "tolower e = 10 \<or> tolower e = 13" by (auto simp: tolower_def)
  then show ?case by (subst read_line_data.simps) simp
next
  case (Cons b bs)
  let ?h = "hex_digit u (unat b div 16)" and ?l = "hex_digit u (unat b mod 16)"
  have "unat b mod 16 < 16" by simp
  note codes = hex_digit_codes [OF high_digit [of b], of u] hex_digit_codes [OF this, of u]
  have step: "read_line_data p c buf (hex_text u (b # bs) @ e # rest) =
      read_line_data (p + 1) (c + b) (buf[p := b]) (hex_text u bs @ e # rest)"
    using codes Cons.prems(2)
    by (subst read_line_data.simps) (simp add: hex_byte_def Let_def SIZE_OF_CODE_LINE_BUFFER_def)
  have "take (p + 1) (buf[p := b]) = take p buf @ [b]"
    using Cons.prems by (simp add: take_Suc_conv_app_nth)
  moreover have "drop (p + 1 + length bs) (buf[p := b]) = drop (p + length (b # bs)) buf" by simp
  ultimately show ?case
    using Cons.IH [of "buf[p := b]" "p + 1" "c + b"] Cons.prems
    by (simp only: step length_list_update) (simp add: add.assoc)
qed

lemma find_start_skips:
  "0 \<notin> set pre \<Longrightarrow> 0x3A \<notin> set pre \<Longrightarrow> find_start (pre @ 0x3A # f) = (0x3A, f)"
  by (induction pre) auto

lemma find_start_none:
  "0 \<notin> set f \<Longrightarrow> 0x3A \<notin> set f \<Longrightarrow> find_start f = (0, [])"
  by (induction f) auto

lemma read_line_hex:
  assumes "length (IqrfPgmCodeLineBuffer s) = 64" and "length bs < 64" and "e \<in> {10, 13}"
    and "0 \<notin> set pre" and "0x3A \<notin> set pre"
    and "hexFile s = pre @ 0x3A # hex_text u bs @ e # rest"
  shows "iqrfPgmReadHEXFileLine s =
    (if sum_list bs = 0 then IQRF_PGM_FILE_DATA_READY else IQRF_PGM_FILE_DATA_ERROR,
     s\<lparr>IqrfPgmCodeLineBuffer := bs @ drop (length bs) (IqrfPgmCodeLineBuffer s), hexFile := rest\<rparr>)"
  using assms read_line_data_hex [OF assms(1), of 0 bs e 0 u rest]
  by (simp add: iqrfPgmReadHEXFileLine_def find_start_skips)

section \<open>Records for the flash memory\<close>

text \<open>A word address and the data for it, as a line with its length, address, type and checksum.\<close>

type_synonym flash_record = "nat \<times> ustring"

definition record_bytes :: "flash_record \<Rightarrow> ustring" where
  "record_bytes r =
     (let bs = [of_nat (length (snd r)), high_byte (2 * fst r), low_byte (2 * fst r), 0] @ snd r
      in bs @ [- sum_list bs])"

definition record_line :: "flash_record \<Rightarrow> ustring" where
  "record_line r = 0x3A # hex_text True (record_bytes r) @ [13, 10]"

text \<open>
  The records for which the program does what it should: inside one of the two areas but not
  up to its last word, and inside one half of a block.
\<close>

definition flash_record_ok :: "flash_record \<Rightarrow> bool" where
  "flash_record_ok r \<longleftrightarrow>
     (let a = fst r; n = length (snd r) in
      (IQRF_MAIN_MEM_MIN_ADR \<le> a \<and> a + n div 2 \<le> IQRF_MAIN_MEM_MAX_ADR \<or>
       IQRF_LICENCED_MEM_MIN_ADR \<le> a \<and> a + n div 2 \<le> IQRF_LICENCED_MEM_MAX_ADR) \<and>
      2 * (a mod 16) + n \<le> 32)"

text \<open>The content of a block of 32 words, and what is written for it.\<close>

definition blank_content :: ustring where
  "blank_content = concat (replicate 32 [0xFF, 0x3F])"

definition put :: "nat \<Rightarrow> ustring \<Rightarrow> ustring \<Rightarrow> ustring" where
  "put i d c = take i c @ d @ drop (i + length d) c"

type_synonym packet = "byte \<times> ustring"

definition address_bytes :: "nat \<Rightarrow> ustring" where
  "address_bytes a = [low_byte a, high_byte a]"

definition block_packets :: "nat \<Rightarrow> ustring \<Rightarrow> packet list" where
  "block_packets b c =
     [(TARGET_FLASH_W, address_bytes (32 * b) @ take 32 c),
      (TARGET_FLASH_W, address_bytes (32 * b + 16) @ drop 32 c)]"

text \<open>The reference: a fold over the records with the block that is being collected.\<close>

fun programmed :: "(nat \<times> ustring) option \<Rightarrow> flash_record list \<Rightarrow> packet list" where
  "programmed None [] = []"
| "programmed (Some (b, c)) [] = block_packets b c"
| "programmed None ((a, d) # rs) =
     programmed (Some (a div 32, put (2 * (a mod 32)) d blank_content)) rs"
| "programmed (Some (b, c)) ((a, d) # rs) =
     (if b = a div 32 then programmed (Some (b, put (2 * (a mod 32)) d c)) rs
      else block_packets b c @ programmed (Some (a div 32, put (2 * (a mod 32)) d blank_content)) rs)"

section \<open>The image in memory\<close>

text \<open>The image of a block between its two addresses.\<close>

definition image :: "ustring \<Rightarrow> ustring \<Rightarrow> ustring \<Rightarrow> ustring" where
  "image h1 h2 c = h1 @ take 32 c @ h2 @ drop 32 c"

lemma blank_image: "concat (replicate 34 [0xFF, 0x3F]) = image [0xFF, 0x3F] [0xFF, 0x3F] blank_content"
  by (simp add: image_def blank_content_def numeral_eq_Suc)

lemma image_headers:
  assumes "length h1 = 2" and "length h2 = 2" and "length c = 64"
  shows "(image h1 h2 c)[0 := low_byte n, 1 := high_byte n, 34 := low_byte m, 35 := high_byte m] =
    image (address_bytes n) (address_bytes m) c"
proof -
  from assms(1,2) obtain x y z w where h: "h1 = [x, y]" "h2 = [z, w]"
    by (metis (no_types, opaque_lifting) length_0_conv length_Suc_conv numeral_2_eq_2)
  have "length (take 32 c) = 32" using assms(3) by simp
  then show ?thesis by (simp add: image_def h address_bytes_def list_update_append)
qed

lemma length_put: "i + length d \<le> length c \<Longrightarrow> length (put i d c) = length c"
  by (simp add: put_def)

lemma length_blank [simp]: "length blank_content = 64"
  by (simp add: blank_content_def numeral_eq_Suc)

lemma copy_flash_image:
  assumes "length h1 = 2" and "length h2 = 2" and "length c = 64"
    and "2 * (o1 mod 16) + length d \<le> 32" and "o1 < 32"
    and "length line = 64" and "take (length d) (drop 4 line) = d"
  shows "copy_flash line (length d) (if o1 * 2 < 32 then o1 * 2 + 2 else o1 * 2 + 4) (image h1 h2 c) =
    Inr (image h1 h2 (put (2 * o1) d c))"
proof (cases "o1 < 16")
  case True
  then have o: "o1 mod 16 = o1" by simp
  with assms True show ?thesis
    by (simp add: copy_flash_def image_def put_def drop_take mult.commute [of o1 2])
next
  case False
  then have o: "o1 mod 16 = o1 - 16" using assms(5) by (simp add: mod_if)
  from False obtain k where k: "o1 = 16 + k" using le_Suc_ex not_less by blast
  define n where "n = 2 * k"
  from assms o k have n: "n + length d \<le> 32" by (simp add: n_def)
  have e: "(if o1 * 2 < 32 then o1 * 2 + 2 else o1 * 2 + 4) = n + 36" "2 * o1 = n + 32"
    using k by (simp_all add: n_def)
  have t: "take (n + 32) c = take 32 c @ take n (drop 32 c)" by (simp add: take_add [symmetric] add.commute)
  have d: "drop (n + 32 + length d) c = drop (n + length d) (drop 32 c)" by (simp add: ac_simps)
  show ?thesis
    unfolding e put_def image_def copy_flash_def t d using assms(1-3,6,7) n by simp
qed

section \<open>One record\<close>

lemma unat_low_byte [simp]: "unat (low_byte n) = n mod 256"
  by (simp add: low_byte_def unsigned_of_nat take_bit_nat_eq_self)

lemma unat_high_byte: "n < 65536 \<Longrightarrow> unat (high_byte n) = n div 256"
  by (simp add: high_byte_def unsigned_of_nat take_bit_nat_eq_self less_mult_imp_div_less)

lemma address_word:
  assumes "n < 65536"
  shows "(0 + push_bit 8 (ucast (high_byte n)) + ucast (low_byte n) :: 32 word) = of_nat n"
proof -
  have "(ucast (low_byte n) :: 32 word) = of_nat (n mod 256)"
    using unat_low_byte [of n] by (metis of_nat_unat)
  moreover have "(ucast (high_byte n) :: 32 word) = of_nat (n div 256)"
    using unat_high_byte [OF assms] by (metis of_nat_unat)
  moreover have "(256 * of_nat (n div 256) + of_nat (n mod 256) :: 32 word) =
      of_nat (256 * (n div 256) + n mod 256)"
    by (simp only: of_nat_add of_nat_mult of_nat_numeral)
  ultimately show ?thesis by (simp add: push_bit_eq_mult mult.commute)
qed

text \<open>A line of the buffer that holds a record.\<close>

definition buffered :: "hex_pgm \<Rightarrow> flash_record \<Rightarrow> bool" where
  "buffered s r \<longleftrightarrow>
     (\<exists>rest. IqrfPgmCodeLineBuffer s = record_bytes r @ rest) \<and> length (IqrfPgmCodeLineBuffer s) = 64"

lemma buffered_bytes:
  assumes "buffered s (a, d)" and "length d \<le> 32"
  shows "unat (IqrfPgmCodeLineBuffer s ! 0) = length d"
    and "IqrfPgmCodeLineBuffer s ! 1 = high_byte (2 * a)"
    and "IqrfPgmCodeLineBuffer s ! 2 = low_byte (2 * a)"
    and "IqrfPgmCodeLineBuffer s ! 3 = 0"
    and "take (length d) (drop 4 (IqrfPgmCodeLineBuffer s)) = d"
  using assms
  by (auto simp: buffered_def record_bytes_def Let_def unsigned_of_nat take_bit_nat_eq_self
      nth_append numeral_eq_Suc)

lemma locate_record:
  assumes "buffered s (a, d)" and "length d \<le> 32" and "2 * a < 65536" and "HiAddress s = 0"
    and "\<not> DataOverflow s"
  shows "locate s = s\<lparr>Address := of_nat a\<rparr>" and "unat (of_nat a :: 16 word) = a"
proof -
  note b = buffered_bytes [OF assms(1,2)]
  have "unat (of_nat (2 * a) :: 32 word) = 2 * a"
    using assms(3) by (simp only: unsigned_of_nat) (simp add: take_bit_nat_eq_self)
  then have "unat ((of_nat (2 * a) :: 32 word) div 2) = a" by (simp only: unat_div) simp
  then have w: "(of_nat (2 * a) :: 32 word) div 2 = of_nat a" by (metis of_nat_unat ucast_id)
  have u: "(ucast (of_nat a :: 32 word) :: 16 word) = of_nat a"
  proof -
    have "unat (of_nat a :: 32 word) = a"
      using assms(3) by (simp add: unsigned_of_nat take_bit_nat_eq_self)
    then show ?thesis by (metis of_nat_unat)
  qed
  have "ucast ((HiAddress s + push_bit 8 (ucast (IqrfPgmCodeLineBuffer s ! 1)) +
      ucast (IqrfPgmCodeLineBuffer s ! 2)) div 2) = (of_nat a :: 16 word)"
    using address_word [OF assms(3)] by (simp only: assms(4) b(2,3) w u)
  with assms(5) show "locate s = s\<lparr>Address := of_nat a\<rparr>" by (simp add: locate_def Let_def)
  show "unat (of_nat a :: 16 word) = a"
    using assms(3) by (simp add: unsigned_of_nat take_bit_nat_eq_self)
qed

text \<open>The state while the image of block \<open>b\<close> with content \<open>c\<close> is collected, or none yet.\<close>

fun collects :: "(nat \<times> ustring) option \<Rightarrow> hex_pgm \<Rightarrow> bool" where
  "collects None s \<longleftrightarrow>
     MemoryBlockNumber s = 0 \<and> MemoryBlock s = image [0xFF, 0x3F] [0xFF, 0x3F] blank_content"
| "collects (Some (b, c)) s \<longleftrightarrow>
     MemoryBlockNumber s = of_nat b \<and> 80 \<le> b \<and> b < 2048 \<and> length c = 64 \<and>
     MemoryBlock s = image (address_bytes (32 * b)) (address_bytes (32 * b + 16)) c \<and>
     MemoryBlockProcessState s = 2"

lemma block_number: "b < 2048 \<Longrightarrow> unat (of_nat b :: 16 word) = b"
  by (simp add: unsigned_of_nat take_bit_nat_eq_self)

lemma block_number_inject: "b < 2048 \<Longrightarrow> b' < 2048 \<Longrightarrow> (of_nat b :: 16 word) = of_nat b' \<longleftrightarrow> b = b'"
  using block_number by metis

lemma collects_ready:
  assumes "collects (Some (b, c)) s"
  shows "MemoryBlockNumber s \<noteq> 0" and "block_ready s = IQRF_PGM_FLASH_BLOCK_READY"
proof -
  from assms have b: "unat (MemoryBlockNumber s) = b" "80 \<le> b" using block_number by auto
  then show "MemoryBlockNumber s \<noteq> 0" by (metis not_numeral_le_zero unat_0)
  have "\<not> MemoryBlockNumber s < 80" using b by (simp add: word_less_nat_alt)
  then show "block_ready s = IQRF_PGM_FLASH_BLOCK_READY" by (simp add: block_ready_def)
qed

text \<open>What a record is for the code: its address, block and place.\<close>

lemma flash_record_facts:
  assumes "flash_record_ok (a, d)"
  shows "length d \<le> 32" and "2 * a < 65536" and "2 * (a mod 32 mod 16) + length d \<le> 32"
    and "80 \<le> a div 32" and "a div 32 < 2048" and "2 * (a mod 32) + length d \<le> 64"
proof -
  have m: "a mod 32 mod 16 = a mod 16" by (simp add: mod_mod_cancel)
  show "length d \<le> 32" "2 * a < 65536" "2 * (a mod 32 mod 16) + length d \<le> 32"
    "80 \<le> a div 32" "a div 32 < 2048"
    using assms unfolding m
    by (auto simp: flash_record_ok_def Let_def IQRF_MAIN_MEM_MIN_ADR_def IQRF_MAIN_MEM_MAX_ADR_def
        IQRF_LICENCED_MEM_MIN_ADR_def IQRF_LICENCED_MEM_MAX_ADR_def)
  have "a mod 32 \<le> 16 + a mod 16" by presburger
  then show "2 * (a mod 32) + length d \<le> 64"
    using assms by (simp add: flash_record_ok_def Let_def)
qed

lemma process_flash_record:
  assumes ok: "flash_record_ok (a, d)" and buf: "buffered s (a, d)" and hi: "HiAddress s = 0"
    and ov: "\<not> DataOverflow s"
  obtains l where "process_line s = flash_data l (s\<lparr>Address := of_nat a\<rparr>)"
    and "a + length d div 2 \<le> l" and "unat (of_nat a :: 16 word) = a"
proof -
  note f = flash_record_facts [OF ok]
  note loc = locate_record [OF buf f(1,2) hi ov]
  from buffered_bytes(4) [OF buf f(1)] ok loc that show thesis
    by (auto simp: process_line_def Let_def flash_record_ok_def SERIAL_EEPROM_MIN_ADR_def
        SERIAL_EEPROM_MAX_ADR_def IQRF_MAIN_MEM_MIN_ADR_def IQRF_MAIN_MEM_MAX_ADR_def
        IQRF_LICENCED_MEM_MIN_ADR_def IQRF_LICENCED_MEM_MAX_ADR_def)
qed

text \<open>The content that a record goes into when it belongs to the block that is collected.\<close>

fun content_for :: "(nat \<times> ustring) option \<Rightarrow> nat \<Rightarrow> ustring option" where
  "content_for None b = Some blank_content"
| "content_for (Some (b', c)) b = (if b' = b then Some c else None)"

lemma flash_record_joins:
  assumes ok: "flash_record_ok (a, d)" and buf: "buffered s (a, d)" and hi: "HiAddress s = 0"
    and ov: "\<not> DataOverflow s" and cur: "collects cur s" and c: "content_for cur (a div 32) = Some c"
  obtains s' where "process_line s = Inr (None, s')"
    and "collects (Some (a div 32, put (2 * (a mod 32)) d c)) s'"
    and "HiAddress s' = 0" and "\<not> DataOverflow s'" and "hexFile s' = hexFile s"
    and "IqrfPgmCodeLineBuffer s' = IqrfPgmCodeLineBuffer s"
proof -
  note f = flash_record_facts [OF ok]
  from process_flash_record [OF ok buf hi ov] obtain l where
    l: "process_line s = flash_data l (s\<lparr>Address := of_nat a\<rparr>)" "a + length d div 2 \<le> l"
      "unat (of_nat a :: 16 word) = a" .
  obtain h1 h2 where h: "length h1 = 2" "length h2 = 2" "length c = 64" "MemoryBlock s = image h1 h2 c"
    "MemoryBlockNumber s = 0 \<or> MemoryBlockNumber s = of_nat (a div 32)"
  proof (cases cur)
    case None
    with cur c show thesis by (intro that [of "[0xFF, 0x3F]" "[0xFF, 0x3F]"]) auto
  next
    case (Some x)
    with cur c show thesis
      by (cases x) (intro that [of "address_bytes (a div 32 * 32)" "address_bytes (a div 32 * 32 + 16)"],
          auto simp: address_bytes_def mult.commute split: if_splits)
  qed
  let ?b = "a div 32 * 32" and ?c = "put (2 * (a mod 32)) d c"
  have hd: "(MemoryBlock s)[0 := low_byte ?b, 1 := high_byte ?b, 34 := low_byte (?b + 16),
      35 := high_byte (?b + 16)] = image (address_bytes ?b) (address_bytes (?b + 16)) c"
    unfolding h(4) by (rule image_headers [OF h(1-3)])
  have cp: "copy_flash (IqrfPgmCodeLineBuffer s) (length d)
      (if a mod 32 * 2 < 32 then a mod 32 * 2 + 2 else a mod 32 * 2 + 4)
      (image (address_bytes ?b) (address_bytes (?b + 16)) c) =
    Inr (image (address_bytes ?b) (address_bytes (?b + 16)) ?c)"
    by (rule copy_flash_image)
      (use h(3) f(3) buf buffered_bytes(5) [OF buf f(1)] in
        \<open>simp_all add: address_bytes_def buffered_def\<close>)
  have fit: "(if a mod 32 * 2 < 32 then a mod 32 * 2 + 2 else a mod 32 * 2 + 4) + length d \<le> 68"
    using f(6) by simp
  let ?s = "s\<lparr>Address := of_nat a, MemoryBlockNumber := of_nat (a div 32),
      MemoryBlockProcessState := 2,
      MemoryBlock := image (address_bytes ?b) (address_bytes (?b + 16)) ?c\<rparr>"
  have "flash_data l (s\<lparr>Address := of_nat a\<rparr>) = Inr (None, ?s)"
    using l(2,3) h(5) buffered_bytes(1) [OF buf f(1)] fit cp
    unfolding flash_data_def Let_def
    by (cases "a mod 32 * 2 < 32") (simp_all add: hd del: One_nat_def add_2_eq_Suc')
  moreover have "collects (Some (a div 32, ?c)) ?s"
    using f(4-6) h(3) length_put [of "2 * (a mod 32)" d c] by (simp add: mult.commute)
  ultimately show thesis using l(1) that [of ?s] hi ov by simp
qed

lemma flash_record_leaves:
  assumes ok: "flash_record_ok (a, d)" and buf: "buffered s (a, d)" and hi: "HiAddress s = 0"
    and ov: "\<not> DataOverflow s" and cur: "collects cur s" and c: "content_for cur (a div 32) = None"
  shows "process_line s = Inr (Some IQRF_PGM_FLASH_BLOCK_READY, s\<lparr>Address := of_nat a\<rparr>)"
proof -
  note f = flash_record_facts [OF ok]
  from process_flash_record [OF ok buf hi ov] obtain l where
    l: "process_line s = flash_data l (s\<lparr>Address := of_nat a\<rparr>)" "a + length d div 2 \<le> l"
      "unat (of_nat a :: 16 word) = a" .
  from c obtain b c' where b: "cur = Some (b, c')" "b \<noteq> a div 32"
    by (cases cur) (auto split: if_splits)
  with cur have n: "MemoryBlockNumber s = of_nat b" "b < 2048" by simp_all
  have "MemoryBlockNumber s \<noteq> of_nat (a div 32)"
    using b(2) n block_number_inject [OF n(2) f(5)] by simp
  moreover have "MemoryBlockNumber s \<noteq> 0" "block_ready (s\<lparr>Address := of_nat a\<rparr>) = IQRF_PGM_FLASH_BLOCK_READY"
    using collects_ready [of b c' s] cur b(1) by (simp_all add: block_ready_def)
  ultimately show ?thesis
    using l buffered_bytes(1) [OF buf f(1)] f(6)
    unfolding flash_data_def Let_def by simp
qed

section \<open>A file of records\<close>

text \<open>The line that ends a file, and a file with one record in each line.\<close>

definition eof_line :: ustring where
  "eof_line = 0x3A # hex_text True [0, 0, 0, 1, 0xFF] @ [13, 10]"

definition flash_file :: "flash_record list \<Rightarrow> ustring" where
  "flash_file rs = concat (map record_line rs) @ eof_line"

text \<open>The records that are still to come: in the file, the first perhaps in the line buffer.\<close>

definition remaining :: "hex_pgm \<Rightarrow> flash_record list \<Rightarrow> bool" where
  "remaining s rs \<longleftrightarrow>
     length (IqrfPgmCodeLineBuffer s) = 64 \<and> HiAddress s = 0 \<and> \<not> DataOverflow s \<and>
     (\<exists>pre t rs'. 0 \<notin> set pre \<and> 0x3A \<notin> set pre \<and> t \<in> {[], eof_line} \<and>
        hexFile s = pre @ concat (map record_line rs') @ t \<and>
        (if DataInBufferReady s then \<exists>r. rs = r # rs' \<and> buffered s r else rs = rs'))"

lemma remaining_update [simp]:
  "remaining (s\<lparr>Address := a\<rparr>) rs = remaining s rs"
  "remaining (s\<lparr>MemoryBlock := m\<rparr>) rs = remaining s rs"
  "remaining (s\<lparr>MemoryBlockNumber := n\<rparr>) rs = remaining s rs"
  "remaining (s\<lparr>MemoryBlockProcessState := p\<rparr>) rs = remaining s rs"
  by (simp_all add: remaining_def buffered_def)

lemma sum_record_bytes: "sum_list (record_bytes r) = 0"
  by (simp add: record_bytes_def Let_def)

lemma length_record_bytes: "length (record_bytes r) = 5 + length (snd r)"
  by (simp add: record_bytes_def Let_def)

lemma fetch_record:
  assumes rem: "remaining s (r # rs)" and ok: "flash_record_ok r" and idle: "\<not> DataInBufferReady s"
    and cur: "collects cur s"
  obtains t where "fetch_line s = (None, t)" and "remaining t (r # rs)" and "DataInBufferReady t"
    and "collects cur t"
proof -
  from rem idle obtain pre t where f: "0 \<notin> set pre" "0x3A \<notin> set pre" "t \<in> {[], eof_line}"
    "hexFile s = pre @ record_line r @ concat (map record_line rs) @ t"
    and l: "length (IqrfPgmCodeLineBuffer s) = 64" "HiAddress s = 0" "\<not> DataOverflow s"
    by (auto simp: remaining_def)
  have n: "length (record_bytes r) < 64"
    using flash_record_facts(1) [of "fst r" "snd r"] ok by (simp add: length_record_bytes)
  have h: "hexFile s = pre @ 0x3A # hex_text True (record_bytes r) @ 13 # ([10] @ concat (map record_line rs) @ t)"
    using f(4) by (simp add: record_line_def)
  define u where "u = s\<lparr>IqrfPgmCodeLineBuffer := record_bytes r @ drop (length (record_bytes r)) (IqrfPgmCodeLineBuffer s),
      hexFile := [10] @ concat (map record_line rs) @ t\<rparr>"
  have "iqrfPgmReadHEXFileLine s = (IQRF_PGM_FILE_DATA_READY, u)"
    using read_line_hex [OF l(1) n _ f(1,2) h] by (simp add: sum_record_bytes u_def)
  then have "fetch_line s = (None, u\<lparr>DataInBufferReady := True\<rparr>)"
    using idle by (simp add: fetch_line_def)
  moreover have "remaining (u\<lparr>DataInBufferReady := True\<rparr>) (r # rs)"
    unfolding remaining_def using l n f(3)
    by (intro conjI exI [of _ "[10]"] exI [of _ t] exI [of _ rs]) (auto simp: u_def buffered_def)
  moreover have "collects cur (u\<lparr>DataInBufferReady := True\<rparr>)"
    using cur by (cases cur rule: option.exhaust) (auto simp: u_def)
  ultimately show thesis using that by simp
qed

lemma prepare_loop_fetched:
  assumes "fetch_line s = (None, t)"
  shows "prepare_loop s = prepare_loop t"
proof -
  have "DataInBufferReady t" by (rule fetch_line_file(1) [OF assms])
  then have "fetch_line t = (None, t)" by (simp add: fetch_line_def)
  with assms show ?thesis by (subst (1 2) prepare_loop.simps) simp
qed

lemma prepare_loop_ready:
  "DataInBufferReady t \<Longrightarrow> prepare_loop t =
     (case process_line t of Inl e \<Rightarrow> Inl e | Inr (Some r, s) \<Rightarrow> Inr (r, s)
      | Inr (None, s) \<Rightarrow> prepare_loop (s\<lparr>DataInBufferReady := False\<rparr>))"
  by (subst prepare_loop.simps) (simp add: fetch_line_def)

text \<open>At the end of the file the block that has been collected is given out, once.\<close>

lemma prepare_loop_no_line:
  assumes "\<not> DataInBufferReady s" and "find_start (hexFile s) = (0, [])" and "\<not> DataOverflow s"
  shows "prepare_loop s =
    Inr (if MemoryBlockNumber s \<noteq> 0 then block_ready s else IQRF_PGM_SUCCESS, s\<lparr>hexFile := []\<rparr>)"
  using assms
  by (subst prepare_loop.simps) (simp add: fetch_line_def iqrfPgmReadHEXFileLine_def block_ready_def)

lemma prepare_loop_end:
  assumes rem: "remaining s []" and cur: "collects cur s"
  obtains s' where "prepare_loop s =
      Inr (if MemoryBlockNumber s \<noteq> 0 then block_ready s else IQRF_PGM_SUCCESS, s')"
    and "remaining s' []" and "collects cur s'"
proof -
  have l: "length (IqrfPgmCodeLineBuffer s) = 64" "HiAddress s = 0" "\<not> DataOverflow s" "\<not> DataInBufferReady s"
    using rem by (auto simp: remaining_def split: if_splits)
  with rem have "\<exists>pre t. 0 \<notin> set pre \<and> 0x3A \<notin> set pre \<and> t \<in> {[], eof_line} \<and> hexFile s = pre @ t"
    unfolding remaining_def by auto
  then obtain pre t where f: "0 \<notin> set pre" "0x3A \<notin> set pre" "t \<in> {[], eof_line}" "hexFile s = pre @ t"
    by blast
  have fin: "prepare_loop u = Inr (if MemoryBlockNumber s \<noteq> 0 then block_ready s else IQRF_PGM_SUCCESS,
        u\<lparr>hexFile := []\<rparr>) \<and> remaining (u\<lparr>hexFile := []\<rparr>) [] \<and> collects cur (u\<lparr>hexFile := []\<rparr>)"
    if "find_start (hexFile u) = (0, [])" "MemoryBlockNumber u = MemoryBlockNumber s"
      "length (IqrfPgmCodeLineBuffer u) = 64" "HiAddress u = 0" "\<not> DataOverflow u"
      "\<not> DataInBufferReady u" "collects cur u" for u
    using that prepare_loop_no_line [of u]
    by (cases cur) (auto simp: remaining_def block_ready_def intro!: exI [of _ "[]"])
  show thesis
  proof (cases "t = []")
    case True
    with f have "find_start (hexFile s) = (0, [])" using find_start_none [of pre] by simp
    with fin [of s] l cur that show thesis by blast
  next
    case False
    with f(3,4) have h: "hexFile s = pre @ 0x3A # hex_text True [0, 0, 0, 1, 0xFF] @ 13 # [10]"
      by (simp add: eof_line_def)
    define u where "u = s\<lparr>IqrfPgmCodeLineBuffer := [0, 0, 0, 1, 0xFF] @ drop (length [0, 0, 0, 1, 0xFF :: byte]) (IqrfPgmCodeLineBuffer s),
      hexFile := [10]\<rparr>"
    have "iqrfPgmReadHEXFileLine s = (IQRF_PGM_FILE_DATA_READY, u)"
      using read_line_hex [OF l(1) _ _ f(1,2) h] by (simp add: u_def)
    then have "fetch_line s = (None, u\<lparr>DataInBufferReady := True\<rparr>)" using l(4) by (simp add: fetch_line_def)
    then have "prepare_loop s = prepare_loop (u\<lparr>DataInBufferReady := True\<rparr>)" by (rule prepare_loop_fetched)
    also have "\<dots> = prepare_loop (u\<lparr>DataInBufferReady := False\<rparr>)"
      by (subst prepare_loop_ready) (simp_all add: process_line_def u_def)
    finally have p: "prepare_loop s = prepare_loop (u\<lparr>DataInBufferReady := False\<rparr>)" .
    have "collects cur (u\<lparr>DataInBufferReady := False\<rparr>)"
      using cur by (cases cur rule: option.exhaust) (auto simp: u_def)
    with fin [of "u\<lparr>DataInBufferReady := False\<rparr>"] l p that show thesis by (auto simp: u_def)
  qed
qed

lemma remaining_done:
  assumes "remaining t (r # rs)" and "DataInBufferReady t"
    and "hexFile u = hexFile t" and "IqrfPgmCodeLineBuffer u = IqrfPgmCodeLineBuffer t"
    and "HiAddress u = 0" and "\<not> DataOverflow u"
  shows "remaining (u\<lparr>DataInBufferReady := False\<rparr>) rs"
  using assms by (auto simp: remaining_def)

text \<open>One call: the records of one block are collected, in the order of the file.\<close>

lemma prepare_loop_records:
  "\<forall>r \<in> set rs. flash_record_ok r \<Longrightarrow> remaining s rs \<Longrightarrow> collects cur s \<Longrightarrow> cur \<noteq> None \<or> rs \<noteq> [] \<Longrightarrow>
   \<exists>b c rs' s'. prepare_loop s = Inr (IQRF_PGM_FLASH_BLOCK_READY, s') \<and> collects (Some (b, c)) s' \<and>
     remaining s' rs' \<and> set rs' \<subseteq> set rs \<and> length rs' \<le> length rs \<and>
     (cur = None \<longrightarrow> length rs' < length rs) \<and>
     programmed cur rs = block_packets b c @ programmed None rs'"
proof (induction rs arbitrary: s cur)
  case Nil
  then obtain b c where cur: "cur = Some (b, c)" by auto
  from prepare_loop_end [OF Nil.prems(2,3)] obtain s' where
    "prepare_loop s = Inr (if MemoryBlockNumber s \<noteq> 0 then block_ready s else IQRF_PGM_SUCCESS, s')"
    "remaining s' []" "collects cur s'" .
  with collects_ready [of b c s] Nil.prems(3) cur show ?case
    by (intro exI [of _ b] exI [of _ c] exI [of _ "[]"] exI [of _ s']) simp
next
  case (Cons r rs)
  obtain a d where r: "r = (a, d)" by (cases r)
  have ok: "flash_record_ok (a, d)" using Cons.prems(1) r by simp
  have ready: "\<exists>b c rs' s'. prepare_loop t = Inr (IQRF_PGM_FLASH_BLOCK_READY, s') \<and>
      collects (Some (b, c)) s' \<and> remaining s' rs' \<and> set rs' \<subseteq> set (r # rs) \<and>
      length rs' \<le> length (r # rs) \<and> (cur = None \<longrightarrow> length rs' < length (r # rs)) \<and>
      programmed cur (r # rs) = block_packets b c @ programmed None rs'"
    if t: "remaining t (r # rs)" "DataInBufferReady t" "collects cur t" for t
  proof -
    have st: "buffered t (a, d)" "HiAddress t = 0" "\<not> DataOverflow t"
      using t(1,2) r by (auto simp: remaining_def)
    show ?thesis
    proof (cases "content_for cur (a div 32)")
      case (Some c)
      from flash_record_joins [OF ok st t(3) Some] obtain u where
        u: "process_line t = Inr (None, u)" "collects (Some (a div 32, put (2 * (a mod 32)) d c)) u"
          "HiAddress u = 0" "\<not> DataOverflow u" "hexFile u = hexFile t"
          "IqrfPgmCodeLineBuffer u = IqrfPgmCodeLineBuffer t" .
      let ?cur = "Some (a div 32, put (2 * (a mod 32)) d c)"
      have p: "prepare_loop t = prepare_loop (u\<lparr>DataInBufferReady := False\<rparr>)"
        using t(2) u(1) by (subst prepare_loop_ready) simp_all
      have "programmed cur (r # rs) = programmed ?cur rs"
        using Some r by (cases cur) (auto split: if_splits)
      moreover have "\<exists>b c rs' s'. prepare_loop (u\<lparr>DataInBufferReady := False\<rparr>) =
            Inr (IQRF_PGM_FLASH_BLOCK_READY, s') \<and> collects (Some (b, c)) s' \<and> remaining s' rs' \<and>
          set rs' \<subseteq> set rs \<and> length rs' \<le> length rs \<and> (?cur = None \<longrightarrow> length rs' < length rs) \<and>
          programmed ?cur rs = block_packets b c @ programmed None rs'"
        by (rule Cons.IH) (use Cons.prems(1) u remaining_done [OF t(1,2) u(5,6,3,4)] in simp_all)
      ultimately show ?thesis unfolding p by fastforce
    next
      case None
      from flash_record_leaves [OF ok st t(3) None] t(2) have p:
        "prepare_loop t = Inr (IQRF_PGM_FLASH_BLOCK_READY, t\<lparr>Address := of_nat a\<rparr>)"
        by (subst prepare_loop_ready) simp_all
      from None obtain b c where cur: "cur = Some (b, c)" "b \<noteq> a div 32"
        by (cases cur) (auto split: if_splits)
      have "remaining (t\<lparr>Address := of_nat a\<rparr>) (r # rs)" "collects (Some (b, c)) (t\<lparr>Address := of_nat a\<rparr>)"
        using t cur by simp_all
      with p cur r show ?thesis
        by (intro exI [of _ b] exI [of _ c] exI [of _ "r # rs"] exI [of _ "t\<lparr>Address := of_nat a\<rparr>"]) simp
    qed
  qed
  show ?case
  proof (cases "DataInBufferReady s")
    case True
    with ready Cons.prems(2,3) show ?thesis by blast
  next
    case False
    have "flash_record_ok r" using ok r by simp
    from fetch_record [OF Cons.prems(2) this False Cons.prems(3)] obtain t where
      t: "fetch_line s = (None, t)" "remaining t (r # rs)" "DataInBufferReady t" "collects cur t" .
    from ready [OF t(2-4)] show ?thesis unfolding prepare_loop_fetched [OF t(1)] .
  qed
qed

text \<open>The packets of a run, with a check that none is read from beyond the image.\<close>

definition log_packet :: "byte \<Rightarrow> ustring \<Rightarrow> nat \<Rightarrow> packet list \<Rightarrow> (thrown + unit) \<times> packet list" where
  "log_packet Target mem DataSize u =
     (if DataSize \<le> length mem then (Inr (), u @ [(Target, take DataSize mem)])
      else (Inl UndefinedBehaviour, u))"

lemma write_flash_packets:
  assumes "collects (Some (b, c)) s"
  shows "write_packets log_packet IQRF_PGM_FLASH_BLOCK_READY (unat (MemoryBlockProcessState s)) s u =
    (Inr (s\<lparr>MemoryBlockProcessState := 0\<rparr>), u @ block_packets b c)"
proof -
  from assms have m: "MemoryBlock s = image (address_bytes (32 * b)) (address_bytes (32 * b + 16)) c"
    "length c = 64" "unat (MemoryBlockProcessState s) = Suc (Suc 0)" by auto
  from m(1,2) show ?thesis
    unfolding m(3) write_packets.simps
    by (simp add: packet_def log_packet_def image_def address_bytes_def block_packets_def)
qed

lemma program_loop_records:
  "\<forall>r \<in> set rs. flash_record_ok r \<Longrightarrow> remaining s rs \<Longrightarrow>
   \<exists>s'. program_loop log_packet s u = (Inr (IQRF_PGM_SUCCESS, s'), u @ programmed None rs)"
proof (induction "length rs" arbitrary: rs s u rule: less_induct)
  case less
  define t where "t = s\<lparr>MemoryBlock := concat (replicate 34 [0xFF, 0x3F]), MemoryBlockNumber := 0\<rparr>"
  have p: "iqrfPgmPrepareMemBlock s = prepare_loop t"
    using less.prems(2) by (simp add: iqrfPgmPrepareMemBlock_def t_def remaining_def)
  have rem: "remaining t rs" using less.prems(2) by (simp add: t_def)
  have cur: "collects None t" by (simp add: t_def blank_image)
  show ?case
  proof (cases "rs = []")
    case True
    from prepare_loop_end [OF rem [unfolded True] cur] cur obtain s' where
      "prepare_loop t = Inr (IQRF_PGM_SUCCESS, s')" by auto
    with p True show ?thesis by (subst program_loop.simps) simp
  next
    case False
    from prepare_loop_records [OF less.prems(1) rem cur] False obtain b c rs' s' where
      r: "prepare_loop t = Inr (IQRF_PGM_FLASH_BLOCK_READY, s')" "collects (Some (b, c)) s'"
        "remaining s' rs'" "set rs' \<subseteq> set rs" "length rs' < length rs"
        "programmed None rs = block_packets b c @ programmed None rs'" by auto
    have "program_loop log_packet s u =
        program_loop log_packet (s'\<lparr>MemoryBlockProcessState := 0\<rparr>) (u @ block_packets b c)"
      using p r(1) write_flash_packets [OF r(2)] by (subst program_loop.simps) simp
    moreover have "remaining (s'\<lparr>MemoryBlockProcessState := 0\<rparr>) rs'"
      using r(3) by simp
    ultimately show ?thesis
      using less.hyps [OF r(5), of "s'\<lparr>MemoryBlockProcessState := 0\<rparr>" "u @ block_packets b c"]
        less.prems(1) r(4,6) by auto
  qed
qed

lemma initial_remaining: "remaining (initial_pgm (flash_file rs)) rs"
  unfolding remaining_def
  by (intro conjI exI [of _ "[]"] exI [of _ eof_line] exI [of _ rs])
    (simp_all add: initial_pgm_def SIZE_OF_CODE_LINE_BUFFER_def flash_file_def)

section \<open>Properties\<close>

text \<open>
  C31. A line of hexadecimal digits in capitals or small letters, behind anything that holds no
  colon and no zero byte, is read back: the buffer starts with exactly the bytes that were
  written, its remaining elements keep their values, and only the line is consumed. The result
  says whether the bytes add up to zero, the rule for the checksum at the end of a line.
\<close>

theorem hex_line_roundtrip:
  assumes "length (IqrfPgmCodeLineBuffer s) = 64" and "length bs < 64" and "e \<in> {10, 13}"
    and "0 \<notin> set pre" and "0x3A \<notin> set pre"
    and "hexFile s = pre @ 0x3A # hex_text capital bs @ e # rest"
  shows "iqrfPgmReadHEXFileLine s =
    (if sum_list bs = 0 then IQRF_PGM_FILE_DATA_READY else IQRF_PGM_FILE_DATA_ERROR,
     s\<lparr>IqrfPgmCodeLineBuffer := bs @ drop (length bs) (IqrfPgmCodeLineBuffer s), hexFile := rest\<rparr>)"
  by (rule read_line_hex [OF assms])

theorem hex_line_roundtrip_witness:
  "iqrfPgmReadHEXFileLine (initial_pgm ([10] @ 0x3A # hex_text True [0, 0, 0, 1, 0xFF] @ 13 # [10])) =
     (IQRF_PGM_FILE_DATA_READY,
      (initial_pgm [10])\<lparr>IqrfPgmCodeLineBuffer := [0, 0, 0, 1, 0xFF] @ replicate 59 0\<rparr>)"
  using hex_line_roundtrip [of "initial_pgm ([10] @ 0x3A # hex_text True [0, 0, 0, 1, 0xFF] @ 13 # [10])"
      "[0, 0, 0, 1, 0xFF]" 13 "[10]" True "[10]"]
  by (simp add: initial_pgm_def SIZE_OF_CODE_LINE_BUFFER_def)

text \<open>
  C29. The programmer uploads what the file says. For every sequence of data records in the two
  flash areas, each inside one half of a block of 32 words, the run of the program on the hex
  file of these records ends with success and its uploads are those of the reference: the
  records that follow each other in one block are merged into one image over erased words, in
  the order of the file, and each image is uploaded as its two halves with their addresses.
\<close>

theorem flash_file_programmed:
  assumes "\<forall>r \<in> set rs. flash_record_ok r"
  shows "\<exists>s'. program_loop log_packet (initial_pgm (flash_file rs)) [] =
    (Inr (IQRF_PGM_SUCCESS, s'), programmed None rs)"
  using program_loop_records [OF assms initial_remaining, of "[]"] by simp

theorem flash_file_programmed_witness:
  "\<exists>s'. program_loop log_packet (initial_pgm (flash_file [(0x3A00, [1, 2]), (0x3A12, [3, 4]), (0x2C20, [5, 6])])) [] =
    (Inr (IQRF_PGM_SUCCESS, s'), programmed None [(0x3A00, [1, 2]), (0x3A12, [3, 4]), (0x2C20, [5, 6])])"
  by (rule flash_file_programmed)
    (simp add: flash_record_ok_def IQRF_MAIN_MEM_MIN_ADR_def IQRF_MAIN_MEM_MAX_ADR_def
      IQRF_LICENCED_MEM_MIN_ADR_def IQRF_LICENCED_MEM_MAX_ADR_def)

end
