(* ===== verification/Pgm_Hex_Safe.thy ===== *)
theory Pgm_Hex_Safe
  imports Pgm_Hex_Correct
begin

text \<open>
  The arrays of the hex file programmer. The byte count at the start of a line is the only
  thing the copying loops trust: as long as no line of the file has a count above 60, no access
  leaves an array, for every file and every type of data. Every run ends.
\<close>

unbundle bit_operations_syntax

section \<open>The counts of a file\<close>

text \<open>Wherever a line may start in the file, the two characters behind the colon are at most 60.\<close>

fun short_counts :: "ustring \<Rightarrow> bool" where
  "short_counts (x # a # b # f) =
     ((x = 0x3A \<longrightarrow> unat (iqrfPgmConvertToNum (tolower a) (tolower b)) \<le> 60) \<and> short_counts (a # b # f))"
| "short_counts _ = True"

lemma short_counts_tail: "short_counts (x # f) \<Longrightarrow> short_counts f"
  by (cases f; cases "tl f") auto

lemma short_counts_suffix: "short_counts (pre @ f) \<Longrightarrow> short_counts f"
  by (induction pre) (auto dest: short_counts_tail)

lemma short_counts_at:
  "short_counts (pre @ 0x3A # a # b # rest) \<Longrightarrow>
     unat (iqrfPgmConvertToNum (tolower a) (tolower b)) \<le> 60"
  by (drule short_counts_suffix) simp

lemma find_start_suffix:
  "find_start f = (c, f') \<Longrightarrow> c \<noteq> 0 \<Longrightarrow> \<exists>pre. f = pre @ 0x3A # f'"
proof (induction f)
  case (Cons x f)
  show ?case
  proof (cases "x \<noteq> 0 \<and> x \<noteq> 0x3A")
    case True
    with Cons obtain pre where "f = pre @ 0x3A # f'" by auto
    then show ?thesis by (intro exI [of _ "x # pre"]) simp
  next
    case False
    with Cons.prems show ?thesis by (auto intro: exI [of _ "[]"])
  qed
qed simp

lemma find_start_suffix2: "find_start f = (c, f') \<Longrightarrow> \<exists>pre. f = pre @ f'"
proof (induction f)
  case (Cons x f)
  show ?case
  proof (cases "x \<noteq> 0 \<and> x \<noteq> 0x3A")
    case True
    with Cons obtain pre where "f = pre @ f'" by auto
    then show ?thesis by (intro exI [of _ "x # pre"]) simp
  next
    case False
    with Cons.prems show ?thesis by (auto intro: exI [of _ "[x]"])
  qed
qed simp

lemma readByte_suffix: "iqrfReadByteFromFile f = (c, f') \<Longrightarrow> \<exists>pre. f = pre @ f'"
  by (cases f) (auto intro: exI [of _ "[_]"])

text \<open>One round of the reading loop.\<close>

lemma read_line_data_round:
  obtains (eol) c1 f1 where "iqrfReadByteFromFile f = (c1, f1)" "tolower c1 \<in> {10, 13}"
      "read_line_data p c buf f =
        (if c \<noteq> 0 then IQRF_PGM_FILE_DATA_ERROR else IQRF_PGM_FILE_DATA_READY, buf, f1)"
  | (full) c1 f1 c2 f2 b where "iqrfReadByteFromFile f = (c1, f1)" "iqrfReadByteFromFile f1 = (c2, f2)"
      "b = iqrfPgmConvertToNum (tolower c1) (tolower c2)" "p + 1 \<ge> 64"
      "read_line_data p c buf f = (IQRF_PGM_FILE_DATA_ERROR, buf[p := b], f2)"
  | (more) c1 f1 c2 f2 b where "iqrfReadByteFromFile f = (c1, f1)" "iqrfReadByteFromFile f1 = (c2, f2)"
      "tolower c1 \<notin> {10, 13}" "b = iqrfPgmConvertToNum (tolower c1) (tolower c2)" "p + 1 < 64"
      "read_line_data p c buf f = read_line_data (p + 1) (c + b) (buf[p := b]) f2"
proof -
  obtain c1 f1 where 1: "iqrfReadByteFromFile f = (c1, f1)" by (cases "iqrfReadByteFromFile f")
  obtain c2 f2 where 2: "iqrfReadByteFromFile f1 = (c2, f2)" by (cases "iqrfReadByteFromFile f1")
  note eq = read_line_data.simps [of p c buf f, unfolded SIZE_OF_CODE_LINE_BUFFER_def]
  show thesis
  proof (cases "tolower c1 \<in> {10, 13}")
    case True
    with eol 1 eq show thesis by (simp add: Let_def)
  next
    case False
    show thesis
    proof (cases "p + 1 \<ge> 64")
      case True
      with full 1 2 False eq show thesis by (simp add: Let_def)
    next
      case less: False
      with more 1 2 False eq show thesis by (simp add: Let_def)
    qed
  qed
qed

lemma read_line_data_suffix:
  "read_line_data p c buf f = (r, buf', f') \<Longrightarrow> \<exists>pre. f = pre @ f'"
proof (induction "64 - p" arbitrary: p c buf f rule: less_induct)
  case less
  show ?case
  proof (cases rule: read_line_data_round [of f p c buf])
    case (eol c1 f1)
    with less.prems readByte_suffix [OF eol(1)] show ?thesis by auto
  next
    case (full c1 f1 c2 f2 b)
    with less.prems readByte_suffix [OF full(1)] readByte_suffix [OF full(2)] show ?thesis
      by (metis append.assoc prod.inject)
  next
    case (more c1 f1 c2 f2 b)
    have "64 - (p + 1) < 64 - p" using more(5) by simp
    from less.hyps [OF this, of "c + b" "buf[p := b]" f2] less.prems more(6) obtain pre where
      "f2 = pre @ f'" by auto
    moreover obtain pre1 pre2 where "f = pre1 @ f1" "f1 = pre2 @ f2"
      using readByte_suffix [OF more(1)] readByte_suffix [OF more(2)] by blast
    ultimately show ?thesis by (intro exI [of _ "pre1 @ pre2 @ pre"]) simp
  qed
qed

lemma read_line_data_first:
  "read_line_data p c buf f = (r, buf', f') \<Longrightarrow> 0 < p \<Longrightarrow> buf' ! 0 = buf ! 0"
proof (induction "64 - p" arbitrary: p c buf f rule: less_induct)
  case less
  show ?case
  proof (cases rule: read_line_data_round [of f p c buf])
    case (more c1 f1 c2 f2 b)
    have "64 - (p + 1) < 64 - p" using more(5) by simp
    from less.hyps [OF this, of "c + b" "buf[p := b]" f2] less.prems more(6) show ?thesis by simp
  qed (use less.prems in auto)
qed

lemma read_line_data_empty: "read_line_data p c buf [] = (r, buf', f') \<Longrightarrow> r = IQRF_PGM_FILE_DATA_ERROR"
proof (induction "64 - p" arbitrary: p c buf rule: less_induct)
  case less
  show ?case
  proof (cases rule: read_line_data_round [of "[]" p c buf])
    case (eol c1 f1)
    then have "c1 = 0" by simp
    with eol(2) show ?thesis by (simp add: tolower_def)
  next
    case (full c1 f1 c2 f2 b)
    with less.prems show ?thesis by simp
  next
    case (more c1 f1 c2 f2 b)
    have "64 - (p + 1) < 64 - p" "f2 = []" using more(1,2,5) by simp_all
    with less.hyps [of "p + 1" "c + b" "buf[p := b]"] less.prems more(6) show ?thesis by simp
  qed
qed

section \<open>The invariant\<close>

definition fits :: "hex_pgm \<Rightarrow> bool" where
  "fits s \<longleftrightarrow>
     length (MemoryBlock s) = 68 \<and> length (IqrfPgmCodeLineBuffer s) = 64 \<and>
     unat (IqrfPgmCodeLineBuffer s ! 0) \<le> 60 \<and> short_counts (hexFile s) \<and>
     unat (MemoryBlockProcessState s) \<le> 2"

lemma fits_update [simp]:
  "fits (s\<lparr>Address := a\<rparr>) = fits s" "fits (s\<lparr>HiAddress := h\<rparr>) = fits s"
  "fits (s\<lparr>MemoryBlockNumber := n\<rparr>) = fits s" "fits (s\<lparr>DataInBufferReady := b\<rparr>) = fits s"
  "fits (s\<lparr>DataOverflow := b\<rparr>) = fits s"
  by (simp_all add: fits_def)

lemma fits_block: "fits s \<Longrightarrow> length m = 68 \<Longrightarrow> fits (s\<lparr>MemoryBlock := m\<rparr>)"
  by (simp add: fits_def)

lemma fits_read_line:
  assumes "fits s" and "iqrfPgmReadHEXFileLine s = (r, s')" and "r \<noteq> IQRF_PGM_FILE_DATA_ERROR"
  shows "fits s'"
proof -
  obtain c f1 where 1: "find_start (hexFile s) = (c, f1)" by (cases "find_start (hexFile s)")
  show ?thesis
  proof (cases "c = 0")
    case True
    with assms(2) 1 have "s' = s\<lparr>hexFile := f1\<rparr>" by (auto simp: iqrfPgmReadHEXFileLine_def)
    with assms(1) find_start_suffix2 [OF 1] short_counts_suffix show ?thesis
      by (auto simp: fits_def)
  next
    case False
    obtain r2 b f where 2: "read_line_data 0 0 (IqrfPgmCodeLineBuffer s) f1 = (r2, b, f)"
      by (cases "read_line_data 0 0 (IqrfPgmCodeLineBuffer s) f1") auto
    have s': "r = r2" "s' = s\<lparr>IqrfPgmCodeLineBuffer := b, hexFile := f\<rparr>"
      using assms(2) 1 2 False by (auto simp: iqrfPgmReadHEXFileLine_def)
    from find_start_suffix [OF 1 False] obtain pre where pre: "hexFile s = pre @ 0x3A # f1" by blast
    from read_line_data_suffix [OF 2] obtain pre2 where "f1 = pre2 @ f" by blast
    with pre assms(1) have sc: "short_counts f"
      using short_counts_suffix [of "pre @ 0x3A # pre2" f] by (simp add: fits_def)
    have "unat (b ! 0) \<le> 60"
    proof (cases rule: read_line_data_round [of f1 0 0 "IqrfPgmCodeLineBuffer s"])
      case (eol c1 f2)
      with 2 assms(1) show ?thesis by (simp add: fits_def)
    next
      case (full c1 f2 c2 f3 x)
      then show ?thesis by simp
    next
      case (more c1 f2 c2 f3 x)
      from 2 more(6) have run: "read_line_data 1 x ((IqrfPgmCodeLineBuffer s)[0 := x]) f3 = (r2, b, f)"
        by simp
      have "f2 \<noteq> []"
        using read_line_data_empty run more(2) s'(1) assms(3) by auto
      with more(1,2) have "f1 = c1 # c2 # f3" by (cases f1; cases f2) auto
      with pre more(4) assms(1) have "unat x \<le> 60"
        unfolding fits_def using short_counts_at by metis
      moreover have "b ! 0 = x"
        using read_line_data_first [OF run] assms(1) by (simp add: fits_def)
      ultimately show ?thesis by simp
    qed
    with sc assms(1) read_line_data_length [OF 2] show ?thesis by (simp add: s'(2) fits_def)
  qed
qed

lemma fits_overflow: "fits s \<Longrightarrow> fits (iqrfPgmMoveOverflowedData s)"
  by (simp add: fits_def iqrfPgmMoveOverflowedData_def Let_def)

lemma fits_fetch_line:
  assumes "fits s" and "fetch_line s = (q, s')" and "q \<noteq> Some IQRF_PGM_ERROR"
  shows "fits s'" and "q \<noteq> Some IQRF_PGM_EEPROM_BLOCK_READY"
proof -
  obtain l u where l: "iqrfPgmReadHEXFileLine s = (l, u)" by (cases "iqrfPgmReadHEXFileLine s")
  show "fits s'"
    using assms l fits_read_line [OF assms(1) l] fits_overflow
    by (auto simp: fetch_line_def split: if_splits line_result.splits)
  show "q \<noteq> Some IQRF_PGM_EEPROM_BLOCK_READY"
    using assms l by (auto simp: fetch_line_def block_ready_def split: if_splits line_result.splits)
qed

lemma fits_locate: "fits s \<Longrightarrow> fits (locate s)"
  by (simp add: locate_def Let_def fits_overflow)

section \<open>The copying loops\<close>

lemma copy_serial_ok:
  "length line = 64 \<Longrightarrow> length block = 68 \<Longrightarrow> Cnt + n \<le> 30 \<Longrightarrow> dest < 68 \<Longrightarrow>
     \<exists>b. copy_serial line Cnt n dest block = Inr b \<and> length b = 68"
  by (induction n arbitrary: Cnt dest block) (auto simp: Let_def)

lemma copy_internal_ok:
  "length line = 64 \<Longrightarrow> length block = 68 \<Longrightarrow> Cnt + n \<le> 30 \<Longrightarrow>
     \<exists>b. copy_internal line Cnt n block = Inr b \<and> length b = 68 \<and> b ! 1 = block ! 1"
proof (induction n arbitrary: Cnt block)
  case (Suc n)
  from Suc.IH [of "block[Cnt + 2 := line ! (2 * Cnt + 4)]" "Suc Cnt"] Suc.prems show ?case by simp
qed simp

lemma copy_flash_ok:
  "length line = 64 \<Longrightarrow> length block = 68 \<Longrightarrow> n \<le> 60 \<Longrightarrow> dest + n \<le> 68 \<Longrightarrow>
     \<exists>b. copy_flash line n dest block = Inr b \<and> length b = 68"
  by (simp add: copy_flash_def)

text \<open>A result that the main loop can write: what it takes from the image is inside it.\<close>

definition writable :: "pgm_result option \<Rightarrow> hex_pgm \<Rightarrow> bool" where
  "writable q s \<longleftrightarrow> fits s \<and> (q = Some IQRF_PGM_EEPROM_BLOCK_READY \<longrightarrow> unat (MemoryBlock s ! 1) \<le> 32)"

lemma block_ready_cases: "block_ready s \<noteq> IQRF_PGM_EEPROM_BLOCK_READY"
  by (simp add: block_ready_def)

lemma serial_data_fits:
  assumes "fits s"
  shows "\<exists>q s'. serial_data s = Inr (q, s') \<and> writable q s'"
proof -
  define t where "t = (if MemoryBlockNumber s = 0 then
                 (let MemBlock = (unat (Address s) - 0x200) div 32 * 32;
                      b = replicate 68 0;
                      b = b[34 := low_byte MemBlock];
                      b = b[35 := high_byte MemBlock];
                      MemBlock = MemBlock + 0x20;
                      b = b[0 := low_byte MemBlock];
                      b = b[1 := high_byte MemBlock]
                  in s\<lparr>MemoryBlock := b, MemoryBlockNumber := of_nat (unat (Address s) div 32),
                       MemoryBlockProcessState := 1\<rparr>)
               else s)"
  have t: "fits t" "IqrfPgmCodeLineBuffer t = IqrfPgmCodeLineBuffer s"
    using assms by (simp_all add: t_def fits_def Let_def)
  let ?n = "unat (IqrfPgmCodeLineBuffer s ! 0) div 2" and ?d = "unat (Address s) mod 32 + 36"
  have "unat (IqrfPgmCodeLineBuffer s ! 0) \<le> 60" using assms by (simp add: fits_def)
  then have n: "0 + ?n \<le> 30" by linarith
  obtain b where b: "copy_serial (IqrfPgmCodeLineBuffer s) 0 ?n ?d (MemoryBlock t) = Inr b" "length b = 68"
    using copy_serial_ok [OF _ _ n, of "IqrfPgmCodeLineBuffer s" "MemoryBlock t" ?d] assms t
    by (auto simp: fits_def)
  show ?thesis
    unfolding serial_data_def Let_def
    unfolding t_def [unfolded Let_def, symmetric]
    using t(1) b block_ready_cases [of t] fits_block by (simp add: writable_def)
qed

lemma flash_data_fits:
  assumes "fits s" and "unat (Address s) \<le> l"
  shows "\<exists>q s'. flash_data l s = Inr (q, s') \<and> writable q s'"
proof -
  define adr where "adr = unat (Address s)"
  define dest where "dest = (if adr mod 32 * 2 < 32 then adr mod 32 * 2 + 2 else adr mod 32 * 2 + 4)"
  define count where "count = unat (IqrfPgmCodeLineBuffer s ! 0)"
  define n where "n = (if adr + count div 2 > l then (l - adr) * 2 else count)"
  have f: "length (MemoryBlock s) = 68" "length (IqrfPgmCodeLineBuffer s) = 64" "count \<le> 60"
    using assms(1) by (simp_all add: fits_def count_def)
  have n: "n \<le> 60" using f(3) assms(2) by (auto simp: n_def adr_def)
  define b where "b = ((MemoryBlock s)[0 := low_byte (adr div 32 * 32), 1 := high_byte (adr div 32 * 32),
      34 := low_byte (adr div 32 * 32 + 16), 35 := high_byte (adr div 32 * 32 + 16)])"
  have fl: "flash_data l s =
      (if dest + n > 68 then Inr (Some IQRF_PGM_ERROR, s)
       else if MemoryBlockNumber s \<noteq> 0 \<and> MemoryBlockNumber s \<noteq> of_nat (adr div 32)
       then Inr (Some (block_ready s), s)
       else
         (case copy_flash (IqrfPgmCodeLineBuffer s) n dest b of
            Inl e \<Rightarrow> Inl e
          | Inr b \<Rightarrow> Inr (None, s\<lparr>MemoryBlockNumber := of_nat (adr div 32),
              MemoryBlockProcessState := 2, MemoryBlock := b\<rparr>)))"
    by (simp only: flash_data_def Let_def adr_def dest_def count_def n_def b_def) simp
  show ?thesis
  proof (cases "dest + n > 68 \<or> MemoryBlockNumber s \<noteq> 0 \<and> MemoryBlockNumber s \<noteq> of_nat (adr div 32)")
    case True
    with assms(1) block_ready_cases [of s] show ?thesis by (auto simp: fl writable_def)
  next
    case False
    then have "dest + n \<le> 68" by simp
    from copy_flash_ok [OF f(2) _ n this, of b] f(1) obtain b' where
      "copy_flash (IqrfPgmCodeLineBuffer s) n dest b = Inr b'" "length b' = 68" by (auto simp: b_def)
    with False assms(1) show ?thesis by (auto simp: fl writable_def fits_def)
  qed
qed

lemma internal_data_fits:
  assumes "fits s"
  shows "\<exists>q s'. internal_data s = Inr (q, s') \<and> writable q s'"
proof -
  let ?n = "unat (IqrfPgmCodeLineBuffer s ! 0) div 2"
  have f: "length (MemoryBlock s) = 68" "length (IqrfPgmCodeLineBuffer s) = 64"
    "unat (IqrfPgmCodeLineBuffer s ! 0) \<le> 60"
    using assms by (simp_all add: fits_def)
  then have n: "?n \<le> 30" by linarith
  then have u: "unat (of_nat ?n :: byte) = ?n" by (simp add: unsigned_of_nat take_bit_nat_eq_self)
  define b where "b = (MemoryBlock s)[0 := low_byte (unat (Address s)), 1 := of_nat ?n]"
  have b: "length b = 68" "unat (b ! 1) = ?n" using f(1) u by (simp_all add: b_def)
  have il: "internal_data s =
      (if MemoryBlockNumber s \<noteq> 0 then Inr (Some (block_ready s), s)
       else if unat (Address s) + ?n > PIC16LF1938_EEPROM_MAX \<or> ?n > 32
       then Inr (Some IQRF_PGM_ERROR, s\<lparr>MemoryBlock := b\<rparr>)
       else (case copy_internal (IqrfPgmCodeLineBuffer s) 0 ?n b of
               Inl e \<Rightarrow> Inl e
             | Inr b \<Rightarrow> Inr (Some IQRF_PGM_EEPROM_BLOCK_READY,
                 s\<lparr>MemoryBlock := b, DataInBufferReady := False, MemoryBlockProcessState := 1\<rparr>)))"
    unfolding b(2) [symmetric]
    by (simp only: internal_data_def Let_def b_def) (simp split: sum.split)
  show ?thesis
  proof (cases "MemoryBlockNumber s \<noteq> 0 \<or> unat (Address s) + ?n > PIC16LF1938_EEPROM_MAX \<or> ?n > 32")
    case True
    with assms block_ready_cases [of s] fits_block [OF assms b(1)] show ?thesis
      by (auto simp: il writable_def)
  next
    case False
    from copy_internal_ok [OF f(2) b(1), of 0 ?n] n obtain b' where
      "copy_internal (IqrfPgmCodeLineBuffer s) 0 ?n b = Inr b'" "length b' = 68" "b' ! 1 = b ! 1" by auto
    with False assms b n show ?thesis by (auto simp: il writable_def fits_def)
  qed
qed

lemma process_line_fits:
  assumes "fits s"
  shows "\<exists>q s'. process_line s = Inr (q, s') \<and> writable q s'"
proof (cases "IqrfPgmCodeLineBuffer s ! 3 = 0")
  case False
  with assms show ?thesis by (simp add: process_line_def Let_def writable_def)
next
  case True
  have g: "fits (locate s)" by (rule fits_locate [OF assms])
  show ?thesis
    using serial_data_fits [OF g] flash_data_fits [OF g] internal_data_fits [OF g] True g
    by (simp add: process_line_def Let_def writable_def)
qed

lemma prepare_loop_fits:
  "fits s \<Longrightarrow> \<exists>r s'. prepare_loop s = Inr (r, s') \<and> (r = IQRF_PGM_ERROR \<or> writable (Some r) s')"
proof (induction s rule: prepare_loop.induct)
  case (1 s)
  obtain q t where t: "fetch_line s = (q, t)" by (cases "fetch_line s")
  show ?case
  proof (cases q)
    case (Some r)
    with t have "prepare_loop s = Inr (r, t)" by (subst prepare_loop.simps) simp
    with fits_fetch_line [OF "1.prems" t] Some show ?thesis by (auto simp: writable_def)
  next
    case None
    with fits_fetch_line [OF "1.prems" t] have ft: "fits t" by simp
    from process_line_fits [OF ft] obtain z v where z: "process_line t = Inr (z, v)" "writable z v" by blast
    show ?thesis
    proof (cases z)
      case (Some r)
      with t None z have "prepare_loop s = Inr (r, v)" by (subst prepare_loop.simps) simp
      with z Some show ?thesis by auto
    next
      case none: None
      with t None z have "prepare_loop s = prepare_loop (v\<lparr>DataInBufferReady := False\<rparr>)"
        by (subst prepare_loop.simps) simp
      moreover have "fits (v\<lparr>DataInBufferReady := False\<rparr>)" using z by (simp add: writable_def)
      ultimately show ?thesis using "1.IH" [OF t [symmetric] None z(1) refl none] by simp
    qed
  qed
qed

lemma prepare_fits:
  assumes "fits s"
  obtains r s' where "iqrfPgmPrepareMemBlock s = Inr (r, s')"
    and "r = IQRF_PGM_ERROR \<or> writable (Some r) s'"
proof -
  define t where "t = (if \<not> DataOverflow s then s\<lparr>MemoryBlock := concat (replicate 34 [0xFF, 0x3F])\<rparr>
    else s)\<lparr>MemoryBlockNumber := 0\<rparr>"
  have "length (concat (replicate 34 [0xFF, 0x3F :: byte])) = 68" by (simp add: numeral_eq_Suc)
  with assms have "fits t" by (simp add: t_def fits_def)
  from prepare_loop_fits [OF this] that show thesis
    by (auto simp: iqrfPgmPrepareMemBlock_def Let_def t_def [symmetric])
qed

text \<open>The packets of a block are inside the image.\<close>

lemma packet_fits:
  assumes "writable (Some r) s" and "r \<notin> {IQRF_PGM_SUCCESS, IQRF_PGM_ERROR}"
    and "packet r k s = (Target, start, DataSize, s')"
  shows "start + DataSize \<le> 68" and "writable (Some r) s'" and "length (MemoryBlock s') = 68"
  using assms by (cases r; auto simp: packet_def writable_def fits_def)+

lemma write_packets_fits:
  "writable (Some r) s \<Longrightarrow> r \<notin> {IQRF_PGM_SUCCESS, IQRF_PGM_ERROR} \<Longrightarrow> n \<le> 2 \<Longrightarrow>
   \<exists>s' v. write_packets log_packet r n s u = (Inr s', u @ v) \<and> fits s' \<and> length v = n"
proof (induction n arbitrary: s u)
  case 0
  then show ?case by (simp add: writable_def)
next
  case (Suc n)
  obtain Target start DataSize t where p: "packet r (Suc n) s = (Target, start, DataSize, t)"
    by (cases "packet r (Suc n) s") auto
  note t = packet_fits [OF Suc.prems(1,2) p]
  let ?u = "u @ [(Target, take DataSize (drop start (MemoryBlock t)))]"
  let ?t = "t\<lparr>MemoryBlockProcessState := of_nat n\<rparr>"
  have "writable (Some r) ?t"
    using t(2) Suc.prems(3) by (simp add: writable_def fits_def unsigned_of_nat take_bit_nat_eq_self)
  from Suc.IH [OF this Suc.prems(2), of ?u] Suc.prems(3) obtain s' v where
    "write_packets log_packet r n ?t ?u = (Inr s', ?u @ v)" "fits s'" "length v = n" by auto
  moreover have "log_packet Target (drop start (MemoryBlock t)) DataSize u = (Inr (), ?u)"
    using t by (simp add: log_packet_def)
  ultimately show ?case
    using p by (intro exI [of _ s'] exI [of _ "(Target, take DataSize (drop start (MemoryBlock t))) # v"]) simp
qed

lemma program_loop_fits:
  "fits s \<Longrightarrow> \<exists>r s' v. program_loop log_packet s u = (Inr (r, s'), u @ v) \<and>
     r \<in> {IQRF_PGM_SUCCESS, IQRF_PGM_ERROR} \<and> length v \<le> 2 * to_do s"
proof (induction "to_do s" arbitrary: s u rule: less_induct)
  case less
  obtain r t where p: "iqrfPgmPrepareMemBlock s = Inr (r, t)" "r = IQRF_PGM_ERROR \<or> writable (Some r) t"
    by (rule prepare_fits [OF less.prems])
  show ?case
  proof (cases "r \<in> {IQRF_PGM_SUCCESS, IQRF_PGM_ERROR}")
    case True
    with p show ?thesis by (subst program_loop.simps) auto
  next
    case False
    with p have w: "writable (Some r) t" by simp
    then have n: "unat (MemoryBlockProcessState t) \<le> 2" by (simp add: writable_def fits_def)
    from write_packets_fits [OF w False n, of u] obtain t' v where
      t': "write_packets log_packet r (unat (MemoryBlockProcessState t)) t u = (Inr t', u @ v)"
      "fits t'" "length v \<le> 2" using n by auto
    from prepare_to_do [OF p(1) False] write_packets_to_do [OF t'(1)] have l: "to_do t' < to_do s" by simp
    from less.hyps [OF l t'(2), of "u @ v"] obtain r' s' v' where
      "program_loop log_packet t' (u @ v) = (Inr (r', s'), (u @ v) @ v')"
      "r' \<in> {IQRF_PGM_SUCCESS, IQRF_PGM_ERROR}" "length v' \<le> 2 * to_do t'" by auto
    moreover have "program_loop log_packet s u = program_loop log_packet t' (u @ v)"
      using p(1) False t'(1) by (subst program_loop.simps) simp
    ultimately show ?thesis using l t'(3) by (intro exI [of _ r'] exI [of _ s'] exI [of _ "v @ v'"]) auto
  qed
qed

lemma initial_fits: "short_counts f \<Longrightarrow> fits (initial_pgm f)"
  by (simp add: fits_def initial_pgm_def MEMORY_BLOCK_SIZE_def SIZE_OF_CODE_LINE_BUFFER_def)

text \<open>
  C30. Memory safety of the hex file programmer. For every file in which no line that starts
  at a colon has a count above 60, whatever else it holds (other record types, wrong digits,
  wrong checksums, data of any address in any order, a truncated end), the run from the
  initial variables never accesses an element outside of the line buffer or the image, ends
  with success or with the error, and uploads at most eight packets for each byte of the file.
\<close>

theorem hex_memory_safe:
  assumes "short_counts file"
  shows "\<exists>r s' packets. program_loop log_packet (initial_pgm file) [] = (Inr (r, s'), packets) \<and>
    r \<in> {IQRF_PGM_SUCCESS, IQRF_PGM_ERROR} \<and> length packets \<le> 8 * length file"
proof -
  have "to_do (initial_pgm file) = 4 * length file" by (simp add: to_do_def initial_pgm_def)
  with program_loop_fits [OF initial_fits [OF assms], of "[]"] show ?thesis by auto
qed

theorem hex_memory_safe_witness:
  "\<exists>r s' packets. program_loop log_packet (initial_pgm (uchar_str '':3A0000'')) [] = (Inr (r, s'), packets) \<and>
    r \<in> {IQRF_PGM_SUCCESS, IQRF_PGM_ERROR} \<and> length packets \<le> 8 * length (uchar_str '':3A0000'')"
  by (rule hex_memory_safe) code_simp

end
