(* ===== verification/Programs.thy ===== *)
theory Programs
  imports Api
begin

text \<open>
  What the programs of \<open>src/examples\<close> have in common: they print to the console, create one
  \<open>CDCImpl\<close> object, test the connection, enter the programming mode, do their work, leave the
  programming mode and delete the object. A step of a program takes the world and returns a
  result or the exception that leaves it, and the world. What the programs run in is a
  record: the construction of the object, and for every call of the library, by the history of
  the requests before it, the platform of the call and what the reading thread has done since
  the call before.
\<close>

unbundle bit_operations_syntax

section \<open>Environment and world\<close>

datatype request =
    Req_test
  | Req_enter
  | Req_terminate
  | Req_upload byte ustring
  | Req_download byte ustring
  | Req_send ustring
  | Req_usb_info
  | Req_tr_info
  | Req_listener
  | Req_stopped

record 'e environment =
  construct :: "string \<Rightarrow> thrown + 'e impl"
  platform_at :: "request list \<Rightarrow> 'e platform"
  between :: "request list \<Rightarrow> 'e impl \<Rightarrow> 'e impl"
  destructor :: "'e impl \<Rightarrow> thrown + unit"

text \<open>\<open>testImp\<close> is \<open>None\<close> for the null pointer and after \<open>delete\<close>; \<open>requests\<close> is a ghost.\<close>

record 'e world =
  testImp :: "'e impl option"
  requests :: "request list"
  console :: string

definition start_world :: "'e world" where
  "start_world = \<lparr>testImp = None, requests = [], console = []\<rparr>"

type_synonym ('e, 'a) step = "'e world \<Rightarrow> (thrown + 'a) \<times> 'e world"

section \<open>Steps\<close>

definition print :: "string \<Rightarrow> 'e world \<Rightarrow> 'e world" where
  "print t w = w\<lparr>console := console w @ t\<rparr>"

definition endl :: string where "endl = [CHR 0x0A]"

text \<open>\<open>try { body } catch (cls& e) { handler }\<close>, for each class of the list.\<close>

definition try_catch ::
  "exn_class list \<Rightarrow> (thrown + 'a) \<times> 'e world \<Rightarrow> (cdc_exception \<Rightarrow> ('e, 'a) step) \<Rightarrow>
     (thrown + 'a) \<times> 'e world" where
  "try_catch classes body handler =
     (case body of
        (Inl (Thrown x), w) \<Rightarrow>
          if list_ex (\<lambda>cls. caught_by cls x) classes then handler x w else (Inl (Thrown x), w)
      | r \<Rightarrow> r)"

text \<open>Calling a method of the object.\<close>

definition call ::
  "'e environment \<Rightarrow> request \<Rightarrow> ('e platform \<Rightarrow> 'e impl \<Rightarrow> (thrown + 'a) \<times> 'e impl) \<Rightarrow>
     ('e, 'a) step" where
  "call E req operation w =
     (case testImp w of
        None \<Rightarrow> (Inl UndefinedBehaviour, w)
      | Some s \<Rightarrow>
          (let h = requests w;
               (r, s) = operation (platform_at E h) (between E h s)
           in (r, w\<lparr>testImp := Some s, requests := h @ [req]\<rparr>)))"

definition new_object :: "'e environment \<Rightarrow> string \<Rightarrow> ('e, unit) step" where
  "new_object E port w =
     (case construct E port of
        Inl e \<Rightarrow> (Inl e, w)
      | Inr s \<Rightarrow> (Inr (), w\<lparr>testImp := Some s\<rparr>))"

text \<open>An exception that left the destructor would end the program: \<open>main\<close> would not return.\<close>

definition delete_object :: "'e environment \<Rightarrow> ('e, unit) step" where
  "delete_object E w =
     (case testImp w of
        None \<Rightarrow> (Inr (), w)
      | Some s \<Rightarrow>
          (case destructor E s of
             Inl e \<Rightarrow> (Inl NotReturned, w)
           | Inr _ \<Rightarrow> (Inr (), w\<lparr>testImp := None\<rparr>)))"

text \<open>\<open>delete testImp; return n\<close>.\<close>

definition delete_and_return :: "'e environment \<Rightarrow> int \<Rightarrow> ('e, int option) step" where
  "delete_and_return E n w = andThen (delete_object E w) (\<lambda>_ w. (Inr (Some n), w))"

text \<open>A part of a program that may return from \<open>main\<close> with an exit code, and what follows it.\<close>

definition unless_returned ::
  "(thrown + int option) \<times> 'e world \<Rightarrow> ('e, int) step \<Rightarrow> (thrown + int) \<times> 'e world" where
  "unless_returned r f =
     andThen r (\<lambda>ret w. case ret of Some n \<Rightarrow> (Inr n, w) | None \<Rightarrow> f w)"

section \<open>Printing\<close>

text \<open>Hexadecimal digits in small letters or capitals.\<close>

fun hex_of_nat :: "bool \<Rightarrow> nat \<Rightarrow> string" where
  "hex_of_nat capital n =
     (let d = n mod 16;
          c = char_of (if d < 10 then 48 + d else (if capital then 55 else 87) + d) in
      if n < 16 then [c] else hex_of_nat capital (n div 16) @ [c])"

declare hex_of_nat.simps [simp del]

text \<open>\<open>printDataInHex\<close>, with \<open>i\<close> and the memory from the pointer on.\<close>

fun print_hex_from :: "nat \<Rightarrow> nat \<Rightarrow> ustring \<Rightarrow> ('e, unit) step" where
  "print_hex_from i len [] w = (if i < len then (Inl UndefinedBehaviour, w) else (Inr (), w))"
| "print_hex_from i len (b # data) w =
     (if i < len
      then print_hex_from (i + 1) len data
             (print (''0x'' @ hex_of_nat False (unat b) @ (if i \<noteq> len - 1 then '' '' else [])) w)
      else (Inr (), w))"

definition printDataInHex :: "ustring \<Rightarrow> nat \<Rightarrow> ('e, unit) step" where
  "printDataInHex data len w =
     andThen (print_hex_from 0 len data w) (\<lambda>_ w. (Inr (), print endl w))"

section \<open>The frame of a program\<close>

text \<open>Creating the object and testing the connection.\<close>

definition connect ::
  "'e environment \<Rightarrow> string \<Rightarrow> string \<Rightarrow> string \<Rightarrow> ('e, int option) step" where
  "connect E port_name ok failed w =
     try_catch [CDCImplException]
       (andThen (new_object E port_name w) (\<lambda>_ w.
        andThen (call E Req_test test w) (\<lambda>test w.
        if test then (Inr None, print ok w)
        else delete_and_return E 2 (print failed w))))
       (\<lambda>e w. delete_and_return E 1 (print (getDescr e @ endl) w))"

definition enter_mode :: "'e environment \<Rightarrow> ('e, int option) step" where
  "enter_mode E w =
     try_catch [CDCSendException, CDCReceiveException]
       (andThen (call E Req_enter enterProgrammingMode (print (''Entering programming mode'' @ endl) w))
          (\<lambda>pteResponse w.
             if pteResponse = PTE_OK then (Inr None, print (''Programming mode OK'' @ endl) w)
             else delete_and_return E 1 (print (''Programming mode ERROR'' @ endl) w)))
       (\<lambda>e w. (Inr None, print (getDescr e @ endl) w))"

definition terminate_mode :: "'e environment \<Rightarrow> ('e, unit) step" where
  "terminate_mode E w =
     try_catch [CDCSendException, CDCReceiveException]
       (andThen (call E Req_terminate terminateProgrammingMode
            (print (''Terminating programming mode'' @ endl) w))
          (\<lambda>pteResponse w.
             (Inr (), print ((if pteResponse = PTE_OK then ''Programming mode termination OK''
                              else ''Programming mode termination ERROR'') @ endl) w)))
       (\<lambda>e w. (Inr (), print (getDescr e @ endl) w))"

text \<open>One upload with its messages.\<close>

definition upload_data ::
  "'e environment \<Rightarrow> byte \<Rightarrow> ustring \<Rightarrow> nat \<Rightarrow> ('e, unit) step" where
  "upload_data E Target DataBuffer DataSize w =
     try_catch [CDCSendException, CDCReceiveException]
       (andThen (call E (Req_upload Target (take DataSize DataBuffer))
            (\<lambda>P. upload_ptr P Target DataBuffer DataSize) w)
          (\<lambda>pmResponse w.
             (Inr (), print ((if pmResponse = PM_OK then ''Data programming OK''
                              else ''Data programming failed'') @ endl) w)))
       (\<lambda>e w. (Inr (), print (getDescr e @ endl) w))"

text \<open>What the programmers do with a piece of data.\<close>

definition write_block ::
  "'e environment \<Rightarrow> byte \<Rightarrow> ustring \<Rightarrow> nat \<Rightarrow> ('e, unit) step" where
  "write_block E Target DataBuffer DataSize w =
     andThen (printDataInHex DataBuffer DataSize (print (''Data to write:'' @ endl) w)) (\<lambda>_ w.
     upload_data E Target DataBuffer DataSize (print (''Data sent to device'' @ endl) w))"

text \<open>The end of every program.\<close>

definition finish :: "'e environment \<Rightarrow> ('e, int) step" where
  "finish E w = andThen (delete_object E w) (\<lambda>_ w. (Inr 0, w))"

section \<open>What the steps keep\<close>

lemma andThen_cong [fundef_cong]:
  "r = r' \<Longrightarrow> (\<And>x s. r' = (Inr x, s) \<Longrightarrow> f x s = f' x s) \<Longrightarrow> andThen r f = andThen r' f'"
  by (cases r'; cases "fst r'") auto

text \<open>
  A step ends with a result that satisfies \<open>Q\<close> in the world left behind, or in one of the ways
  of the set \<open>B\<close>. It is regular when it ends with a result, or not at all because a call of
  the system does not return: no exception leaves it and nothing undefined happens.
\<close>

definition ends_in ::
  "thrown set \<Rightarrow> ('a \<Rightarrow> 'e world \<Rightarrow> bool) \<Rightarrow> (thrown + 'a) \<times> 'e world \<Rightarrow> bool" where
  "ends_in B Q r \<longleftrightarrow> (case r of (Inl e, w) \<Rightarrow> e \<in> B | (Inr x, w) \<Rightarrow> Q x w)"

abbreviation regular :: "('a \<Rightarrow> 'e world \<Rightarrow> bool) \<Rightarrow> (thrown + 'a) \<times> 'e world \<Rightarrow> bool" where
  "regular \<equiv> ends_in {NotReturned}"

lemma ends_in_simps [simp]:
  "ends_in B Q (Inl e, w) \<longleftrightarrow> e \<in> B" "ends_in B Q (Inr x, w) \<longleftrightarrow> Q x w"
  by (simp_all add: ends_in_def)

lemma ends_in_andThen:
  "ends_in B Q r \<Longrightarrow> (\<And>x w. Q x w \<Longrightarrow> ends_in B R (f x w)) \<Longrightarrow> ends_in B R (andThen r f)"
  by (cases r; cases "fst r") auto

lemma ends_in_thrown:
  "fst r = Inl e \<Longrightarrow> e \<in> B \<Longrightarrow> ends_in B Q r"
  "fst r = Inl e \<Longrightarrow> e \<in> B \<Longrightarrow> ends_in B R (andThen r f)"
  by (cases r; simp)+

lemma ends_in_unless_returned:
  assumes "ends_in B Q r" and "\<And>n w. Q (Some n) w \<Longrightarrow> R n w" and "\<And>w. Q None w \<Longrightarrow> ends_in B R (f w)"
  shows "ends_in B R (unless_returned r f)"
  unfolding unless_returned_def
  by (rule ends_in_andThen [OF assms(1)]) (use assms(2,3) in \<open>auto split: option.splits\<close>)

lemma ends_in_mono:
  "ends_in B Q r \<Longrightarrow> B \<subseteq> C \<Longrightarrow> (\<And>x w. Q x w \<Longrightarrow> R x w) \<Longrightarrow> ends_in C R r"
  by (auto simp: ends_in_def split: prod.splits sum.splits)

lemma print_fields [simp]:
  "testImp (print t w) = testImp w" "requests (print t w) = requests w"
  by (simp_all add: print_def)

lemma print_hex_from_fields:
  "n \<le> i + length data \<Longrightarrow>
     \<exists>w'. print_hex_from i n data w = (Inr (), w') \<and> testImp w' = testImp w \<and> requests w' = requests w"
  by (induction i n data w rule: print_hex_from.induct) auto

lemma printDataInHex_fields:
  assumes "n \<le> length data"
  obtains w' where "printDataInHex data n w = (Inr (), w')" and "testImp w' = testImp w"
    and "requests w' = requests w"
  using print_hex_from_fields [of n 0 data w] assms that by (auto simp: printDataInHex_def)

text \<open>
  How a whole program ends: with an exit code out of three and its object deleted, unless a call
  of the system never returns; the code 0 only after exactly the given requests. For a program
  that does its work in the programming mode these include those of its frame.
\<close>

definition exits_after :: "request list \<Rightarrow> (thrown + int) \<times> 'e world \<Rightarrow> bool" where
  "exits_after rs = regular (\<lambda>n w. testImp w = None \<and> n \<in> {0, 1, 2} \<and> (n = 0 \<longrightarrow> requests w = rs))"

definition completes :: "request list \<Rightarrow> (thrown + int) \<times> 'e world \<Rightarrow> bool" where
  "completes work = exits_after ([Req_test, Req_enter] @ work @ [Req_terminate])"

text \<open>The object is there and its invariant holds; the requests so far.\<close>

definition running :: "('e impl \<Rightarrow> bool) \<Rightarrow> request list \<Rightarrow> 'e world \<Rightarrow> bool" where
  "running good h w \<longleftrightarrow> (\<exists>s. testImp w = Some s \<and> good s) \<and> requests w = h"

lemma start_world_fields [simp]:
  "testImp start_world = None" "requests start_world = []"
  by (simp_all add: start_world_def)

lemma running_print [simp]: "running good h (print t w) = running good h w"
  by (simp add: running_def)

locale program_environment =
  fixes E :: "'e environment"
    and good :: "'e impl \<Rightarrow> bool"
  assumes channel: "command_channel (platform_at E h) good"
    and between_law: "good s \<Longrightarrow> good (between E h s)"
    and construct_law: "case construct E p of Inl e \<Rightarrow> e = NotReturned \<or> (\<exists>x. e = Thrown x) | Inr s \<Rightarrow> good s"
    and destructor_law: "good s \<Longrightarrow> destructor E s = Inr () \<or> destructor E s = Inl NotReturned"
    and listener_law: "good s \<Longrightarrow> good (registerAsyncMsgListener l s)"
begin

text \<open>A call of a method that has a proper outcome.\<close>

lemma call_cases:
  assumes "running good h w" and "\<And>s h. good s \<Longrightarrow> proper good (operation (platform_at E h) s)"
  obtains (raised) e w' where "call E req operation w = (Inl e, w')" and "documented e"
      and "running good (h @ [req]) w'"
  | (returned) x w' h' s s' where "call E req operation w = (Inr x, w')" and "running good (h @ [req]) w'"
      and "good s" and "operation (platform_at E h') s = (Inr x, s')"
proof -
  from assms(1) obtain s where s: "testImp w = Some s" "good s" "requests w = h"
    by (auto simp: running_def)
  obtain r s' where r: "operation (platform_at E h) (between E h s) = (r, s')"
    by (cases "operation (platform_at E h) (between E h s)")
  have "proper good (r, s')" using assms(2) [OF between_law [OF s(2)], of h h] r by simp
  then have g: "good s'" "case r of Inl e \<Rightarrow> documented e | Inr _ \<Rightarrow> True" by (simp_all add: proper_def)
  define w' where "w' = w\<lparr>testImp := Some s', requests := h @ [req]\<rparr>"
  have c: "call E req operation w = (r, w')" "running good (h @ [req]) w'"
    using s r g(1) by (simp_all add: call_def w'_def running_def)
  show thesis
  proof (cases r)
    case (Inl e)
    with c g(2) raised show thesis by simp
  next
    case (Inr x)
    with c r show thesis by (intro returned [OF _ _ between_law [OF s(2), of h]]) simp_all
  qed
qed

text \<open>With handlers for the two documented exceptions no exception is left.\<close>

lemma guarded_call:
  assumes "running good h w" and "\<And>s h. good s \<Longrightarrow> proper good (operation (platform_at E h) s)"
    and "\<And>x w h' s s'. running good (h @ [req]) w \<Longrightarrow> good s \<Longrightarrow>
      operation (platform_at E h') s = (Inr x, s') \<Longrightarrow> regular Q (f x w)"
    and "\<And>e w. running good (h @ [req]) w \<Longrightarrow> regular Q (handler e w)"
  shows "regular Q (try_catch [CDCSendException, CDCReceiveException]
    (andThen (call E req operation w) f) handler)"
proof (rule call_cases [where operation = operation and req = req, OF assms(1,2)], goal_cases)
  case (1 s h)
  then show ?case .
next
  case (2 e w')
  then show ?case
    using assms(4) [of w'] by (cases e) (auto simp: try_catch_def documented_def caught_by_def)
next
  case (3 x w' h' s s')
  from assms(3) [OF 3(2-4)] 3(1) show ?case
    by (auto simp: try_catch_def ends_in_def split: prod.splits sum.splits outcome_error.splits)
qed

lemma delete_regular:
  assumes "running good h w"
  shows "delete_object E w = (Inr (), w\<lparr>testImp := None\<rparr>) \<or> delete_object E w = (Inl NotReturned, w)"
proof -
  from assms obtain s where "testImp w = Some s" "good s" by (auto simp: running_def)
  with destructor_law [of s] show ?thesis by (auto simp: delete_object_def)
qed

lemma deleted_regular [intro]:
  "running good h w \<Longrightarrow> NotReturned \<in> B \<Longrightarrow> Q (Some n) (w\<lparr>testImp := None\<rparr>) \<Longrightarrow>
     ends_in B Q (delete_and_return E n w)"
  "running good h w \<Longrightarrow> NotReturned \<in> B \<Longrightarrow> R 0 (w\<lparr>testImp := None\<rparr>) \<Longrightarrow> ends_in B R (finish E w)"
  using delete_regular [of h w] by (auto simp: delete_and_return_def finish_def)

lemma connect_regular:
  assumes "testImp w0 = None" and "requests w0 = []"
  shows "regular (\<lambda>ret w. case ret of None \<Rightarrow> running good [Req_test] w | Some n \<Rightarrow> n \<in> {1, 2} \<and> testImp w = None)
     (connect E port ok failed w0)"
proof (cases "construct E port")
  case (Inl e)
  with construct_law [of port] have "e = NotReturned \<or> (\<exists>x. e = Thrown x)" by simp
  with Inl show ?thesis
    by (auto simp: connect_def new_object_def try_catch_def caught_by_def assms
        delete_and_return_def delete_object_def print_def)
next
  case (Inr s)
  define w where "w = w0\<lparr>testImp := Some s\<rparr>"
  have w: "running good [] w"
    using construct_law [of port] Inr by (simp add: w_def running_def assms)
  have n: "new_object E port w0 = (Inr (), w)" by (simp add: new_object_def Inr w_def)
  show ?thesis
  proof (rule call_cases [where operation = test and req = Req_test, OF w], goal_cases)
    case (1 s h)
    then show ?case using command_channel.all_outcomes(1) [OF channel] by blast
  next
    case (2 e w')
    then have r: "running good [Req_test] w'" by simp
    then show ?case
      using 2(1,2) n
      by (cases e) (auto simp: connect_def try_catch_def documented_def caught_by_def)
  next
    case (3 x w' h' s s')
    then have r: "running good [Req_test] w'" by simp
    then show ?case
      using 3(1) n
      using delete_regular [of "[Req_test]" "print failed w'"]
      by (cases x) (auto simp: connect_def try_catch_def delete_and_return_def)
  qed
qed

lemma enter_regular:
  assumes "running good h w"
  shows "regular (\<lambda>ret w. case ret of None \<Rightarrow> running good (h @ [Req_enter]) w
                              | Some n \<Rightarrow> n = 1 \<and> testImp w = None) (enter_mode E w)"
  unfolding enter_mode_def
  by (rule guarded_call [where h = h]) (use assms command_channel.all_outcomes(11) [OF channel] in auto)

lemma terminate_regular:
  assumes "running good h w"
  shows "regular (\<lambda>_. running good (h @ [Req_terminate])) (terminate_mode E w)"
  unfolding terminate_mode_def
  by (rule guarded_call [where h = h]) (use assms command_channel.all_outcomes(12) [OF channel] in auto)

lemma upload_regular:
  assumes "running good h w" and "n \<le> length mem" and "0 \<in> set mem"
  shows "regular (\<lambda>_. running good (h @ [Req_upload t (take n mem)])) (upload_data E t mem n w)"
  unfolding upload_data_def
  by (rule guarded_call [where h = h])
    (use assms command_channel.pointer_outcomes(2) [OF channel _ assms(2)] in auto)

lemma write_block_regular:
  assumes "running good h w" and "n \<le> length mem" and "0 \<in> set mem"
  shows "regular (\<lambda>_. running good (h @ [Req_upload t (take n mem)])) (write_block E t mem n w)"
proof -
  obtain w' where w': "printDataInHex mem n (print (''Data to write:'' @ endl) w) = (Inr (), w')"
    "testImp w' = testImp w" "requests w' = requests w"
    using printDataInHex_fields [OF assms(2)] by (metis print_fields)
  then have "running good h w'" using assms(1) by (simp add: running_def)
  with upload_regular [of h "print (''Data sent to device'' @ endl) w'"] assms(2,3) w'(1) show ?thesis
    by (simp add: write_block_def)
qed

text \<open>A pointer without a zero byte behind it.\<close>

lemma upload_undefined:
  assumes "running good h w" and "n \<le> length mem" and "0 \<notin> set mem"
  shows "fst (upload_data E t mem n w) = Inl UndefinedBehaviour"
  using assms
  by (auto simp: upload_data_def call_def running_def upload_ptr_def from_pointer_def
      string_of_pointer_def bindE_def try_catch_def Let_def)

lemma last_steps_regular:
  assumes "running good h w"
  shows "regular (\<lambda>n w. n = 0 \<and> testImp w = None \<and> requests w = h @ [Req_terminate])
    (andThen (terminate_mode E w) (\<lambda>_. finish E))"
  by (rule ends_in_andThen [OF terminate_regular [OF assms]])
    (auto simp: running_def)

lemma frame_ends_in:
  assumes "testImp w0 = None" and "requests w0 = []" and "NotReturned \<in> B"
    and "\<And>w. running good [Req_test, Req_enter] w \<Longrightarrow>
      ends_in B R (body w)"
    and "\<And>n w. n \<in> {1, 2} \<Longrightarrow> testImp w = None \<Longrightarrow> R n w"
  shows "ends_in B R (unless_returned (connect E port ok failed w0)
    (\<lambda>w. unless_returned (enter_mode E w) body))"
proof (rule ends_in_unless_returned)
  show "ends_in B (\<lambda>ret w. case ret of None \<Rightarrow> running good [Req_test] w
      | Some n \<Rightarrow> n \<in> {1, 2} \<and> testImp w = None) (connect E port ok failed w0)"
    by (rule ends_in_mono [OF connect_regular [OF assms(1,2)]]) (use assms(3) in auto)
next
  fix w
  assume w: "case None of None \<Rightarrow> running good [Req_test] w | Some n \<Rightarrow> n \<in> {1, 2} \<and> testImp w = None"
  show "ends_in B R (unless_returned (enter_mode E w) body)"
  proof (rule ends_in_unless_returned)
    show "ends_in B (\<lambda>ret w. case ret of None \<Rightarrow> running good ([Req_test] @ [Req_enter]) w
        | Some n \<Rightarrow> n = 1 \<and> testImp w = None) (enter_mode E w)"
      by (rule ends_in_mono [OF enter_regular]) (use w assms(3) in auto)
  qed (use assms(4,5) in auto)
qed (use assms(5) in auto)

lemma frame_completes:
  assumes "testImp w0 = None" and "requests w0 = []"
    and "\<And>w. running good [Req_test, Req_enter] w \<Longrightarrow>
    regular (\<lambda>_. running good ([Req_test, Req_enter] @ rs)) (work w)"
  shows "completes rs (unless_returned (connect E port ok failed w0)
    (\<lambda>w. unless_returned (enter_mode E w)
    (\<lambda>w. andThen (work w) (\<lambda>_ w. andThen (terminate_mode E w) (\<lambda>_. finish E)))))"
  unfolding completes_def exits_after_def
proof (rule frame_ends_in)
  fix w
  assume "running good [Req_test, Req_enter] w"
  from assms(3) [OF this] show "regular (\<lambda>n w. testImp w = None \<and> n \<in> {0, 1, 2} \<and>
      (n = 0 \<longrightarrow> requests w = [Req_test, Req_enter] @ rs @ [Req_terminate]))
    (andThen (work w) (\<lambda>_ w. andThen (terminate_mode E w) (\<lambda>_. finish E)))"
    by (rule ends_in_andThen) (rule ends_in_mono [OF last_steps_regular], auto)
qed (use assms(1,2) in auto)

end

end
