(* ===== verification/Plugin_File.thy ===== *)
theory Plugin_File
  imports Pgm_Hex
begin

text \<open>
  Reading the lines of a plugin file (\<open>src/examples/PgmIqrf/PgmIqrf.cpp\<close>): 20 bytes as 40
  hexadecimal digits, comments from \<open>#\<close> to the end of the line, every line ended by a carriage
  return and one more character.
\<close>

section \<open>Definitions\<close>

fun skip_comment :: "ustring \<Rightarrow> byte \<times> ustring" where
  "skip_comment [] = (0, [])"
| "skip_comment (FirstChar # file) =
     (if FirstChar \<noteq> 0 \<and> FirstChar \<noteq> 0x0D then skip_comment file else (FirstChar, file))"

lemma skip_comment_length: "skip_comment f = (c, f') \<Longrightarrow> length f' \<le> length f"
  by (induction f) (auto split: if_splits)

text \<open>The loop behind the label \<open>repeat_read\<close>, with \<open>CodeLineBufferPtr\<close>.\<close>

function read_iqrf_line ::
  "nat \<Rightarrow> byte list \<Rightarrow> ustring \<Rightarrow> line_result \<times> byte list \<times> ustring" where
  "read_iqrf_line CodeLineBufferPtr buf file =
     (let (c, file) = iqrfReadByteFromFile file;
          FirstChar = tolower c;
          (FirstChar, file) = (if FirstChar = 0x23 then skip_comment file else (FirstChar, file))
      in
      if FirstChar = 0x0D then
        (let (_, file) = iqrfReadByteFromFile file in
         if CodeLineBufferPtr = 0 then read_iqrf_line CodeLineBufferPtr buf file
         else if CodeLineBufferPtr = 20 then (IQRF_PGM_FILE_DATA_READY, buf, file)
         else (IQRF_PGM_FILE_DATA_ERROR, buf, file))
      else if FirstChar = 0 then (IQRF_PGM_END_OF_FILE, buf, file)
      else
        (let (c, file) = iqrfReadByteFromFile file; SecondChar = tolower c in
         if CodeLineBufferPtr \<ge> 20 then (IQRF_PGM_FILE_DATA_ERROR, buf, file)
         else read_iqrf_line (CodeLineBufferPtr + 1)
                (buf[CodeLineBufferPtr := iqrfPgmConvertToNum FirstChar SecondChar]) file))"
  by pat_completeness auto
termination
proof (relation "measure (\<lambda>(p, b, f). length f)", goal_cases)
  case (2 p b f x c f1 d y e f2 z g f3)
  then show ?case
    by (cases f; cases f2) (auto simp: tolower_def dest: skip_comment_length [OF sym] split: if_splits prod.splits)
next
  case (3 p b f x c f1 d y e f2 z g f3)
  then show ?case
    by (cases f; cases f2) (auto simp: tolower_def dest: skip_comment_length [OF sym] split: if_splits prod.splits)
qed simp

declare read_iqrf_line.simps [simp del]

definition iqrfPgmReadIQRFFileLine :: "byte list \<Rightarrow> ustring \<Rightarrow> line_result \<times> byte list \<times> ustring" where
  "iqrfPgmReadIQRFFileLine buf file = read_iqrf_line 0 buf file"

section \<open>Laws\<close>

text \<open>A line that is ready has been taken from the file; only 20 elements of the buffer change.\<close>

lemma read_iqrf_line_result:
  "read_iqrf_line p buf f = (r, buf', f') \<Longrightarrow>
     length buf' = length buf \<and> (\<forall>i \<ge> 20. buf' ! i = buf ! i) \<and>
     (r = IQRF_PGM_FILE_DATA_READY \<longrightarrow> length f' < length f)"
proof (induction p buf f rule: read_iqrf_line.induct)
  case (1 p buf f)
  obtain c f1 where c: "iqrfReadByteFromFile f = (c, f1)" by (cases "iqrfReadByteFromFile f")
  obtain d f2 where d: "(if tolower c = 0x23 then skip_comment f1 else (tolower c, f1)) = (d, f2)"
    by (cases "if tolower c = 0x23 then skip_comment f1 else (tolower c, f1)")
  obtain e f3 where e: "iqrfReadByteFromFile f2 = (e, f3)" by (cases "iqrfReadByteFromFile f2")
  have l: "length f3 \<le> length f2" "length f2 \<le> length f1"
    using e d by (cases f2; auto split: if_splits dest: skip_comment_length)+
  have "f \<noteq> [] \<Longrightarrow> length f1 < length f" using c by (cases f) auto
  moreover have "f = [] \<Longrightarrow> d = 0" using c d by (auto simp: tolower_def)
  ultimately have l1: "d \<noteq> 0 \<Longrightarrow> length f3 < length f" using l by (cases "f = []") auto
  note run = "1.prems" [unfolded read_iqrf_line.simps [of p buf f] c Let_def prod.case d e]
  show ?case
  proof (cases "d = 0x0D")
    case True
    show ?thesis
    proof (cases "p = 0")
      case True
      with run \<open>d = 0x0D\<close> have "read_iqrf_line p buf f3 = (r, buf', f')" by simp
      from "1.IH"(1) [OF c [symmetric] refl refl d [symmetric] refl \<open>d = 0x0D\<close> e [symmetric] refl True this]
      show ?thesis using l1 \<open>d = 0x0D\<close> by auto
    next
      case False
      with run \<open>d = 0x0D\<close> l1 show ?thesis by (auto split: if_splits)
    qed
  next
    case False
    show ?thesis
    proof (cases "d = 0 \<or> p \<ge> 20")
      case True
      with run False show ?thesis by (auto split: if_splits)
    next
      case more: False
      with run False have
        "read_iqrf_line (p + 1) (buf[p := iqrfPgmConvertToNum d (tolower e)]) f3 = (r, buf', f')" by simp
      with "1.IH"(2) [OF c [symmetric] refl refl d [symmetric] refl False _ e [symmetric] refl refl] more l1
      show ?thesis by (auto intro: less_trans)
    qed
  qed
qed

section \<open>Files that are written as the reader expects\<close>

datatype plugin_item = Comment ustring | Blank | Data ustring

fun item_ok :: "plugin_item \<Rightarrow> bool" where
  "item_ok (Comment c) = (0 \<notin> set c \<and> 13 \<notin> set c)"
| "item_ok Blank = True"
| "item_ok (Data d) = (length d = 20)"

fun item_text :: "plugin_item \<Rightarrow> ustring" where
  "item_text (Comment c) = 0x23 # c @ [13, 10]"
| "item_text Blank = [13, 10]"
| "item_text (Data d) = hex_text False d @ [13, 10]"

fun item_data :: "plugin_item \<Rightarrow> ustring list" where
  "item_data (Data d) = [d]"
| "item_data _ = []"

definition plugin_file :: "plugin_item list \<Rightarrow> ustring" where
  "plugin_file items = concat (map item_text items)"

definition plugin_data :: "plugin_item list \<Rightarrow> ustring list" where
  "plugin_data items = concat (map item_data items)"

lemma skip_comment_text: "0 \<notin> set c \<Longrightarrow> 13 \<notin> set c \<Longrightarrow> skip_comment (c @ 13 # f) = (13, f)"
  by (induction c) auto

lemma read_digits:
  "p + length d \<le> 20 \<Longrightarrow> 20 \<le> length buf \<Longrightarrow>
     read_iqrf_line p buf (hex_text u d @ f) =
       read_iqrf_line (p + length d) (take p buf @ d @ drop (p + length d) buf) f"
proof (induction d arbitrary: p buf)
  case (Cons b d)
  have h: "tolower (hex_digit u (unat b div 16)) \<notin> {0, 0x23, 0x0D}"
    using hex_digit_codes [OF high_digit, of u b] by simp
  have "read_iqrf_line p buf (hex_text u (b # d) @ f) = read_iqrf_line (p + 1) (buf[p := b]) (hex_text u d @ f)"
    by (subst read_iqrf_line.simps) (use h Cons.prems in \<open>simp add: hex_byte_def\<close>)
  also have "\<dots> = read_iqrf_line (p + 1 + length d)
      (take (p + 1) (buf[p := b]) @ d @ drop (p + 1 + length d) (buf[p := b])) f"
    by (rule Cons.IH) (use Cons.prems in simp_all)
  also have "take (p + 1) (buf[p := b]) = take p buf @ [b]"
    using Cons.prems by (simp add: take_Suc_conv_app_nth)
  finally show ?case using Cons.prems by simp
qed simp

lemma read_item:
  assumes "item_ok i" and "20 \<le> length buf"
  shows "read_iqrf_line 0 buf (item_text i @ f) =
    (case i of Data d \<Rightarrow> (IQRF_PGM_FILE_DATA_READY, d @ drop 20 buf, f) | _ \<Rightarrow> read_iqrf_line 0 buf f)"
proof (cases i)
  case (Comment c)
  with assms(1) show ?thesis
    by (subst read_iqrf_line.simps) (simp add: tolower_def skip_comment_text)
next
  case Blank
  then show ?thesis by (subst read_iqrf_line.simps) (simp add: tolower_def)
next
  case (Data d)
  with assms have "read_iqrf_line 0 buf (item_text i @ f) =
      read_iqrf_line 20 (d @ drop 20 buf) (13 # 10 # f)"
    using read_digits [of 0 d buf False "13 # 10 # f"] by simp
  also have "\<dots> = (IQRF_PGM_FILE_DATA_READY, d @ drop 20 buf, f)"
    by (subst read_iqrf_line.simps) (simp add: tolower_def)
  finally show ?thesis by (simp add: Data)
qed

lemma read_iqrf_line_end: "read_iqrf_line p buf [] = (IQRF_PGM_END_OF_FILE, buf, [])"
  by (subst read_iqrf_line.simps) (simp add: tolower_def)

end
