(* ===== verification/Pgm_Programs.thy ===== *)
theory Pgm_Programs
  imports Programs Plugin_File Pgm_Hex_Safe
begin

text \<open>
  The three programmers \<open>PgmHex\<close>, \<open>PgmIqrf\<close> and \<open>PgmTrcnfg\<close> (\<open>src/examples\<close>): their \<open>main\<close>
  functions, and what they ask of the library, proved in the contract of theory \<open>Programs\<close>.
  \<open>argv\<close> holds the name of the program and its parameters, \<open>fopen\<close> is the content of the files
  that can be opened; \<open>fclose\<close> has no effect on what is modelled.
\<close>

unbundle bit_operations_syntax

section \<open>PgmHex\<close>

definition usage :: "string \<Rightarrow> string \<Rightarrow> string \<Rightarrow> string" where
  "usage program parameters example =
     ''Usage'' @ endl @ ''  '' @ program @ '' '' @ parameters @ endl @ endl @
     ''Example'' @ endl @ ''  '' @ program @ '' COM5 '' @ example @ endl @
     ''  '' @ program @ '' /dev/ttyACM0 '' @ example @ endl"

definition PgmHex_main ::
  "'e environment \<Rightarrow> (string \<Rightarrow> ustring option) \<Rightarrow> string list \<Rightarrow> (thrown + int) \<times> 'e world" where
  "PgmHex_main E fopen argv =
     (if length argv < 3
      then (Inr (- 1), print (usage ''PgmHexExample'' ''<port-name> <file-name>'' ''test.hex'') start_world)
      else
        (case fopen (argv ! 2) of
           None \<Rightarrow> (Inr (- 2), print (''Could not open input file'' @ endl) start_world)
         | Some file \<Rightarrow>
             unless_returned
               (connect E (argv ! 1) (''Connection test OK'' @ endl) (''Connection test FAILED'' @ endl)
                  start_world) (\<lambda>w.
             unless_returned (enter_mode E w) (\<lambda>w.
             andThen (program_loop (write_block E) (initial_pgm file) w) (\<lambda>_ w.
             andThen (terminate_mode E w) (\<lambda>_. finish E))))))"

section \<open>PgmIqrf\<close>

definition TARGET_PLUGIN_W :: byte where "TARGET_PLUGIN_W = 0x88"

function plugin_loop ::
  "'e environment \<Rightarrow> byte list \<Rightarrow> ustring \<Rightarrow> ('e, line_result) step" where
  "plugin_loop E buf file w =
     (case iqrfPgmReadIQRFFileLine buf file of
        (OpResult, buf, file) \<Rightarrow>
          if OpResult = IQRF_PGM_FILE_DATA_READY then
            andThen (write_block E TARGET_PLUGIN_W buf 20 w)
              (\<lambda>_ w. plugin_loop E buf file w)
          else (Inr OpResult, w))"
  by pat_completeness auto
termination
  by (relation "measure (\<lambda>(E, b, f, w). length f)")
    (auto simp: iqrfPgmReadIQRFFileLine_def dest: read_iqrf_line_result [OF sym])

declare plugin_loop.simps [simp del]

definition PgmIqrf_main ::
  "'e environment \<Rightarrow> (string \<Rightarrow> ustring option) \<Rightarrow> string list \<Rightarrow> (thrown + int) \<times> 'e world" where
  "PgmIqrf_main E fopen argv =
     (if length argv < 3
      then (Inr (- 1), print (usage ''PgmIqrfExample'' ''<port-name> <file-name>'' ''test.iqrf'') start_world)
      else
        (case fopen (argv ! 2) of
           None \<Rightarrow> (Inr (- 2), print (''Could not open input file'' @ endl) start_world)
         | Some file \<Rightarrow>
             unless_returned
               (connect E (argv ! 1) (''Connection test OK'' @ endl) (''Connection test FAILED'' @ endl)
                  start_world) (\<lambda>w.
             unless_returned (enter_mode E w) (\<lambda>w.
             andThen (plugin_loop E (replicate 64 0) file w) (\<lambda>_ w.
             andThen (terminate_mode E w) (\<lambda>_. finish E))))))"

section \<open>PgmTrcnfg\<close>

definition TARGET_CFG_HWP_W :: byte where "TARGET_CFG_HWP_W = 0x80"
definition TARGET_CFG_RFPGM_W :: byte where "TARGET_CFG_RFPGM_W = 0x81"

text \<open>
  \<open>HwProfile\<close> and \<open>RfPgmCfg\<close> after the file has been looked at; a file that is too short
  leaves the zeros of the global variables.
\<close>

definition read_config :: "ustring \<Rightarrow> ustring \<times> byte \<times> string" where
  "read_config file =
     (if length file < 33
      then (replicate 32 0, 0, ''Wrong format of *.trcnfg file'' @ endl)
      else (take 32 file, file ! 32, []))"

text \<open>The loop over the two parts, unrolled; the memory behind each pointer is its variable.\<close>

definition config_loop :: "'e environment \<Rightarrow> ustring \<Rightarrow> byte \<Rightarrow> ('e, unit) step" where
  "config_loop E HwProfile RfPgmCfg w =
     andThen (printDataInHex HwProfile 32 (print (''HW profile data to write:'' @ endl) w)) (\<lambda>_ w.
     andThen (upload_data E TARGET_CFG_HWP_W HwProfile 32 (print (''Data sent to device'' @ endl) w)) (\<lambda>_ w.
     andThen (printDataInHex [RfPgmCfg] 1 (print (''RFPGM data to write:'' @ endl) w)) (\<lambda>_ w.
     upload_data E TARGET_CFG_RFPGM_W [RfPgmCfg] 1 (print (''Data sent to device'' @ endl) w))))"

definition PgmTrcnfg_main ::
  "'e environment \<Rightarrow> (string \<Rightarrow> ustring option) \<Rightarrow> string list \<Rightarrow> (thrown + int) \<times> 'e world" where
  "PgmTrcnfg_main E fopen argv =
     (if length argv < 3
      then (Inr (- 1), print (usage ''PgmTrcnfgExample'' ''<port-name> <file-name>'' ''test.trcnfg'') start_world)
      else
        (case fopen (argv ! 2) of
           None \<Rightarrow> (Inr (- 2), print (''Could not open input file'' @ endl) start_world)
         | Some file \<Rightarrow>
             (let (HwProfile, RfPgmCfg, message) = read_config file in
              unless_returned
                (connect E (argv ! 1) (''Connection test OK'' @ endl) (''Connection test FAILED'' @ endl)
                   (print message start_world)) (\<lambda>w.
              unless_returned (enter_mode E w) (\<lambda>w.
              andThen (config_loop E HwProfile RfPgmCfg w) (\<lambda>_ w.
              andThen (terminate_mode E w) (\<lambda>_. finish E)))))))"

section \<open>The requests of the loops\<close>

definition packet_request :: "packet \<Rightarrow> request" where
  "packet_request p = Req_upload (fst p) (snd p)"

lemma packet_request_Pair [simp]: "packet_request (t, d) = Req_upload t d"
  by (simp add: packet_request_def)

definition zero_inside :: "packet list \<Rightarrow> bool" where
  "zero_inside ps \<longleftrightarrow> list_all (\<lambda>p. 0 \<in> set (snd p)) ps"

lemma zero_inside_simps [simp]:
  "zero_inside []" "zero_inside (p # ps) \<longleftrightarrow> 0 \<in> set (snd p) \<and> zero_inside ps"
  "zero_inside (ps @ qs) \<longleftrightarrow> zero_inside ps \<and> zero_inside qs"
  by (simp_all add: zero_inside_def)

text \<open>The two loops of \<open>PgmHex\<close> step by step.\<close>

lemma write_packets_Suc:
  assumes "packet r (Suc n) s = (Target, start, DataSize, t)"
  shows "write_packets write r (Suc n) s u =
    andThen (write Target (drop start (MemoryBlock t)) DataSize u)
      (\<lambda>_. write_packets write r n (t\<lparr>MemoryBlockProcessState := of_nat n\<rparr>))"
  using assms by (simp add: andThen_def split: prod.split sum.split)

lemma program_loop_block:
  assumes "iqrfPgmPrepareMemBlock s = Inr (r, t)" and "r \<notin> {IQRF_PGM_SUCCESS, IQRF_PGM_ERROR}"
  shows "program_loop write s u =
    andThen (write_packets write r (unat (MemoryBlockProcessState t)) t u) (program_loop write)"
  using assms by (subst program_loop.simps) (simp add: andThen_def split: prod.split sum.split)

lemma log_packet_inside:
  "DataSize \<le> length mem \<Longrightarrow> log_packet Target mem DataSize u = (Inr (), u @ [(Target, take DataSize mem)])"
  by (simp add: log_packet_def)

lemma log_packet_outside: "\<not> DataSize \<le> length mem \<Longrightarrow> log_packet Target mem DataSize u = (Inl UndefinedBehaviour, u)"
  by (simp add: log_packet_def)

text \<open>The log of a run only grows.\<close>

lemma write_packets_log:
  "write_packets log_packet r n s u = (x, u') \<Longrightarrow> \<exists>v. u' = u @ v"
proof (induction n arbitrary: s u)
  case (Suc n)
  obtain Target start size t where p: "packet r (Suc n) s = (Target, start, size, t)"
    by (cases "packet r (Suc n) s") auto
  show ?case
  proof (cases "size \<le> length (drop start (MemoryBlock t))")
    case True
    with Suc.prems Suc.IH [of _ "u @ [(Target, take size (drop start (MemoryBlock t)))]"] show ?thesis
      by (auto simp: write_packets_Suc [OF p] log_packet_inside simp del: write_packets.simps)
  next
    case False
    with Suc.prems show ?thesis
      by (auto simp: write_packets_Suc [OF p] log_packet_outside simp del: write_packets.simps)
  qed
qed simp

lemma program_loop_log: "program_loop log_packet s u = (x, u') \<Longrightarrow> \<exists>v. u' = u @ v"
proof (induction log_packet s u rule: program_loop.induct)
  case (1 s u)
  show ?case
  proof (cases "\<exists>r t. iqrfPgmPrepareMemBlock s = Inr (r, t) \<and> r \<notin> {IQRF_PGM_SUCCESS, IQRF_PGM_ERROR}")
    case False
    with "1.prems" show ?thesis by (subst (asm) program_loop.simps) (auto split: sum.splits if_splits)
  next
    case True
    then obtain r t where p: "iqrfPgmPrepareMemBlock s = Inr (r, t)"
      "r \<notin> {IQRF_PGM_SUCCESS, IQRF_PGM_ERROR}" by blast
    obtain y u1 where w: "write_packets log_packet r (unat (MemoryBlockProcessState t)) t u = (y, u1)"
      by (cases "write_packets log_packet r (unat (MemoryBlockProcessState t)) t u")
    from write_packets_log [OF w] obtain v1 where v1: "u1 = u @ v1" by blast
    show ?thesis
    proof (cases y)
      case (Inl e)
      with "1.prems" p w v1 show ?thesis by (subst (asm) program_loop.simps) auto
    next
      case (Inr t')
      with "1.prems" p w have "program_loop log_packet t' u1 = (x, u')"
        by (subst (asm) program_loop.simps) auto
      with "1.hyps" [OF p(1) refl p(2)] w Inr v1 show ?thesis by fastforce
    qed
  qed
qed

text \<open>The elements of the line buffer behind the data of a plugin line are never written.\<close>

definition plugin_buffer :: "byte list \<Rightarrow> bool" where
  "plugin_buffer buf \<longleftrightarrow> length buf = 64 \<and> buf ! 20 = 0"

lemma plugin_buffer_zero: "plugin_buffer buf \<Longrightarrow> 0 \<in> set buf"
  using nth_mem [of 20 buf] by (simp add: plugin_buffer_def)

lemma plugin_buffer_read:
  assumes "plugin_buffer buf" and "iqrfPgmReadIQRFFileLine buf file = (r, buf', file')"
  shows "plugin_buffer buf'"
  using read_iqrf_line_result [of 0 buf "file" r buf' file'] assms
  by (simp add: plugin_buffer_def iqrfPgmReadIQRFFileLine_def)

text \<open>What one read of a well-formed file gives.\<close>

lemma read_plugin_file:
  assumes "\<forall>i \<in> set items. item_ok i" and "20 \<le> length buf"
  shows "case plugin_data items of
      [] \<Rightarrow> fst (iqrfPgmReadIQRFFileLine buf (plugin_file items)) = IQRF_PGM_END_OF_FILE
    | d # ds \<Rightarrow> \<exists>rest. iqrfPgmReadIQRFFileLine buf (plugin_file items) =
          (IQRF_PGM_FILE_DATA_READY, d @ drop 20 buf, plugin_file rest) \<and> length d = 20 \<and>
        set rest \<subseteq> set items \<and> length rest < length items \<and> plugin_data rest = ds"
  using assms(1)
proof (induction items)
  case Nil
  then show ?case
    by (simp add: plugin_data_def plugin_file_def iqrfPgmReadIQRFFileLine_def read_iqrf_line_end)
next
  case (Cons i items)
  have f: "plugin_file (i # items) = item_text i @ plugin_file items"
    "plugin_data (i # items) = item_data i @ plugin_data items"
    by (simp_all add: plugin_file_def plugin_data_def)
  from Cons.prems have "item_ok i" by simp
  note r = read_item [OF this assms(2), of "plugin_file items"]
  show ?case
  proof (cases "\<exists>d. i = Data d")
    case True
    with r f Cons.prems show ?thesis
      by (auto simp: iqrfPgmReadIQRFFileLine_def intro!: exI [of _ items])
  next
    case False
    then have "iqrfPgmReadIQRFFileLine buf (plugin_file (i # items)) =
        iqrfPgmReadIQRFFileLine buf (plugin_file items)" "plugin_data (i # items) = plugin_data items"
      using r f by (cases i; simp add: iqrfPgmReadIQRFFileLine_def)+
    with Cons show ?thesis by (fastforce split: list.splits)
  qed
qed

text \<open>How a run of \<open>PgmTrcnfg\<close> ends, by what it has read.\<close>

definition config_outcome :: "ustring \<times> byte \<times> string \<Rightarrow> (thrown + int) \<times> 'e world \<Rightarrow> bool" where
  "config_outcome config r =
     (case config of (HwProfile, RfPgmCfg, text) \<Rightarrow>
        if 0 \<in> set HwProfile \<and> RfPgmCfg = 0
        then completes [Req_upload TARGET_CFG_HWP_W HwProfile, Req_upload TARGET_CFG_RFPGM_W [0]] r
        else ends_in {NotReturned, UndefinedBehaviour} (\<lambda>n w. n \<in> {1, 2}) r)"

context program_environment begin

lemma write_packets_requests:
  "write_packets log_packet r n s u = (Inr t, u @ v) \<Longrightarrow> zero_inside v \<Longrightarrow> running good h w \<Longrightarrow>
     regular (\<lambda>t' w. t' = t \<and> running good (h @ map packet_request v) w) (write_packets (write_block E) r n s w)"
proof (induction n arbitrary: s u v h w)
  case (Suc n)
  obtain Target start size t1 where p: "packet r (Suc n) s = (Target, start, size, t1)"
    by (cases "packet r (Suc n) s") auto
  let ?mem = "drop start (MemoryBlock t1)" and ?t1 = "t1\<lparr>MemoryBlockProcessState := of_nat n\<rparr>"
  note steps = write_packets_Suc [OF p]
  have size: "size \<le> length ?mem"
    using Suc.prems(1) unfolding steps by (rule_tac ccontr) (simp add: log_packet_outside)
  with Suc.prems(1) have
    run: "write_packets log_packet r n ?t1 (u @ [(Target, take size ?mem)]) = (Inr t, u @ v)"
    unfolding steps by (simp add: log_packet_inside)
  from write_packets_log [OF run] obtain v1 where v: "v = (Target, take size ?mem) # v1" by auto
  have z: "0 \<in> set ?mem" using Suc.prems(2) v in_set_takeD by fastforce
  show ?case
    unfolding steps
  proof (rule ends_in_andThen [OF write_block_regular [OF Suc.prems(3) size z]])
    fix x :: unit and w'
    assume "running good (h @ [Req_upload Target (take size ?mem)]) w'"
    from Suc.IH [OF _ _ this, of ?t1 "u @ [(Target, take size ?mem)]" v1] run v Suc.prems(2) show
      "regular (\<lambda>t' w. t' = t \<and> running good (h @ map packet_request v) w)
        (write_packets (write_block E) r n ?t1 w')"
      by simp
  qed
qed simp

lemma program_loop_requests:
  "program_loop log_packet s u = (Inr x, u @ v) \<Longrightarrow> zero_inside v \<Longrightarrow> running good h w \<Longrightarrow>
     regular (\<lambda>_. running good (h @ map packet_request v)) (program_loop (write_block E) s w)"
proof (induction "to_do s" arbitrary: s u v h w rule: less_induct)
  case less
  obtain r t where p: "iqrfPgmPrepareMemBlock s = Inr (r, t)"
    using less.prems(1) by (subst (asm) program_loop.simps) (auto split: sum.splits)
  show ?case
  proof (cases "r \<in> {IQRF_PGM_SUCCESS, IQRF_PGM_ERROR}")
    case True
    with less.prems p show ?thesis
      by (subst (asm) program_loop.simps, subst program_loop.simps) auto
  next
    case False
    obtain y u1 where q: "write_packets log_packet r (unat (MemoryBlockProcessState t)) t u = (y, u1)"
      by (cases "write_packets log_packet r (unat (MemoryBlockProcessState t)) t u")
    from less.prems(1) p False q obtain t' where y: "y = Inr t'"
      and run: "program_loop log_packet t' u1 = (Inr x, u @ v)"
      by (subst (asm) program_loop.simps) (cases y, auto)
    from write_packets_log [OF q] program_loop_log [OF run] obtain v1 v2 where
      v: "u1 = u @ v1" "v = v1 @ v2" by auto
    have l: "to_do t' < to_do s"
      using prepare_to_do [OF p False] write_packets_to_do [OF q [unfolded y]] by simp
    have z: "zero_inside v1" "zero_inside v2" using less.prems(2) v by simp_all
    show ?thesis
      unfolding program_loop_block [OF p False]
    proof (rule ends_in_andThen [OF write_packets_requests [OF q [unfolded y v(1)] z(1) less.prems(3)]])
      fix y w'
      assume "y = t' \<and> running good (h @ map packet_request v1) w'"
      with less.hyps [OF l _ z(2), of u1 "h @ map packet_request v1" w'] run v show
        "regular (\<lambda>_. running good (h @ map packet_request v)) (program_loop (write_block E) y w')"
        by simp
    qed
  qed
qed

lemma PgmHex_run:
  assumes "3 \<le> length argv" and "fopen (argv ! 2) = Some file"
    and "program_loop log_packet (initial_pgm file) [] = (Inr x, packets)" and "zero_inside packets"
  shows "completes (map packet_request packets) (PgmHex_main E fopen argv)"
proof -
  have "completes (map packet_request packets)
    (unless_returned (connect E (argv ! 1) (''Connection test OK'' @ endl) (''Connection test FAILED'' @ endl)
       start_world) (\<lambda>w. unless_returned (enter_mode E w) (\<lambda>w.
     andThen (program_loop (write_block E) (initial_pgm file) w) (\<lambda>_ w.
     andThen (terminate_mode E w) (\<lambda>_. finish E)))))"
    by (rule frame_completes [OF start_world_fields])
      (rule program_loop_requests [where u = "[]"], use assms(3,4) in simp_all)
  with assms(1,2) show ?thesis by (simp add: PgmHex_main_def)
qed

lemma plugin_loop_requests:
  "\<forall>i \<in> set items. item_ok i \<Longrightarrow> plugin_buffer buf \<Longrightarrow> running good h w \<Longrightarrow>
     regular (\<lambda>_. running good (h @ map (Req_upload TARGET_PLUGIN_W) (plugin_data items)))
       (plugin_loop E buf (plugin_file items) w)"
proof (induction "length items" arbitrary: items buf h w rule: less_induct)
  case less
  have l: "length buf = 64" "20 \<le> length buf" using less.prems(2) by (simp_all add: plugin_buffer_def)
  note r = read_plugin_file [OF less.prems(1) l(2)]
  show ?case
  proof (cases "plugin_data items")
    case Nil
    obtain x b f where "iqrfPgmReadIQRFFileLine buf (plugin_file items) = (x, b, f)"
      by (cases "iqrfPgmReadIQRFFileLine buf (plugin_file items)") auto
    with r Nil less.prems(3) show ?thesis by (subst plugin_loop.simps) simp
  next
    case (Cons d ds)
    with r obtain rest where
      rest: "iqrfPgmReadIQRFFileLine buf (plugin_file items) =
          (IQRF_PGM_FILE_DATA_READY, d @ drop 20 buf, plugin_file rest)" "length d = 20"
        "set rest \<subseteq> set items" "length rest < length items" "plugin_data rest = ds" by auto
    let ?buf = "d @ drop 20 buf"
    have b: "plugin_buffer ?buf" by (rule plugin_buffer_read [OF less.prems(2) rest(1)])
    have step: "plugin_loop E buf (plugin_file items) w =
        andThen (write_block E TARGET_PLUGIN_W ?buf 20 w) (\<lambda>_. plugin_loop E ?buf (plugin_file rest))"
      using rest(1) by (subst plugin_loop.simps) simp
    show ?thesis
      unfolding step
    proof (rule ends_in_andThen [OF write_block_regular [OF less.prems(3) _ plugin_buffer_zero [OF b]]])
      show "20 \<le> length ?buf" using rest(2) by simp
      fix x :: unit and w'
      assume "running good (h @ [Req_upload TARGET_PLUGIN_W (take 20 ?buf)]) w'"
      from less.hyps [OF rest(4) _ b this] less.prems(1) rest(2,3,5) Cons show
        "regular (\<lambda>_. running good (h @ map (Req_upload TARGET_PLUGIN_W) (plugin_data items)))
          (plugin_loop E ?buf (plugin_file rest) w')"
        by auto
    qed
  qed
qed

lemma PgmIqrf_run:
  assumes "3 \<le> length argv" and "fopen (argv ! 2) = Some (plugin_file items)"
    and "\<forall>i \<in> set items. item_ok i"
  shows "completes (map (Req_upload TARGET_PLUGIN_W) (plugin_data items)) (PgmIqrf_main E fopen argv)"
proof -
  have b: "plugin_buffer (replicate 64 0)" by (simp add: plugin_buffer_def)
  have "completes (map (Req_upload TARGET_PLUGIN_W) (plugin_data items))
    (unless_returned (connect E (argv ! 1) (''Connection test OK'' @ endl) (''Connection test FAILED'' @ endl)
       start_world) (\<lambda>w. unless_returned (enter_mode E w) (\<lambda>w.
     andThen (plugin_loop E (replicate 64 0) (plugin_file items) w) (\<lambda>_ w.
     andThen (terminate_mode E w) (\<lambda>_. finish E)))))"
    by (rule frame_completes [OF start_world_fields]) (rule plugin_loop_requests [OF assms(3) b])
  with assms(1,2) show ?thesis by (simp add: PgmIqrf_main_def)
qed

text \<open>The configuration: each of the two arrays must contain a zero byte to be uploaded.\<close>

lemma show_then_upload:
  assumes "running good h w" and "n \<le> length mem"
  shows "0 \<in> set mem \<Longrightarrow> regular (\<lambda>_. running good (h @ [Req_upload t (take n mem)]))
      (andThen (printDataInHex mem n (print m w)) (\<lambda>_ w. upload_data E t mem n (print m' w)))"
    and "0 \<notin> set mem \<Longrightarrow> fst (andThen (printDataInHex mem n (print m w))
      (\<lambda>_ w. upload_data E t mem n (print m' w))) = Inl UndefinedBehaviour"
proof -
  obtain w' where w': "printDataInHex mem n (print m w) = (Inr (), w')"
    "testImp w' = testImp w" "requests w' = requests w"
    using printDataInHex_fields [OF assms(2)] by (metis print_fields)
  then have "running good h (print m' w')" using assms(1) by (simp add: running_def)
  with upload_regular [OF this assms(2)] upload_undefined [OF this assms(2)] w'(1) show
    "0 \<in> set mem \<Longrightarrow> regular (\<lambda>_. running good (h @ [Req_upload t (take n mem)]))
      (andThen (printDataInHex mem n (print m w)) (\<lambda>_ w. upload_data E t mem n (print m' w)))"
    "0 \<notin> set mem \<Longrightarrow> fst (andThen (printDataInHex mem n (print m w))
      (\<lambda>_ w. upload_data E t mem n (print m' w))) = Inl UndefinedBehaviour"
    by simp_all
qed

lemma config_loop_eq:
  "config_loop E HwProfile RfPgmCfg w =
     andThen (andThen (printDataInHex HwProfile 32 (print (''HW profile data to write:'' @ endl) w))
       (\<lambda>_ w. upload_data E TARGET_CFG_HWP_W HwProfile 32 (print (''Data sent to device'' @ endl) w)))
     (\<lambda>_ w. andThen (printDataInHex [RfPgmCfg] 1 (print (''RFPGM data to write:'' @ endl) w))
       (\<lambda>_ w. upload_data E TARGET_CFG_RFPGM_W [RfPgmCfg] 1 (print (''Data sent to device'' @ endl) w)))"
  by (simp add: config_loop_def andThen_def split: prod.split sum.split)

lemma config_loop_regular:
  assumes "running good h w" and "length HwProfile = 32" and "0 \<in> set HwProfile"
  shows "regular (\<lambda>_. running good (h @ [Req_upload TARGET_CFG_HWP_W HwProfile, Req_upload TARGET_CFG_RFPGM_W [0]]))
    (config_loop E HwProfile 0 w)"
proof -
  have "regular (\<lambda>_. running good (h @ [Req_upload TARGET_CFG_HWP_W HwProfile]))
    (andThen (printDataInHex HwProfile 32 (print (''HW profile data to write:'' @ endl) w))
      (\<lambda>_ w. upload_data E TARGET_CFG_HWP_W HwProfile 32 (print (''Data sent to device'' @ endl) w)))"
    using show_then_upload(1) [OF assms(1) _ assms(3), of 32] assms(2) by simp
  then show ?thesis
    unfolding config_loop_eq
  proof (rule ends_in_andThen)
    fix x :: unit and w'
    assume "running good (h @ [Req_upload TARGET_CFG_HWP_W HwProfile]) w'"
    from show_then_upload(1) [OF this, of 1 "[0]"] show
      "regular (\<lambda>_. running good (h @ [Req_upload TARGET_CFG_HWP_W HwProfile, Req_upload TARGET_CFG_RFPGM_W [0]]))
        (andThen (printDataInHex [0] 1 (print (''RFPGM data to write:'' @ endl) w'))
          (\<lambda>_ w. upload_data E TARGET_CFG_RFPGM_W [0] 1 (print (''Data sent to device'' @ endl) w)))"
      by simp
  qed
qed

lemma config_loop_undefined:
  assumes "running good h w" and "length HwProfile = 32" and "0 \<notin> set HwProfile \<or> RfPgmCfg \<noteq> 0"
  shows "ends_in {NotReturned, UndefinedBehaviour} (\<lambda>_ _. False) (config_loop E HwProfile RfPgmCfg w)"
proof (cases "0 \<in> set HwProfile")
  case False
  show ?thesis
    unfolding config_loop_eq
    by (rule ends_in_thrown(2) [OF show_then_upload(2) [OF assms(1) _ False, of 32]]) (use assms(2) in simp_all)
next
  case True
  with assms(3) have "RfPgmCfg \<noteq> 0" by simp
  have "ends_in {NotReturned, UndefinedBehaviour} (\<lambda>_. running good (h @ [Req_upload TARGET_CFG_HWP_W HwProfile]))
    (andThen (printDataInHex HwProfile 32 (print (''HW profile data to write:'' @ endl) w))
      (\<lambda>_ w. upload_data E TARGET_CFG_HWP_W HwProfile 32 (print (''Data sent to device'' @ endl) w)))"
    by (rule ends_in_mono [OF show_then_upload(1) [OF assms(1) _ True, of 32]]) (use assms(2) in auto)
  then show ?thesis
    unfolding config_loop_eq
  proof (rule ends_in_andThen)
    fix x :: unit and w'
    assume "running good (h @ [Req_upload TARGET_CFG_HWP_W HwProfile]) w'"
    then show
      "ends_in {NotReturned, UndefinedBehaviour} (\<lambda>_ _. False)
        (andThen (printDataInHex [RfPgmCfg] 1 (print (''RFPGM data to write:'' @ endl) w'))
          (\<lambda>_ w. upload_data E TARGET_CFG_RFPGM_W [RfPgmCfg] 1 (print (''Data sent to device'' @ endl) w)))"
      by (rule ends_in_thrown(1) [OF show_then_upload(2)]) (use \<open>RfPgmCfg \<noteq> 0\<close> in simp_all)
  qed
qed

lemma PgmTrcnfg_cases:
  assumes "3 \<le> length argv" and "fopen (argv ! 2) = Some f"
    and "read_config f = (HwProfile, RfPgmCfg, m)"
  shows "0 \<in> set HwProfile \<Longrightarrow> RfPgmCfg = 0 \<Longrightarrow>
      completes [Req_upload TARGET_CFG_HWP_W HwProfile, Req_upload TARGET_CFG_RFPGM_W [0]]
        (PgmTrcnfg_main E fopen argv)"
    and "0 \<notin> set HwProfile \<or> RfPgmCfg \<noteq> 0 \<Longrightarrow>
      ends_in {NotReturned, UndefinedBehaviour} (\<lambda>n w. n \<in> {1, 2}) (PgmTrcnfg_main E fopen argv)"
proof -
  let ?main = "unless_returned (connect E (argv ! 1) (''Connection test OK'' @ endl)
      (''Connection test FAILED'' @ endl) (print m start_world)) (\<lambda>w.
    unless_returned (enter_mode E w) (\<lambda>w.
    andThen (config_loop E HwProfile RfPgmCfg w) (\<lambda>_ w.
    andThen (terminate_mode E w) (\<lambda>_. finish E))))"
  have main: "PgmTrcnfg_main E fopen argv = ?main"
    using assms by (simp add: PgmTrcnfg_main_def)
  have len: "length HwProfile = 32" using assms(3) by (auto simp: read_config_def split: if_splits)
  have w0: "testImp (print m start_world) = None" "requests (print m start_world) = []" by simp_all
  show "completes [Req_upload TARGET_CFG_HWP_W HwProfile, Req_upload TARGET_CFG_RFPGM_W [0]]
      (PgmTrcnfg_main E fopen argv)" if "0 \<in> set HwProfile" "RfPgmCfg = 0"
    unfolding main
    unfolding that(2) by (rule frame_completes [OF w0]) (rule config_loop_regular [OF _ len that(1)])
  show "ends_in {NotReturned, UndefinedBehaviour} (\<lambda>n w. n \<in> {1, 2}) (PgmTrcnfg_main E fopen argv)"
    if "0 \<notin> set HwProfile \<or> RfPgmCfg \<noteq> 0"
    unfolding main
  proof (rule frame_ends_in [OF w0])
    fix w
    assume "running good [Req_test, Req_enter] w"
    from config_loop_undefined [OF this len that] show "ends_in {NotReturned, UndefinedBehaviour}
        (\<lambda>n w. n \<in> {1, 2}) (andThen (config_loop E HwProfile RfPgmCfg w)
          (\<lambda>_ w. andThen (terminate_mode E w) (\<lambda>_. finish E)))"
      by (rule ends_in_andThen) simp
  qed auto
qed

lemma PgmTrcnfg_run:
  assumes "3 \<le> length argv" and "fopen (argv ! 2) = Some f"
  shows "config_outcome (read_config f) (PgmTrcnfg_main E fopen argv)"
proof (cases "read_config f")
  case (fields HwProfile RfPgmCfg m)
  from PgmTrcnfg_cases [where fopen = fopen, OF assms fields] show ?thesis
    by (auto simp: config_outcome_def fields)
qed

end

end
