(* ===== verification/Read_Programs.thy ===== *)
theory Read_Programs
  imports Programs
begin

text \<open>
  The programs \<open>ReadMemory\<close>, \<open>ReadTemperature\<close> and \<open>ReadTrIdf\<close> (\<open>src/examples\<close>): their
  \<open>main\<close> functions with all that they print, and what they ask of the library. An array of
  characters into which a text is put is checked for its size; an uninitialised array is a
  parameter.
\<close>

unbundle bit_operations_syntax

section \<open>Formatted text\<close>

text \<open>A conversion with a minimal width, filled with a character on the left.\<close>

definition padded :: "nat \<Rightarrow> char \<Rightarrow> string \<Rightarrow> string" where
  "padded width c t = replicate (width - length t) c @ t"

text \<open>\<open>sprintf(tempString, ...)\<close>: the text and its NUL must fit into the array.\<close>

definition temp_size :: nat where "temp_size = 64"

definition fit :: "string \<Rightarrow> ('e, string) step" where
  "fit t w = (if length t < temp_size then (Inr t, w) else (Inl UndefinedBehaviour, w))"

section \<open>ReadMemory\<close>

definition TARGET_FLASH_R :: byte where "TARGET_FLASH_R = 0x05"
definition TARGET_EEPROM_R :: byte where "TARGET_EEPROM_R = 0x06"
definition TARGET_EEEPROM_R :: byte where "TARGET_EEEPROM_R = 0x07"

definition memory_usage :: string where
  "memory_usage =
     ''Usage'' @ endl @ ''  ReadMemoryExample <port-name> <-memory>'' @ endl @ endl @
     ''  memory: -flash or -eeprom or -eeeprom'' @ endl @ endl @
     ''Example'' @ endl @ ''  ReadMemoryExample COM5 -eeprom'' @ endl @
     ''  ReadMemoryExample /dev/ttyACM0 -eeprom'' @ endl"

definition memory_target :: "string \<Rightarrow> byte option" where
  "memory_target arg =
     (if arg = ''-eeprom'' then Some TARGET_EEPROM_R
      else if arg = ''-eeeprom'' then Some TARGET_EEEPROM_R
      else if arg = ''-flash'' then Some TARGET_FLASH_R
      else None)"

definition reading_text :: "byte \<Rightarrow> 16 word \<Rightarrow> string" where
  "reading_text Target MemAddress =
     (let what = (if Target = TARGET_EEPROM_R then ''data from internal EEPROM''
                  else if Target = TARGET_EEEPROM_R then ''data from external EEPROM''
                  else ''verify data from FLASH'')
      in ''Reading 32 bytes of '' @ what @ '' - Address 0x'' @
         padded 4 (CHR ''0'') (hex_of_nat False (unat MemAddress)) @ [CHR 0x0A, CHR 0x0D])"

text \<open>One pass of the loop; the result is \<open>RsBuffer\<close> afterwards.\<close>

definition read_block ::
  "'e environment \<Rightarrow> byte \<Rightarrow> 16 word \<Rightarrow> ustring \<Rightarrow> ustring \<Rightarrow> ('e, ustring) step" where
  "read_block E Target MemAddress RqBuffer RsBuffer w =
     andThen
       (try_catch [CDCSendException, CDCReceiveException]
          (andThen (call E (Req_download Target (take 2 RqBuffer))
               (\<lambda>P. download_ptr P Target RqBuffer 2 RsBuffer (length RsBuffer))
               (print (reading_text Target MemAddress) w))
             (\<lambda>(pmResponse, RsBuffer, RsDataLen) w.
                if pmResponse = PM_OK
                then andThen (printDataInHex RsBuffer RsDataLen (print (''Data reading OK'' @ endl) w))
                       (\<lambda>_ w. (Inr RsBuffer, w))
                else (Inr RsBuffer, print (''Data reading failed'' @ endl) w)))
          (\<lambda>e w. (Inr RsBuffer, print (getDescr e @ endl) w)))
       (\<lambda>RsBuffer w. (Inr RsBuffer, print endl w))"

text \<open>The loop with \<open>CntEnd - Cnt\<close>.\<close>

fun read_blocks ::
  "'e environment \<Rightarrow> byte \<Rightarrow> nat \<Rightarrow> 16 word \<Rightarrow> ustring \<Rightarrow> ustring \<Rightarrow> ('e, unit) step" where
  "read_blocks E Target 0 MemAddress RqBuffer RsBuffer w = (Inr (), w)"
| "read_blocks E Target (Suc n) MemAddress RqBuffer RsBuffer w =
     (let RqBuffer = RqBuffer[0 := ucast (MemAddress AND 0xFF)];
          RqBuffer = RqBuffer[1 := ucast (drop_bit 8 MemAddress)] in
      andThen (read_block E Target MemAddress RqBuffer RsBuffer w) (\<lambda>RsBuffer w.
      read_blocks E Target n (MemAddress + 32) RqBuffer RsBuffer w))"

definition start_address :: "byte \<Rightarrow> 16 word" where
  "start_address Target = (if Target = TARGET_FLASH_R then 0x3A00 else 0x0000)"

definition block_count :: "byte \<Rightarrow> nat" where
  "block_count Target = (let CntEnd = 8 in if Target = TARGET_EEPROM_R then 6 else CntEnd)"

text \<open>\<open>memory\<close> is what is in the two arrays of \<open>main\<close> at its start.\<close>

definition ReadMemory_main ::
  "'e environment \<Rightarrow> ustring \<times> ustring \<Rightarrow> string list \<Rightarrow> (thrown + int) \<times> 'e world" where
  "ReadMemory_main E memory argv =
     (if length argv < 3 then (Inr (- 1), print memory_usage start_world)
      else
        (case memory_target (argv ! 2) of
           None \<Rightarrow> (Inr (- 2), print (''Unsupported memory type'' @ endl) start_world)
         | Some Target \<Rightarrow>
             unless_returned
               (connect E (argv ! 1) (''Connection test OK'' @ endl) (''Connection test FAILED'' @ endl)
                  start_world) (\<lambda>w.
             unless_returned (enter_mode E w) (\<lambda>w.
             andThen (read_blocks E Target (block_count Target) (start_address Target)
                 (fst memory) (snd memory) w) (\<lambda>_ w.
             andThen (terminate_mode E w) (\<lambda>_. finish E))))))"

section \<open>ReadTemperature\<close>

definition HEADER_LENGTH :: nat where "HEADER_LENGTH = 4"
definition CONFIRMATION_HEADER :: ustring where "CONFIRMATION_HEADER = [0x01, 0x00, 0x0A, 0x00]"
definition RESPONSE_HEADER :: ustring where "RESPONSE_HEADER = [0x01, 0x00, 0x0A, 0x80]"

text \<open>The comparison of a header, byte by byte.\<close>

definition isConfirmation :: "ustring \<Rightarrow> bool" where
  "isConfirmation msgHeader =
     list_all (\<lambda>i. msgHeader ! i = CONFIRMATION_HEADER ! i) [0..<HEADER_LENGTH]"

definition isResponse :: "ustring \<Rightarrow> bool" where
  "isResponse msgHeader = list_all (\<lambda>i. msgHeader ! i = RESPONSE_HEADER ! i) [0..<HEADER_LENGTH]"

text \<open>\<open>response\<close> is the readable memory from the pointer on.\<close>

definition printResponse :: "ustring \<Rightarrow> ('e, unit) step" where
  "printResponse response w =
     (let ERROR_CODE_POS = 6; INT_VALUE_POS = 8; FULL_VALUE_POS = 9; FULL_VALUE_LENGTH = 2 in
      if length response \<le> ERROR_CODE_POS then (Inl UndefinedBehaviour, w)
      else
        (let errorCode = unat (response ! ERROR_CODE_POS) in
         if errorCode \<noteq> 0 then (Inr (), print (''Error: '' @ show_nat errorCode @ endl) w)
         else if length response < FULL_VALUE_POS + FULL_VALUE_LENGTH then (Inl UndefinedBehaviour, w)
         else
           (let v = response ! INT_VALUE_POS; fractialPart = response ! FULL_VALUE_POS in
            (Inr (), print (''Temperature = '' @ show_nat (unat v) @ ''.'' @
               show_nat (unat fractialPart) @ '' C'' @ endl) w))))"

text \<open>The listener: \<open>data\<close> is \<open>None\<close> for the null pointer.\<close>

definition receiveData :: "ustring option \<Rightarrow> nat \<Rightarrow> ('e, unit) step" where
  "receiveData data len w =
     (case data of
        None \<Rightarrow> (Inr (), print (''No data received'' @ endl) w)
      | Some data \<Rightarrow>
          if len = 0 then (Inr (), print (''No data received'' @ endl) w)
          else if len < HEADER_LENGTH then printDataInHex data len (print ''Unknown data: '' w)
          else if length data < HEADER_LENGTH then (Inl UndefinedBehaviour, w)
          else
            (let msgHeader = take HEADER_LENGTH data in
             if isConfirmation msgHeader
             then printDataInHex data len (print ''Confirmation received: '' w)
             else if isResponse msgHeader
             then printResponse data (print (''Response received: '' @ endl) w)
             else printDataInHex data len (print ''Unknown type of message. Data: '' w)))"

definition temperatureRequest :: ustring where
  "temperatureRequest = [0x01, 0x00, 0x0A, 0x00, 0xFF, 0xFF]"

text \<open>The loop with \<open>10 - sendCounter\<close>; the pause between the requests is not modelled.\<close>

fun temperature_loop :: "'e environment \<Rightarrow> nat \<Rightarrow> ('e, int option) step" where
  "temperature_loop E 0 w = (Inr None, w)"
| "temperature_loop E (Suc n) w =
     andThen
       (try_catch [CDCSendException, CDCReceiveException]
          (andThen (call E (Req_send temperatureRequest)
               (\<lambda>P. sendData_ptr P temperatureRequest (length temperatureRequest)) w)
             (\<lambda>dsResponse w.
                (Inr (), if dsResponse \<noteq> DS_OK
                         then print (''Response not OK: '' @ show_nat (ds_value dsResponse) @ endl) w
                         else w)))
          (\<lambda>e w. (Inr (), print (getDescr e @ endl) w)))
       (\<lambda>_ w.
          andThen (call E Req_stopped (\<lambda>P s. (Inr (isReceptionStopped s), s)) w) (\<lambda>stopped w.
          if stopped then delete_and_return E 1 w else temperature_loop E n w))"

text \<open>The listener's name is 0.\<close>

definition ReadTemperature_main ::
  "'e environment \<Rightarrow> string list \<Rightarrow> (thrown + int) \<times> 'e world" where
  "ReadTemperature_main E argv =
     (if length argv < 2
      then (Inr (- 1), print (''Usage'' @ endl @ ''  ReadTemperatureExample <port-name>'' @ endl @ endl @
              ''Example'' @ endl @ ''  ReadTemperatureExample COM5'' @ endl @
              ''  ReadTemperatureExample /dev/ttyACM0'' @ endl) start_world)
      else
        unless_returned (connect E (argv ! 1) (''Test OK'' @ endl) (''Test FAILED'' @ endl) start_world) (\<lambda>w.
        andThen (call E Req_listener (\<lambda>P s. (Inr (), registerAsyncMsgListener 0 s)) w) (\<lambda>_ w.
        unless_returned (temperature_loop E 10 w) (finish E))))"

section \<open>ReadTrIdf\<close>

text \<open>\<open>printDataInHex\<close> of this program, with a leading zero for small bytes.\<close>

fun print_hex2_from :: "nat \<Rightarrow> nat \<Rightarrow> ustring \<Rightarrow> ('e, unit) step" where
  "print_hex2_from i len [] w = (if i < len then (Inl UndefinedBehaviour, w) else (Inr (), w))"
| "print_hex2_from i len (b # data) w =
     (if i < len
      then print_hex2_from (i + 1) len data
             (print ((if b < 0x10 then ''0x0'' else ''0x'') @ hex_of_nat False (unat b) @
                (if i \<noteq> len - 1 then '' '' else [])) w)
      else (Inr (), w))"

definition printDataInHex2 :: "ustring \<Rightarrow> nat \<Rightarrow> ('e, unit) step" where
  "printDataInHex2 data len w =
     andThen (print_hex2_from 0 len data w) (\<lambda>_ w. (Inr (), print endl w))"

text \<open>The fields of the identification.\<close>

definition module_id :: "ModuleInfo \<Rightarrow> 32 word" where
  "module_id i =
     push_bit 24 (ucast (serialNumber i ! 3)) OR push_bit 16 (ucast (serialNumber i ! 2)) OR
     push_bit 8 (ucast (serialNumber i ! 1)) OR ucast (serialNumber i ! 0)"

definition module_type :: "ModuleInfo \<Rightarrow> byte" where "module_type i = drop_bit 4 (trType i)"
definition mcu_type :: "ModuleInfo \<Rightarrow> byte" where "mcu_type i = trType i AND 0x07"
definition fcc_certificate :: "ModuleInfo \<Rightarrow> byte" where
  "fcc_certificate i = drop_bit 3 (trType i AND 0x08)"
definition os_major :: "ModuleInfo \<Rightarrow> byte" where "os_major i = osVersion i div 16"
definition os_minor :: "ModuleInfo \<Rightarrow> byte" where "os_minor i = osVersion i mod 16"
definition os_build :: "ModuleInfo \<Rightarrow> 16 word" where
  "os_build i = push_bit 8 (ucast (osBuild i ! 1)) OR ucast (osBuild i ! 0)"

text \<open>
  The name of the module type, character by character; the types 2 and 11 replace the \<open>5\<close>.
  \<open>put_char\<close> is \<open>tempString[tempStringPtr++] = c\<close>.
\<close>

definition put_char :: "char \<Rightarrow> string \<Rightarrow> thrown + string" where
  "put_char c t = (if length t < temp_size then Inr (t @ [c]) else Inl UndefinedBehaviour)"

fun put_chars :: "string \<Rightarrow> string \<Rightarrow> thrown + string" where
  "put_chars [] t = Inr t"
| "put_chars (c # cs) t = bindE (put_char c t) (put_chars cs)"

definition type_name :: "ModuleInfo \<Rightarrow> thrown + string" where
  "type_name i =
     bindE (put_chars (if module_id i AND 0x80000000 \<noteq> 0 then ''DC'' else []) []) (\<lambda>t.
     bindE (put_chars ''TR-5'' t) (\<lambda>t.
     bindE (let n = module_type i in
            if n = 0 then put_chars ''2'' t
            else if n = 1 then put_chars ''8'' t
            else if n = 2 then put_chars ''2'' (butlast t @ ''7'')
            else if n = 3 then put_chars ''3'' t
            else if n = 8 then put_chars ''4'' t
            else if n = 9 then put_chars ''5'' t
            else if n = 10 then put_chars ''6'' t
            else if n = 11 then put_chars ''6'' (butlast t @ ''7'')
            else put_chars ''x'' t) (\<lambda>t.
     bindE (put_chars (if mcu_type i = 4 then ''D'' else []) t) (\<lambda>t.
     put_chars ''x'' t))))"

definition mcu_name :: "ModuleInfo \<Rightarrow> string" where
  "mcu_name i =
     (if mcu_type i = 1 then ''PIC16LF819''
      else if mcu_type i = 2 then ''PIC16LF88''
      else if mcu_type i = 3 then ''PIC16F886''
      else if mcu_type i = 4 then ''PIC16LF1938''
      else ''UNKNOWN'')"

definition printTrModuleData :: "ModuleInfo \<Rightarrow> ('e, unit) step" where
  "printTrModuleData i w =
     (let w = print (''TR module info data:'' @ endl @ ''--------------------'' @ endl) w in
      case bindE (type_name i) (put_char (CHR 0x00)) of
        Inl e \<Rightarrow> (Inl e, w)
      | Inr tempString \<Rightarrow>
          (let w = print (''Module type:       '' @ takeWhile (\<lambda>c. c \<noteq> CHR 0x00) tempString @ endl) w;
               w = print (''Module MCU:        '' @ mcu_name i @ endl) w in
           andThen (fit (''Module ID:         0x'' @
               padded 8 (CHR ''0'') (hex_of_nat True (unat (module_id i)))) w) (\<lambda>t w.
           andThen (fit (''OS version:       '' @ padded 2 (CHR '' '') (hex_of_nat True (unat (os_major i))) @
               ''.'' @ padded 2 (CHR ''0'') (hex_of_nat True (unat (os_minor i))) @ ''D (0x'' @
               padded 4 (CHR ''0'') (hex_of_nat False (unat (os_build i))) @ '')'') (print (t @ endl) w)) (\<lambda>t w.
           andThen (fit (''FCC certification: '' @ (if fcc_certificate i = 1 then ''YES'' else ''NO''))
               (print (t @ endl) w)) (\<lambda>t w.
           (let w = print (t @ endl @ ''IBK:               '') w in
            andThen (if os_major i > 4 \<or> os_major i = 4 \<and> os_minor i \<ge> 3
                     then printDataInHex2 (ibk i) 16 w else (Inr (), print ''---'' w)) (\<lambda>_ w.
            (Inr (), print endl w))))))))"

text \<open>
  A text of the gateway: cut to the size of the array, copied, ended by a NUL. Its length field
  is cut, too, but not read any more.
\<close>

definition device_text :: "ustring \<Rightarrow> 32 word \<Rightarrow> thrown + string" where
  "device_text field len =
     (let len = (if unat len \<ge> temp_size then of_nat (temp_size - 1) else len) in
      if length field < unat len then Inl UndefinedBehaviour
      else Inr (takeWhile (\<lambda>c. c \<noteq> CHR 0x00) (map (char_of \<circ> unat) (take (unat len) field))))"

definition printUSBDeviceData :: "DeviceInfo \<Rightarrow> ('e, unit) step" where
  "printUSBDeviceData d w =
     (let w = print (''USB device info data:'' @ endl @ ''---------------------'' @ endl) w in
      case device_text (devType d) (typeLen d) of
        Inl e \<Rightarrow> (Inl e, w)
      | Inr t \<Rightarrow>
          (let w = print (''USB device type:     '' @ t @ endl) w in
           case device_text (firmwareVersion d) (fwLen d) of
             Inl e \<Rightarrow> (Inl e, w)
           | Inr t \<Rightarrow>
               (let w = print (''USB device firmware: '' @ t @ endl) w in
                case device_text (devSerialNumber d) (snLen d) of
                  Inl e \<Rightarrow> (Inl e, w)
                | Inr t \<Rightarrow> (Inr (), print (''USB device SN:       '' @ t @ endl @ endl) w))))"

text \<open>\<open>getUSBDeviceInfo\<close> never returns the null pointer (its value is not optional).\<close>

definition read_device_info :: "'e environment \<Rightarrow> ('e, unit) step" where
  "read_device_info E w =
     try_catch [CDCSendException, CDCReceiveException]
       (andThen (call E Req_usb_info getUSBDeviceInfo (print endl w)) (\<lambda>d w.
          printUSBDeviceData d (print (''USB device reading OK'' @ endl) w)))
       (\<lambda>e w. (Inr (), print (getDescr e @ endl) w))"

definition read_module_info :: "'e environment \<Rightarrow> ('e, unit) step" where
  "read_module_info E w =
     try_catch [CDCSendException, CDCReceiveException]
       (andThen (call E Req_tr_info getTRModuleInfo w) (\<lambda>i w.
          case i of
            Some i \<Rightarrow> printTrModuleData i (print (''TR module reading OK'' @ endl) w)
          | None \<Rightarrow> (Inr (), print (''TR module reading failed'' @ endl) w)))
       (\<lambda>e w. (Inr (), print (getDescr e @ endl) w))"

definition ReadTrIdf_main :: "'e environment \<Rightarrow> string list \<Rightarrow> (thrown + int) \<times> 'e world" where
  "ReadTrIdf_main E argv =
     (if length argv < 2
      then (Inr (- 1), print (''Usage'' @ endl @ ''  ReadTrIdfExample <port-name>'' @ endl @ endl @
              ''Example'' @ endl @ ''  ReadTrIdfExample COM5'' @ endl @
              ''  ReadTrIdfExample /dev/ttyACM0'' @ endl) start_world)
      else
        unless_returned (connect E (argv ! 1) (''Connection test OK'' @ endl)
            (''Connection test FAILED'' @ endl) start_world) (\<lambda>w.
        andThen (read_device_info E w) (\<lambda>_ w.
        andThen (read_module_info E w) (\<lambda>_. finish E))))"

section \<open>Laws of the texts\<close>

lemma length_hex_of_nat: "n < 16 ^ Suc k \<Longrightarrow> length (hex_of_nat c n) \<le> Suc k"
proof (induction k arbitrary: n)
  case 0
  then show ?case by (subst hex_of_nat.simps) (simp add: Let_def)
next
  case (Suc k)
  have "n div 16 < 16 ^ Suc k" using Suc.prems by (simp add: less_mult_imp_div_less)
  from Suc.IH [OF this] show ?case by (subst hex_of_nat.simps) (simp add: Let_def)
qed

lemma length_padded: "length t \<le> n \<Longrightarrow> length (padded n c t) = n"
  by (simp add: padded_def)

lemma length_padded_hex:
  assumes "n < 16 ^ Suc k"
  shows "length (padded (Suc k) c (hex_of_nat u n)) = Suc k"
  by (rule length_padded [OF length_hex_of_nat [OF assms]])

lemma length_hex_8: "length (padded 2 c (hex_of_nat u (unat (b :: byte)))) = 2"
proof -
  have "unat b < 16 ^ Suc 1" using unsigned_less [of b] by simp
  from length_padded_hex [OF this, of c u] show ?thesis by (simp add: numeral_2_eq_2)
qed

lemma length_hex_16: "length (padded 4 c (hex_of_nat u (unat (b :: 16 word)))) = 4"
proof -
  have "unat b < 16 ^ Suc 3" using unsigned_less [of b] by simp
  from length_padded_hex [OF this, of c u] show ?thesis by simp
qed

lemma length_hex_32: "length (padded 8 c (hex_of_nat u (unat (b :: 32 word)))) = 8"
proof -
  have "unat b < 16 ^ Suc 7" using unsigned_less [of b] by simp
  from length_padded_hex [OF this, of c u] show ?thesis by simp
qed

lemma put_chars_eq: "length t + length cs \<le> temp_size \<Longrightarrow> put_chars cs t = Inr (t @ cs)"
  by (induction cs arbitrary: t) (simp_all add: put_char_def)

lemma type_name_fits: "\<exists>t. type_name i = Inr t \<and> length t < temp_size"
proof -
  have b: "bindE (Inr x) f = f x" for x :: string and f :: "string \<Rightarrow> thrown + string"
    by (simp add: bindE_def)
  define p where "p = (if module_id i AND 0x80000000 \<noteq> 0 then ''DC'' else [])"
  define q where "q = (if mcu_type i = 4 then ''D'' else [])"
  have l: "length p \<le> 2" "length q \<le> 1" by (simp_all add: p_def q_def)
  show ?thesis
    unfolding type_name_def p_def [symmetric] q_def [symmetric]
    using l by (auto simp: put_chars_eq temp_size_def b Let_def simp del: put_chars.simps)
qed

lemma fit_eq: "length t < 64 \<Longrightarrow> fit t w = (Inr t, w)"
  by (simp add: fit_def temp_size_def)

lemma device_text_fits: "unat len \<le> length field \<Longrightarrow> \<exists>t. device_text field len = Inr t \<and> length t < temp_size"
  using le_trans [OF length_takeWhile_le, of _ "63"]
  by (auto simp: device_text_def temp_size_def Let_def unsigned_of_nat take_bit_nat_eq_self
      intro: le_less_trans [OF length_takeWhile_le])

section \<open>Laws of the programs\<close>

lemma download_ptr_value:
  assumes "download_ptr P target mem n out k s = (Inr (r, out', len), s')"
  shows "length out' = length out \<and> len \<le> length out'"
  using assms
  by (auto simp: download_ptr_def andThen_def copy_n_def decode_def Let_def
      split: sum.splits prod.splits if_splits)

text \<open>The bytes of an address in a request.\<close>

definition address_request :: "16 word \<Rightarrow> ustring" where
  "address_request a = [ucast (a AND 0xFF), ucast (drop_bit 8 a)]"

definition block_requests :: "byte \<Rightarrow> 16 word \<Rightarrow> nat \<Rightarrow> request list" where
  "block_requests Target a n =
     map (\<lambda>k. Req_download Target (address_request (a + 32 * of_nat k))) [0..<n]"

lemma block_requests_Suc:
  "block_requests Target a (Suc n) =
     Req_download Target (address_request a) # block_requests Target (a + 32) n"
  by (simp add: block_requests_def upt_conv_Cons map_Suc_upt [symmetric] comp_def algebra_simps
      del: upt_Suc)

context program_environment begin

lemma read_block_regular:
  assumes "running good h w" and "2 \<le> length Rq"
  shows "regular (\<lambda>Rs' w. length Rs' = length Rs \<and> running good (h @ [Req_download Target (take 2 Rq)]) w)
    (read_block E Target a Rq Rs w)"
  unfolding read_block_def
proof (rule ends_in_andThen, rule guarded_call)
  show "running good h (print (reading_text Target a) w)" using assms(1) by simp
next
  fix s h
  assume "good s"
  then show "proper good (download_ptr (platform_at E h) Target Rq 2 Rs (length Rs) s)"
    by (rule command_channel.pointer_outcomes(3) [OF channel _ assms(2) order_refl])
next
  fix x w1 h' s s'
  assume w1: "running good (h @ [Req_download Target (take 2 Rq)]) w1"
    and "download_ptr (platform_at E h') Target Rq 2 Rs (length Rs) s = (Inr x, s')"
  moreover obtain r Rs1 len where "x = (r, Rs1, len)" by (cases x)
  ultimately have x: "x = (r, Rs1, len)" "length Rs1 = length Rs" "len \<le> length Rs1"
    using download_ptr_value [of "platform_at E h'" Target Rq 2 Rs "length Rs" s r Rs1 len s'] by simp_all
  obtain w2 where "printDataInHex Rs1 len (print (''Data reading OK'' @ endl) w1) = (Inr (), w2)"
    "testImp w2 = testImp w1" "requests w2 = requests w1"
    using printDataInHex_fields [OF x(3)] by (metis print_fields)
  with w1 x show "regular (\<lambda>Rs' w. length Rs' = length Rs \<and>
      running good (h @ [Req_download Target (take 2 Rq)]) w)
    ((case x of (pmResponse, RsBuffer, RsDataLen) \<Rightarrow> \<lambda>w. if pmResponse = PM_OK
      then andThen (printDataInHex RsBuffer RsDataLen (print (''Data reading OK'' @ endl) w))
        (\<lambda>_ w. (Inr RsBuffer, w))
      else (Inr RsBuffer, print (''Data reading failed'' @ endl) w)) w1)"
    by (simp add: running_def)
qed (use running_print in auto)

lemma read_blocks_regular:
  "running good h w \<Longrightarrow> 2 \<le> length Rq \<Longrightarrow>
     regular (\<lambda>_. running good (h @ block_requests Target a n)) (read_blocks E Target n a Rq Rs w)"
proof (induction n arbitrary: h a Rq Rs w)
  case 0
  then show ?case by (simp add: block_requests_def)
next
  case (Suc n)
  let ?Rq = "Rq[0 := ucast (a AND 0xFF), 1 := ucast (drop_bit 8 a)]"
  obtain x y rest where "Rq = x # y # rest"
    using Suc.prems(2) by (metis One_nat_def Suc_1 Suc_le_length_iff)
  then have t: "take 2 ?Rq = address_request a" by (simp add: address_request_def)
  have l: "2 \<le> length ?Rq" using Suc.prems(2) by simp
  have step: "read_blocks E Target (Suc n) a Rq Rs w =
      andThen (read_block E Target a ?Rq Rs w) (read_blocks E Target n (a + 32) ?Rq)"
    by (simp add: Let_def)
  show ?case
    unfolding step block_requests_Suc
  proof (rule ends_in_andThen [OF read_block_regular [OF Suc.prems(1) l]])
    fix Rs' :: ustring and w'
    assume "length Rs' = length Rs \<and> running good (h @ [Req_download Target (take 2 ?Rq)]) w'"
    with Suc.IH [OF _ l, of "h @ [Req_download Target (address_request a)]" w' "a + 32" Rs'] t show
      "regular (\<lambda>_. running good (h @ Req_download Target (address_request a) #
          block_requests Target (a + 32) n)) (read_blocks E Target n (a + 32) ?Rq Rs' w')"
      by simp
  qed
qed

lemma ReadMemory_run:
  assumes "3 \<le> length argv" and "memory_target (argv ! 2) = Some Target" and "2 \<le> length (fst memory)"
  shows "completes (block_requests Target (start_address Target) (block_count Target))
    (ReadMemory_main E memory argv)"
proof -
  have "completes (block_requests Target (start_address Target) (block_count Target))
    (unless_returned (connect E (argv ! 1) (''Connection test OK'' @ endl) (''Connection test FAILED'' @ endl)
       start_world) (\<lambda>w. unless_returned (enter_mode E w) (\<lambda>w.
     andThen (read_blocks E Target (block_count Target) (start_address Target) (fst memory) (snd memory) w)
       (\<lambda>_ w. andThen (terminate_mode E w) (\<lambda>_. finish E)))))"
    by (rule frame_completes [OF start_world_fields]) (rule read_blocks_regular [OF _ assms(3)])
  with assms(1,2) show ?thesis by (simp add: ReadMemory_main_def)
qed

text \<open>A call that only reads the object or sets something the invariant does not depend on.\<close>

lemma call_plain:
  assumes "running good h w" and "\<And>s. good s \<Longrightarrow> good (g s)"
  shows "regular (\<lambda>_. running good (h @ [req])) (call E req (\<lambda>P s. (Inr (f s), g s)) w)"
  using assms between_law by (auto simp: running_def call_def Let_def)

lemma temperature_loop_regular:
  "running good h w \<Longrightarrow>
     regular (\<lambda>ret w. case ret of
         None \<Rightarrow> running good (h @ concat (replicate n [Req_send temperatureRequest, Req_stopped])) w
       | Some k \<Rightarrow> k = 1 \<and> testImp w = None)
     (temperature_loop E n w)"
proof (induction n arbitrary: h w)
  case (Suc n)
  show ?case
    unfolding temperature_loop.simps
  proof (rule ends_in_andThen, rule guarded_call [OF Suc.prems])
    fix s h
    assume "good s"
    then show "proper good (sendData_ptr (platform_at E h) temperatureRequest (length temperatureRequest) s)"
      by (rule command_channel.pointer_outcomes(1) [OF channel _ order_refl])
  next
    fix w1 and x :: unit
    assume w1: "running good (h @ [Req_send temperatureRequest]) w1"
    show "regular (\<lambda>ret w. case ret of
         None \<Rightarrow> running good (h @ concat (replicate (Suc n) [Req_send temperatureRequest, Req_stopped])) w
       | Some k \<Rightarrow> k = 1 \<and> testImp w = None)
      (andThen (call E Req_stopped (\<lambda>P s. (Inr (isReceptionStopped s), s)) w1)
        (\<lambda>stopped w. if stopped then delete_and_return E 1 w else temperature_loop E n w))"
    proof (rule ends_in_andThen [OF call_plain [OF w1]])
      fix stopped w2
      assume w2: "running good ((h @ [Req_send temperatureRequest]) @ [Req_stopped]) w2"
      have eq: "((h @ [Req_send temperatureRequest]) @ [Req_stopped]) @
          concat (replicate n [Req_send temperatureRequest, Req_stopped]) =
        h @ concat (replicate (Suc n) [Req_send temperatureRequest, Req_stopped])" by simp
      from Suc.IH [OF w2, unfolded eq] w2 show "regular (\<lambda>ret w. case ret of
           None \<Rightarrow> running good (h @ concat (replicate (Suc n) [Req_send temperatureRequest, Req_stopped])) w
         | Some k \<Rightarrow> k = 1 \<and> testImp w = None)
        (if stopped then delete_and_return E 1 w2 else temperature_loop E n w2)"
        by auto
    qed
  qed simp_all
qed simp

lemma ReadTemperature_run:
  assumes "2 \<le> length argv"
  shows "exits_after ([Req_test, Req_listener] @ concat (replicate 10 [Req_send temperatureRequest, Req_stopped]))
    (ReadTemperature_main E argv)"
proof -
  let ?R = "\<lambda>n w. testImp w = None \<and> n \<in> {0, 1, 2} \<and> (n = 0 \<longrightarrow> requests w =
      [Req_test, Req_listener] @ concat (replicate 10 [Req_send temperatureRequest, Req_stopped]))"
  have "regular ?R (unless_returned (connect E (argv ! 1) (''Test OK'' @ endl) (''Test FAILED'' @ endl) start_world) (\<lambda>w.
    andThen (call E Req_listener (\<lambda>P s. (Inr (), registerAsyncMsgListener 0 s)) w) (\<lambda>_ w.
    unless_returned (temperature_loop E 10 w) (finish E))))"
  proof (rule ends_in_unless_returned [OF connect_regular [OF start_world_fields]])
    fix w
    assume "case None of None \<Rightarrow> running good [Req_test] w | Some n \<Rightarrow> n \<in> {1, 2} \<and> testImp w = None"
    then have w: "running good [Req_test] w" by simp
    show "regular ?R (andThen (call E Req_listener (\<lambda>P s. (Inr (), registerAsyncMsgListener 0 s)) w) (\<lambda>_ w.
      unless_returned (temperature_loop E 10 w) (finish E)))"
    proof (rule ends_in_andThen [OF call_plain [OF w listener_law]])
      fix x :: unit and w1
      assume w1: "running good ([Req_test] @ [Req_listener]) w1"
      show "regular ?R (unless_returned (temperature_loop E 10 w1) (finish E))"
        by (rule ends_in_unless_returned [OF temperature_loop_regular [OF w1]])
          (auto simp: running_def)
    qed
  qed auto
  with assms show ?thesis by (simp add: exits_after_def ReadTemperature_main_def)
qed

lemma print_module_regular:
  assumes "running good h w" and "module_info_ok i"
  shows "regular (\<lambda>_. running good h) (printTrModuleData i w)"
proof -
  obtain t where t: "type_name i = Inr t" "length t < temp_size" using type_name_fits by blast
  have ibk: "\<exists>w'. printDataInHex2 (ibk i) 16 w = (Inr (), w') \<and> testImp w' = testImp w \<and>
      requests w' = requests w" for w :: "'e world"
  proof -
    have "n \<le> k + length data \<Longrightarrow> \<exists>w'. print_hex2_from k n data w = (Inr (), w') \<and>
        testImp w' = testImp w \<and> requests w' = requests w" for k n data and w :: "'e world"
      by (induction k n data w rule: print_hex2_from.induct) auto
    from this [of 16 0 "ibk i" w] assms(2) show ?thesis
      by (auto simp: printDataInHex2_def module_info_ok_def)
  qed
  have n: "bindE (type_name i) (put_char (CHR 0x00)) = Inr (t @ [CHR 0x00])"
    using t by (simp add: bindE_def put_char_def)
  have key: "regular (\<lambda>_. running good h) (if c then printDataInHex2 (ibk i) 16 w else (Inr (), print ''---'' w))"
    if "running good h w" for c w
    using that ibk [of w] by (auto simp: running_def)
  have f: "fit (''Module ID:         0x'' @
        padded 8 (CHR ''0'') (hex_of_nat True (unat (module_id i)))) w = (Inr (''Module ID:         0x'' @
        padded 8 (CHR ''0'') (hex_of_nat True (unat (module_id i)))), w)"
    "fit (''OS version:       '' @ padded 2 (CHR '' '') (hex_of_nat True (unat (os_major i))) @
        ''.'' @ padded 2 (CHR ''0'') (hex_of_nat True (unat (os_minor i))) @ ''D (0x'' @
        padded 4 (CHR ''0'') (hex_of_nat False (unat (os_build i))) @ '')'') w =
      (Inr (''OS version:       '' @ padded 2 (CHR '' '') (hex_of_nat True (unat (os_major i))) @
        ''.'' @ padded 2 (CHR ''0'') (hex_of_nat True (unat (os_minor i))) @ ''D (0x'' @
        padded 4 (CHR ''0'') (hex_of_nat False (unat (os_build i))) @ '')''), w)"
    "fit (''FCC certification: '' @ (if c then ''YES'' else ''NO'')) w =
      (Inr (''FCC certification: '' @ (if c then ''YES'' else ''NO'')), w)" for w :: "'e world" and c
    by (simp_all add: fit_eq length_hex_8 length_hex_16 length_hex_32)
  show ?thesis
    unfolding printTrModuleData_def Let_def n sum.case f andThen_simps
    by (rule ends_in_andThen [OF key]) (use assms(1) in simp_all)
qed

lemma print_device_regular:
  assumes "running good h w" and "device_info_ok d"
  shows "regular (\<lambda>_. running good h) (printUSBDeviceData d w)"
proof -
  from assms(2) device_text_fits obtain t1 t2 t3 where
    "device_text (devType d) (typeLen d) = Inr t1" "device_text (firmwareVersion d) (fwLen d) = Inr t2"
    "device_text (devSerialNumber d) (snLen d) = Inr t3"
    unfolding device_info_ok_def by blast
  with assms(1) show ?thesis by (simp add: printUSBDeviceData_def Let_def)
qed

lemma read_device_info_regular:
  assumes "running good h w"
  shows "regular (\<lambda>_. running good (h @ [Req_usb_info])) (read_device_info E w)"
  unfolding read_device_info_def
proof (rule guarded_call)
  show "running good h (print endl w)" using assms by simp
next
  fix s h
  assume "good s"
  then show "proper good (getUSBDeviceInfo (platform_at E h) s)"
    using command_channel.all_outcomes(6) [OF channel] by blast
next
  fix d w1 h' s s'
  assume "running good (h @ [Req_usb_info]) w1" "good s" "getUSBDeviceInfo (platform_at E h') s = (Inr d, s')"
  with command_channel.identification_values(1) [OF channel] show
    "regular (\<lambda>_. running good (h @ [Req_usb_info]))
      (printUSBDeviceData d (print (''USB device reading OK'' @ endl) w1))"
    by (intro print_device_regular) auto
qed simp

lemma read_module_info_regular:
  assumes "running good h w"
  shows "regular (\<lambda>_. running good (h @ [Req_tr_info])) (read_module_info E w)"
  unfolding read_module_info_def
proof (rule guarded_call [OF assms])
  fix s h
  assume "good s"
  then show "proper good (getTRModuleInfo (platform_at E h) s)"
    using command_channel.all_outcomes(7) [OF channel] by blast
next
  fix i w1 h' s s'
  assume a: "running good (h @ [Req_tr_info]) w1" "good s" "getTRModuleInfo (platform_at E h') s = (Inr i, s')"
  show "regular (\<lambda>_. running good (h @ [Req_tr_info]))
      (case i of Some i \<Rightarrow> printTrModuleData i (print (''TR module reading OK'' @ endl) w1)
       | None \<Rightarrow> (Inr (), print (''TR module reading failed'' @ endl) w1))"
  proof (cases i)
    case (Some j)
    with command_channel.identification_values(2) [OF channel a(2)] a(3) have "module_info_ok j" by blast
    with a(1) Some print_module_regular show ?thesis by simp
  qed (use a(1) in simp)
qed simp

lemma ReadTrIdf_run:
  assumes "2 \<le> length argv"
  shows "exits_after [Req_test, Req_usb_info, Req_tr_info] (ReadTrIdf_main E argv)"
proof -
  let ?R = "\<lambda>n w. testImp w = None \<and> n \<in> {0, 1, 2} \<and>
      (n = 0 \<longrightarrow> requests w = [Req_test, Req_usb_info, Req_tr_info])"
  have "regular ?R (unless_returned (connect E (argv ! 1) (''Connection test OK'' @ endl)
      (''Connection test FAILED'' @ endl) start_world) (\<lambda>w.
    andThen (read_device_info E w) (\<lambda>_ w. andThen (read_module_info E w) (\<lambda>_. finish E))))"
  proof (rule ends_in_unless_returned [OF connect_regular [OF start_world_fields]])
    fix w
    assume "case None of None \<Rightarrow> running good [Req_test] w | Some n \<Rightarrow> n \<in> {1, 2} \<and> testImp w = None"
    then have w: "running good [Req_test] w" by simp
    show "regular ?R (andThen (read_device_info E w) (\<lambda>_ w. andThen (read_module_info E w) (\<lambda>_. finish E)))"
    proof (rule ends_in_andThen [OF read_device_info_regular [OF w]])
      fix x :: unit and w1
      assume w1: "running good ([Req_test] @ [Req_usb_info]) w1"
      show "regular ?R (andThen (read_module_info E w1) (\<lambda>_. finish E))"
        by (rule ends_in_andThen [OF read_module_info_regular [OF w1]])
          (auto simp: running_def)
    qed
  qed auto
  with assms show ?thesis by (simp add: exits_after_def ReadTrIdf_main_def)
qed

end

end
