(* ===== verification/Client_Environments.thy ===== *)
theory Client_Environments
  imports Pgm_Programs Read_Programs Linux_Client Windows_Client
begin

text \<open>
  What a program that uses the library runs in, on both platforms, made of the models of the
  platforms' code: construction is \<open>openPort\<close> and \<open>init\<close> with the new reading thread, a call is
  one on the platform with its script of system calls, between calls the reading thread goes on,
  and deletion is the destructor. Both satisfy the contract \<open>program_environment\<close>.
\<close>

section \<open>The constructor\<close>

text \<open>
  What is in the memory before construction: an event, a parser, the flag, the scalar fields of
  the last response, and the words that the parser's constructor reads behind an array (theory
  \<open>Parser_Tables\<close>). These words do no harm when none of them is the state 97; if one is, the
  parser's tables are wrong.
\<close>

type_synonym 'e memory = "'e \<times> parser \<times> bool \<times> ParseResult \<times> stack_words"

fun harmless :: "'e memory \<Rightarrow> bool" where
  "harmless (e, p, b, r, behind) \<longleftrightarrow> 97 \<notin> set (words_behind behind)"

lemma wrong_tables:
  assumes "97 \<in> set (words_behind behind)"
  shows "\<not> parser_ok (new_CDCMessageParserPrivate behind)"
proof
  assume "parser_ok (new_CDCMessageParserPrivate behind)"
  then obtain c where "97 \<notin> set (words_behind c)"
    "initStatesInfoMap behind Map.empty = initStatesInfoMap c Map.empty"
    by (auto simp: parser_ok_def new_CDCMessageParserPrivate_def)
  moreover from this(1) have "initStatesInfoMap c Map.empty 97 = Some \<lparr>info_msgType = MSG_DOWNLOAD_DATA, multiType = False\<rparr>"
    by (intro final_info_built) (simp_all add: final_types_def)
  moreover have "initStatesInfoMap behind Map.empty 97 = Some \<lparr>info_msgType = MSG_UPLOAD_DOWNLOAD, multiType = False\<rparr>"
    using assms by (cases behind) (auto simp: initStatesInfoMap_def insertStatesInfo_apply insertMultiTypeStatesInfo_apply)
  ultimately show False by simp
qed

text \<open>The memory in which programs are run: one that does no harm.\<close>

fun calm :: "'e memory \<Rightarrow> 'e memory" where
  "calm (e, p, b, r, behind) =
     (e, p, b, r, if 97 \<in> set (words_behind behind) then (0, 0, 0) else behind)"

lemma harmless_calm: "harmless (calm m)"
  by (cases m) simp

lemma create_events_thrown:
  assumes "\<And>n e. create n = Inl e \<Longrightarrow> is_thrown CDCImplException e"
    and "create_events create s = (Inl e, s')"
  shows "is_thrown CDCImplException e"
  using assms by (auto simp: create_events_def Let_def split: sum.splits)

lemma create_events_created:
  assumes "create_events create s = (Inr (), s')"
  obtains a b c d where "create 0 = Inr a" and "create 1 = Inr b" and "create 2 = Inr c"
    and "create 3 = Inr d"
    and "s' = s\<lparr>newMsgEvent := a, readEndEvent := b, readStartEvent := c, readEndResponse := d\<rparr>"
proof -
  from assms obtain a where a: "create 0 = Inr a"
    by (cases "create 0") (auto simp: create_events_def)
  from assms a obtain b where b: "create 1 = Inr b"
    by (cases "create 1") (auto simp: create_events_def Let_def)
  from assms a b obtain c where c: "create 2 = Inr c"
    by (cases "create 2") (auto simp: create_events_def Let_def)
  from assms a b c obtain d where "create 3 = Inr d"
    by (cases "create 3") (auto simp: create_events_def Let_def)
  with assms a b c that show thesis by (simp add: create_events_def Let_def)
qed

text \<open>A failed construction closes nothing: the port that has been opened stays open.\<close>

lemma create_events_port: "create_events create s = (r, s') \<Longrightarrow> portHandle s' = portHandle s"
  by (auto simp: create_events_def Let_def split: sum.splits)

lemma failed_construction_leaks:
  assumes "prepare (Inr h) create reset_ev behind s = (Inl e, s')"
  shows "portHandle s' = Open h"
proof -
  let ?s = "s\<lparr>m_transmitBuffer := replicate 1024 None, m_transmitBufferLen := 1024, portHandle := Open h\<rparr>"
  obtain q t where q: "create_events create ?s = (q, t)" by (cases "create_events create ?s")
  then have "portHandle t = Open h" using create_events_port by fastforce
  with q assms show ?thesis
    by (cases q) (auto simp: prepare_def Let_def initLastResponse_def initMessageHeaders_def split: sum.splits)
qed

lemma prepare_cases:
  fixes s :: "'a handle impl"
  assumes create: "\<And>n e. create n = Inl e \<Longrightarrow> is_thrown CDCImplException e"
    and created: "\<And>n ev. create n = Inr ev \<Longrightarrow> is_open ev"
    and opened: "\<And>e. opened = Inl e \<Longrightarrow> is_thrown CDCImplException e"
    and reset: "\<And>e. is_open e \<Longrightarrow> \<exists>e'. reset_ev e = Inr e' \<and> is_open e'"
    and s: "messageHeaders s = Map.empty" and b: "97 \<notin> set (words_behind b)"
    and run: "prepare opened create reset_ev b s = (r, s')"
  shows "case r of Inl e \<Rightarrow> is_thrown CDCImplException e
    | Inr _ \<Rightarrow> good_object s' \<and> is_open (readStartEvent s')"
proof (cases opened)
  case (Inl e)
  with run opened show ?thesis by (auto simp: prepare_def Let_def)
next
  case h: (Inr h)
  define s0 where "s0 = s\<lparr>m_transmitBuffer := replicate 1024 None, m_transmitBufferLen := 1024,
    portHandle := Open h\<rparr>"
  obtain q s1 where q: "create_events create s0 = (q, s1)" by (cases "create_events create s0")
  define s2 where "s2 = (initLastResponse (initMessageHeaders s1))
    \<lparr>receptionStopped := False, msgParser := new_CDCMessageParserPrivate b\<rparr>"
  have eq: "prepare opened create reset_ev b s =
      (case q of Inl e \<Rightarrow> (Inl e, s1) | Inr _ \<Rightarrow>
      (case reset_ev (readStartEvent s2) of Inl e \<Rightarrow> (Inl e, s2)
        | Inr ev \<Rightarrow> (Inr (), s2\<lparr>readStartEvent := ev\<rparr>)))"
    unfolding prepare_def Let_def s0_def [symmetric] s2_def h
    by (cases q) (simp_all add: q s0_def [symmetric])
  show ?thesis
  proof (cases q)
    case (Inl e)
    then have "is_thrown CDCImplException e"
      using create_events_thrown [of create s0 e s1] create q by blast
    with Inl run show ?thesis unfolding eq by auto
  next
    case (Inr u)
    then have o: "q = Inr ()" by simp
    obtain x y z v where ev: "create 0 = Inr x" "create 1 = Inr y" "create 2 = Inr z"
      and s1: "s1 = s0\<lparr>newMsgEvent := x, readEndEvent := y, readStartEvent := z, readEndResponse := v\<rparr>"
      by (rule create_events_created [OF q [unfolded o]])
    note s1 = ev [THEN created] s1
    have "readStartEvent s2 = z"
      by (simp add: s2_def initLastResponse_def initMessageHeaders_def s1(4))
    with reset [of "readStartEvent s2"] s1(3) obtain ev where
      ev: "reset_ev (readStartEvent s2) = Inr ev" "is_open ev" by auto
    have hd: "headers_ok (initMessageHeaders s1)"
      by (rule headers_ok_init) (simp add: s1(4) s0_def s)
    have buf: "m_transmitBuffer s1 = replicate 1024 None" "m_transmitBufferLen s1 = 1024"
      "newMsgEvent s1 = x" "readEndEvent s1 = y"
      by (simp_all add: s1(4) s0_def)
    have "good_object (s2\<lparr>readStartEvent := ev\<rparr>)"
      using hd s1(1,2) buf new_parser_ok [OF b]
      by (simp add: good_object_def s2_def headers_ok_def initLastResponse_def transmit_ok_def
          last_shown_def response_ok_def initMessageHeaders_def)
    then show ?thesis using run o ev unfolding eq by auto
  qed
qed

lemma new_object_cases:
  fixes s :: "'a handle impl"
  assumes prepared: "case prepare opened create reset_ev b s of
      (Inl e, t) \<Rightarrow> is_thrown CDCImplException e
    | (Inr _, t) \<Rightarrow> good_object t \<and> is_open (readStartEvent t)"
    and reader: "\<And>s. good_object s \<Longrightarrow> is_open (readStartEvent s) \<Longrightarrow> good_object (reader_of P s)"
    and run: "new_CDCImplPrivate P opened create reset_ev b s = (r, s')"
  shows "case r of Inl e \<Rightarrow> is_thrown CDCImplException e \<or> e = NotReturned | Inr _ \<Rightarrow> good_object s'"
proof -
  obtain q t where q: "prepare opened create reset_ev b s = (q, t)"
    by (cases "prepare opened create reset_ev b s")
  show ?thesis
  proof (cases q)
    case (Inl e)
    with q run prepared show ?thesis by (auto simp: new_CDCImplPrivate_def init_def)
  next
    case (Inr u)
    with q prepared reader [of t] have g: "good_object (reader_of P t)" by simp
    moreover have "good_object (t\<lparr>readStartEvent := x\<rparr>)" if "good_object t" for t :: "'a handle impl" and x
      using that by (simp add: good_object_def headers_ok_def transmit_ok_def last_shown_def)
    ultimately show ?thesis
      using q Inr run
      by (auto simp: new_CDCImplPrivate_def init_def start_reader_def Let_def split: sum.splits)
  qed
qed

section \<open>Linux\<close>

text \<open>
  The results of all system calls: opening the port, creating the events, the first rounds of
  the reading thread; then for each request by its history the rounds of sending, the bytes
  that the reading thread holds and its rounds, and the same for the time before the request.
  \<open>lin_memory\<close> is what is in the memory before construction; programs are run in memory that does
  no harm (\<open>calm\<close>).
\<close>

record linux_calls =
  lin_open :: open_calls
  lin_eventfd :: "nat \<Rightarrow> int"
  lin_errno :: nat
  lin_memory :: "linux_event memory"
  lin_first :: "read_round list"
  lin_request :: "request list \<Rightarrow> write_round list \<times> ustring \<times> read_round list"
  lin_idle :: "request list \<Rightarrow> ustring \<times> read_round list"
  lin_last :: "int option \<times> ustring \<times> read_round list"

definition started_Lin :: "read_round list \<Rightarrow> linux_event platform" where
  "started_Lin rounds =
     \<lparr>send_of = sendCommand_Lin 0 [],
      wait_of = wait_Lin,
      reader_of = (\<lambda>s. snd (readMsgThread_Lin (if feasible [] rounds then rounds else []) s)),
      woken_of = (\<lambda>s. s),
      checked_of = (\<lambda>s. s)\<rparr>"

definition constructed_Lin :: "linux_calls \<Rightarrow> string \<Rightarrow> (thrown + unit) \<times> linux_event impl" where
  "constructed_Lin L portName =
     (let (e, p, b, r, behind) = lin_memory L in
      new_CDCImplPrivate (started_Lin (lin_first L)) (bindE (openPort_Lin (lin_open L)) (\<lambda>(h, t). Inr h))
        (\<lambda>n. createMyEvent_Lin (lin_eventfd L n) (lin_errno L)) resetMyEvent_Lin behind
        (blank_object portName e p b r))"

definition linux_environment :: "linux_calls \<Rightarrow> linux_event environment" where
  "linux_environment L =
     \<lparr>construct = (\<lambda>portName. case constructed_Lin (L\<lparr>lin_memory := calm (lin_memory L)\<rparr>) portName of
        (Inl e, s) \<Rightarrow> Inl e | (Inr _, s) \<Rightarrow> Inr s),
      platform_at = (\<lambda>h. let (script, buf, rounds) = lin_request L h in
        linux_platform (open_result (lin_open L)) script buf rounds),
      between = (\<lambda>h. let (buf, rounds) = lin_idle L h in
        reader_of (linux_platform (open_result (lin_open L)) [] buf rounds)),
      destructor = (\<lambda>s. let (returned, buf, rounds) = lin_last L in
        fst (destroy (joined_Lin returned buf rounds) setMyEvent_Lin destroyMyEvent_Lin closePort_Lin s))\<rparr>"

lemma openPort_Lin_thrown: "openPort_Lin c = Inl e \<Longrightarrow> is_thrown CDCImplException e"
  by (auto simp: openPort_Lin_def Let_def split: if_splits)

lemma started_Lin_good:
  assumes "good_object s" and "is_open (readStartEvent s)"
  shows "good_object (reader_of (started_Lin rounds) s)"
proof -
  define rs where "rs = (if feasible [] rounds then rounds else [])"
  have rs: "bytes_arriving [] rs < 2 ^ 62" by (simp add: rs_def feasible_def bytes_arriving_def)
  from assms(2) obtain n where n: "readStartEvent s = Open n" by (elim is_openE)
  have "good_object (s\<lparr>readStartEvent := Open (n + 1)\<rparr>)"
    using assms(1) by (simp add: good_object_def headers_ok_def transmit_ok_def last_shown_def)
  moreover obtain st s' where run: "reader_loop rs [] (s\<lparr>readStartEvent := Open (n + 1)\<rparr>) = (st, s')"
    by (cases "reader_loop rs [] (s\<lparr>readStartEvent := Open (n + 1)\<rparr>)")
  ultimately have "good_object s'" using reader_loop_good [OF _ rs] by blast
  with n run show ?thesis by (simp add: started_Lin_def readMsgThread_Lin_def rs_def [symmetric])
qed

lemma constructed_Lin_cases:
  assumes "constructed_Lin L portName = (r, s)" and "harmless (lin_memory L)"
  shows "case r of Inl e \<Rightarrow> is_thrown CDCImplException e \<or> e = NotReturned | Inr _ \<Rightarrow> good_object s"
proof -
  obtain e p b q behind where m: "lin_memory L = (e, p, b, q, behind)" by (cases "lin_memory L") auto
  with assms(2) have b: "97 \<notin> set (words_behind behind)" by simp
  let ?create = "\<lambda>n. createMyEvent_Lin (lin_eventfd L n) (lin_errno L)"
    and ?opened = "bindE (openPort_Lin (lin_open L)) (\<lambda>(h, t). Inr h)"
  obtain x t where p: "prepare ?opened ?create resetMyEvent_Lin behind
      (blank_object portName e p b q) = (x, t)" by fastforce
  have "case x of Inl e \<Rightarrow> is_thrown CDCImplException e
      | Inr _ \<Rightarrow> good_object t \<and> is_open (readStartEvent t)"
    by (rule prepare_cases [OF _ _ _ _ _ b p])
      (auto simp: createMyEvent_Lin_def resetMyEvent_Lin_def blank_object_def bindE_def
        dest: openPort_Lin_thrown split: if_splits sum.splits)
  with p assms(1) show ?thesis
    by (intro new_object_cases [where P = "started_Lin (lin_first L)" and opened = ?opened and create = ?create
          and reset_ev = resetMyEvent_Lin and b = behind and s = "blank_object portName e p b q"])
      (auto simp: constructed_Lin_def m started_Lin_good)
qed

interpretation lin_env: program_environment
  "linux_environment L" "good_object :: linux_event impl \<Rightarrow> bool"
proof (rule program_environment.intro)
  fix h
  show "command_channel (platform_at (linux_environment L) h) good_object"
    using lin.command_channel_axioms by (simp add: linux_environment_def split: prod.split)
next
  fix s h
  assume "good_object (s :: linux_event impl)"
  then show "good_object (between (linux_environment L) h s)"
    using lin.reader_law by (simp add: linux_environment_def split: prod.split)
next
  fix p
  let ?L = "L\<lparr>lin_memory := calm (lin_memory L)\<rparr>"
  obtain r s where "constructed_Lin ?L p = (r, s)" by (cases "constructed_Lin ?L p")
  moreover have "harmless (lin_memory ?L)" by (simp add: harmless_calm)
  ultimately have "case r of Inl e \<Rightarrow> is_thrown CDCImplException e \<or> e = NotReturned | Inr _ \<Rightarrow> good_object s"
    by (rule constructed_Lin_cases)
  with \<open>constructed_Lin ?L p = (r, s)\<close> show
    "case construct (linux_environment L) p of Inl e \<Rightarrow> e = NotReturned \<or> (\<exists>x. e = Thrown x) | Inr s \<Rightarrow> good_object s"
    by (cases r) (auto simp: linux_environment_def elim: is_thrown.elims)
next
  fix s
  assume "good_object (s :: linux_event impl)"
  then show "destructor (linux_environment L) s = Inr () \<or> destructor (linux_environment L) s = Inl NotReturned"
    by (cases "lin_last L") (simp add: linux_environment_def destroy_outcomes)
next
  fix s l
  assume "good_object (s :: linux_event impl)"
  then show "good_object (registerAsyncMsgListener l s)" by (rule good_object_listener(1))
qed

section \<open>Windows\<close>

record windows_calls =
  win_opened :: win_open
  win_created :: "nat \<Rightarrow> bool"
  win_errno :: nat
  win_memory :: "windows_event memory"
  win_started :: win_start
  win_first :: "(comm_round \<times> read_attempt list) list"
  win_request :: "request list \<Rightarrow> win_send \<times> win_reader \<times> (comm_round \<times> read_attempt list) list"
  win_idle :: "request list \<Rightarrow> win_send \<times> win_reader \<times> (comm_round \<times> read_attempt list) list"
  win_last :: "int option \<times> win_reader \<times> (comm_round \<times> read_attempt list) list"

definition started_Win ::
  "win_start \<Rightarrow> (comm_round \<times> read_attempt list) list \<Rightarrow> windows_event platform" where
  "started_Win w script =
     \<lparr>send_of = (\<lambda>c s. (Inl NotReturned, s)),
      wait_of = wait_Win,
      reader_of = (\<lambda>s. snd (readMsgThread_Win w (if attempts script < 2 ^ 62 then script else []) s)),
      woken_of = (\<lambda>s. s),
      checked_of = (\<lambda>s. s)\<rparr>"

definition constructed_Win :: "windows_calls \<Rightarrow> string \<Rightarrow> (thrown + unit) \<times> windows_event impl" where
  "constructed_Win W portName =
     (let (e, p, b, r, behind) = win_memory W in
      new_CDCImplPrivate (started_Win (win_started W) (win_first W))
        (bindE (openPort_Win (win_opened W) portName) (\<lambda>p. Inr (int (opened_handle p))))
        (\<lambda>n. createMyEvent_Win (win_created W n) (win_errno W)) resetMyEvent_Win behind
        (blank_object portName e p b r))"

definition windows_environment :: "windows_calls \<Rightarrow> windows_event environment" where
  "windows_environment W =
     \<lparr>construct = (\<lambda>portName. case constructed_Win (W\<lparr>win_memory := calm (win_memory W)\<rparr>) portName of
        (Inl e, s) \<Rightarrow> Inl e | (Inr _, s) \<Rightarrow> Inr s),
      platform_at = (\<lambda>h. let (w, r, script) = win_request W h in windows_platform w r script),
      between = (\<lambda>h. let (w, r, script) = win_idle W h in reader_of (windows_platform w r script)),
      destructor = (\<lambda>s. let (returned, r, script) = win_last W in
        fst (destroy (joined_Win returned r script) setMyEvent_Win destroyMyEvent_Win closePort_Win s))\<rparr>"

lemma openPort_Win_thrown: "openPort_Win c p = Inl e \<Longrightarrow> is_thrown CDCImplException e"
  by (auto simp: openPort_Win_def Let_def split: if_splits option.splits)

lemma started_Win_good:
  assumes "good_object s"
  shows "good_object (reader_of (started_Win w script) s)"
proof -
  define sc where "sc = (if attempts script < 2 ^ 62 then script else [])"
  have sc: "attempts sc < 2 ^ 62" by (simp add: sc_def attempts_def)
  obtain st s' where run: "readMsgThread_Win w sc s = (st, s')" by (cases "readMsgThread_Win w sc s")
  let ?t = "s\<lparr>readStartEvent := readStartEvent s'\<rparr>"
  have "keeps (attempts sc) ?t s'"
    using readMsgThread_Win_keeps [OF _ _ run] assms by (simp add: good_object_def)
  moreover have "good_object ?t"
    using assms by (simp add: good_object_def headers_ok_def transmit_ok_def last_shown_def)
  ultimately have "good_object s'" using keeps_good sc by blast
  with run show ?thesis
    unfolding started_Win_def platform.select_convs sc_def [symmetric] by simp
qed

lemma constructed_Win_cases:
  assumes "constructed_Win W portName = (r, s)" and "harmless (win_memory W)"
  shows "case r of Inl e \<Rightarrow> is_thrown CDCImplException e \<or> e = NotReturned | Inr _ \<Rightarrow> good_object s"
proof -
  obtain e p b q behind where m: "win_memory W = (e, p, b, q, behind)" by (cases "win_memory W") auto
  with assms(2) have b: "97 \<notin> set (words_behind behind)" by simp
  let ?create = "\<lambda>n. createMyEvent_Win (win_created W n) (win_errno W)"
    and ?opened = "bindE (openPort_Win (win_opened W) portName) (\<lambda>p. Inr (int (opened_handle p)))"
  obtain x t where p: "prepare ?opened ?create resetMyEvent_Win behind
      (blank_object portName e p b q) = (x, t)" by fastforce
  have "case x of Inl e \<Rightarrow> is_thrown CDCImplException e
      | Inr _ \<Rightarrow> good_object t \<and> is_open (readStartEvent t)"
    by (rule prepare_cases [OF _ _ _ _ _ b p])
      (auto simp: createMyEvent_Win_def blank_object_def bindE_def elim!: is_openE
        dest: openPort_Win_thrown split: if_splits sum.splits)
  with p assms(1) show ?thesis
    by (intro new_object_cases [where P = "started_Win (win_started W) (win_first W)" and opened = ?opened
          and create = ?create and reset_ev = resetMyEvent_Win and b = behind and s = "blank_object portName e p b q"])
      (auto simp: constructed_Win_def m started_Win_good)
qed

interpretation win_env: program_environment
  "windows_environment W" "good_object :: windows_event impl \<Rightarrow> bool"
proof (rule program_environment.intro)
  fix h
  show "command_channel (platform_at (windows_environment W) h) good_object"
    using win.command_channel_axioms by (simp add: windows_environment_def split: prod.split)
next
  fix s h
  assume "good_object (s :: windows_event impl)"
  then show "good_object (between (windows_environment W) h s)"
    using win.reader_law by (simp add: windows_environment_def split: prod.split)
next
  fix p
  let ?W = "W\<lparr>win_memory := calm (win_memory W)\<rparr>"
  obtain r s where "constructed_Win ?W p = (r, s)" by (cases "constructed_Win ?W p")
  moreover have "harmless (win_memory ?W)" by (simp add: harmless_calm)
  ultimately have "case r of Inl e \<Rightarrow> is_thrown CDCImplException e \<or> e = NotReturned | Inr _ \<Rightarrow> good_object s"
    by (rule constructed_Win_cases)
  with \<open>constructed_Win ?W p = (r, s)\<close> show
    "case construct (windows_environment W) p of Inl e \<Rightarrow> e = NotReturned \<or> (\<exists>x. e = Thrown x) | Inr s \<Rightarrow> good_object s"
    by (cases r) (auto simp: windows_environment_def elim: is_thrown.elims)
next
  fix s
  assume "good_object (s :: windows_event impl)"
  then show "destructor (windows_environment W) s = Inr () \<or> destructor (windows_environment W) s = Inl NotReturned"
    by (cases "win_last W") (simp add: windows_environment_def destroy_outcomes)
next
  fix s l
  assume "good_object (s :: windows_event impl)"
  then show "good_object (registerAsyncMsgListener l s)" by (rule good_object_listener(1))
qed

section \<open>Property\<close>

text \<open>
  C32. A constructed object is well formed, on both platforms, whatever the system calls return
  and whatever its memory held before, provided that none of the three words behind one array of
  the parser's constructor is 97: when the constructor returns, the table of headers is
  complete, the transmit buffer has its size, \<open>newMsgEvent\<close> and \<open>readEndEvent\<close> are open, the
  parser's tables are intact and the last response is none or a message; otherwise it throws a
  \<open>CDCImplException\<close>, or the program ends, because the start of the thread is not signalled
  and the exception destroys the handle of the running thread. The condition is needed: the code
  reads these words, and with 97 among them the tables of the new parser are wrong.
\<close>

theorem constructed_objects_good:
  assumes "harmless (lin_memory L)" and "harmless (win_memory W)"
  shows "(case constructed_Lin L portName of
      (Inl e, s) \<Rightarrow> is_thrown CDCImplException e \<or> e = NotReturned
    | (Inr _, s) \<Rightarrow> good_object s) \<and>
   (case constructed_Win W portName of
      (Inl e, s) \<Rightarrow> is_thrown CDCImplException e \<or> e = NotReturned
    | (Inr _, s) \<Rightarrow> good_object s) \<and>
   (97 \<in> set (words_behind behind) \<longrightarrow> \<not> parser_ok (new_CDCMessageParserPrivate behind))"
  using constructed_Lin_cases [OF _ assms(1)] constructed_Win_cases [OF _ assms(2)]
    wrong_tables
  by (auto split: prod.splits sum.splits)

definition sample_memory :: "'a handle memory" where
  "sample_memory =
     (Closed, new_CDCMessageParserPrivate (97, 97, 97), True,
      \<lparr>msgType = MSG_SWITCH, resultType = PARSE_OK, lastPosition = 4711\<rparr>, (96, 98, 0))"

text \<open>Both platforms with the same left-overs in memory and any results of the system calls.\<close>

theorem constructed_objects_good_witness:
  "\<forall>(L :: linux_calls) (W :: windows_calls). (case constructed_Lin (L\<lparr>lin_memory := sample_memory\<rparr>) ''ttyACM0'' of
      (Inl e, s) \<Rightarrow> is_thrown CDCImplException e \<or> e = NotReturned | (Inr _, s) \<Rightarrow> good_object s) \<and>
    (case constructed_Win (W\<lparr>win_memory := sample_memory\<rparr>) ''COM5'' of
      (Inl e, s) \<Rightarrow> is_thrown CDCImplException e \<or> e = NotReturned | (Inr _, s) \<Rightarrow> good_object s)"
proof (intro allI conjI)
  fix L :: linux_calls and W :: windows_calls
  have h: "harmless (lin_memory (L\<lparr>lin_memory := sample_memory\<rparr>))"
    "harmless (win_memory (W\<lparr>win_memory := sample_memory\<rparr>))" by (simp_all add: sample_memory_def)
  from constructed_objects_good [OF h, of "''ttyACM0''" "(0, 0, 0)"] show
    "case constructed_Lin (L\<lparr>lin_memory := sample_memory\<rparr>) ''ttyACM0'' of
      (Inl e, s) \<Rightarrow> is_thrown CDCImplException e \<or> e = NotReturned | (Inr _, s) \<Rightarrow> good_object s" by (rule conjunct1)
  from constructed_objects_good [OF h, of "''COM5''" "(0, 0, 0)"] show
    "case constructed_Win (W\<lparr>win_memory := sample_memory\<rparr>) ''COM5'' of
      (Inl e, s) \<Rightarrow> is_thrown CDCImplException e \<or> e = NotReturned | (Inr _, s) \<Rightarrow> good_object s"
    by (rule conjunct1 [OF conjunct2])
qed

end
