(* ===== verification/Program_Runs.thy ===== *)
theory Program_Runs
  imports Client_Environments
begin

text \<open>
  The six programs on the two platforms: what a whole run does, for every behaviour of the
  device, of the reading thread and of the system calls. Every result rests on the
  interpretations \<open>lin_env\<close> and \<open>win_env\<close> of theory \<open>Client_Environments\<close>.
\<close>

unbundle bit_operations_syntax

section \<open>Headers of messages\<close>

lemma all_upto_4: "list_all P [0..<4] \<longleftrightarrow> P 0 \<and> P 1 \<and> P 2 \<and> P 3"
  by (simp add: numeral_eq_Suc)

lemma list_of_4:
  assumes "4 \<le> length d"
  obtains a b c e r where "d = a # b # c # e # r"
proof -
  from assms have "d = [d ! 0, d ! 1, d ! 2, d ! 3] @ drop 4 d"
    by (cases d; cases "tl d"; cases "tl (tl d)"; cases "tl (tl (tl d))")
      (auto simp: numeral_eq_Suc)
  with that show thesis by simp
qed

lemma header_comparisons:
  assumes "4 \<le> length d"
  shows "isConfirmation (take HEADER_LENGTH d) \<longleftrightarrow> take 4 d = CONFIRMATION_HEADER"
    and "isResponse (take HEADER_LENGTH d) \<longleftrightarrow> take 4 d = RESPONSE_HEADER"
  by (rule list_of_4 [OF assms], simp add: isConfirmation_def isResponse_def HEADER_LENGTH_def all_upto_4
      CONFIRMATION_HEADER_def RESPONSE_HEADER_def numeral_eq_Suc)+

section \<open>Properties\<close>

text \<open>
  C33. A hex file is programmed. For a file of flash records (theory \<open>Pgm_Hex_Correct\<close>) whose
  blocks contain a zero byte, a run of \<open>PgmHex\<close> on either platform ends with one of its exit
  codes 0, 1 and 2 and the object deleted, unless a call of the system never returns; no
  exception leaves \<open>main\<close>, whatever the device answers. When the code is 0, the requests made
  were exactly: the test, the programming mode, one upload for each half block of the reference
  in its order, and the normal mode.
\<close>

theorem hex_file_run:
  assumes "3 \<le> length argv" and "fopen (argv ! 2) = Some (flash_file rs)"
    and "\<forall>r \<in> set rs. flash_record_ok r" and "zero_inside (programmed None rs)"
  shows "completes (map packet_request (programmed None rs)) (PgmHex_main (linux_environment L) fopen argv) \<and>
    completes (map packet_request (programmed None rs)) (PgmHex_main (windows_environment W) fopen argv)"
proof -
  obtain s' where
    "program_loop log_packet (initial_pgm (flash_file rs)) [] = (Inr (IQRF_PGM_SUCCESS, s'), programmed None rs)"
    using program_loop_records [OF assms(3) initial_remaining, of "[]"] by auto
  from lin_env.PgmHex_run [where fopen = fopen, OF assms(1,2) this assms(4)] win_env.PgmHex_run [where fopen = fopen, OF assms(1,2) this assms(4)]
  show ?thesis by blast
qed

theorem hex_file_run_witness:
  "\<forall>L. completes (map packet_request (block_packets 464 (put 62 [0, 0] (put 0 [0, 0x34] blank_content))))
     (PgmHex_main (linux_environment L) (\<lambda>_. Some (flash_file [(0x3A00, [0, 0x34]), (0x3A1F, [0, 0])]))
       [''PgmHexExample'', ''/dev/ttyACM0'', ''test.hex''])"
proof -
  let ?rs = "[(0x3A00, [0, 0x34]), (0x3A1F, [0, 0])]"
  have rs: "\<forall>r \<in> set ?rs. flash_record_ok r"
    by (simp add: flash_record_ok_def IQRF_MAIN_MEM_MIN_ADR_def IQRF_MAIN_MEM_MAX_ADR_def)
  have p: "programmed None ?rs = block_packets 464 (put 62 [0, 0] (put 0 [0, 0x34] blank_content))"
    by simp
  have "zero_inside (programmed None ?rs)"
    unfolding p by (simp add: zero_inside_def block_packets_def put_def)
  from hex_file_run [THEN conjunct1, OF _ _ rs this, of "[''PgmHexExample'', ''/dev/ttyACM0'', ''test.hex'']"
      "\<lambda>_. Some (flash_file ?rs)"] show ?thesis
    unfolding p by simp
qed

text \<open>
  C34. A plugin file is uploaded. For a file of comments, empty lines and lines of 20 bytes, each
  ended by a carriage return and a line feed, a run of \<open>PgmIqrf\<close> on either platform ends with
  one of its exit codes and the object deleted, unless a call of the system never returns; when
  the code is 0, the requests made were the test, the programming mode, one upload for each data
  line in the order of the file with exactly its bytes, and the normal mode.
\<close>

theorem plugin_file_run:
  assumes "3 \<le> length argv" and "fopen (argv ! 2) = Some (plugin_file items)"
    and "\<forall>i \<in> set items. item_ok i"
  shows "completes (map (Req_upload TARGET_PLUGIN_W) (plugin_data items))
      (PgmIqrf_main (linux_environment L) fopen argv) \<and>
    completes (map (Req_upload TARGET_PLUGIN_W) (plugin_data items))
      (PgmIqrf_main (windows_environment W) fopen argv)"
  using lin_env.PgmIqrf_run [where fopen = fopen, OF assms] win_env.PgmIqrf_run [where fopen = fopen, OF assms] by blast

theorem plugin_file_run_witness:
  "\<forall>L. completes [Req_upload TARGET_PLUGIN_W (replicate 20 7), Req_upload TARGET_PLUGIN_W (replicate 20 9)]
     (PgmIqrf_main (linux_environment L)
       (\<lambda>_. Some (plugin_file [Comment [0x41, 0x42], Data (replicate 20 7), Blank, Data (replicate 20 9)]))
       [''PgmIqrfExample'', ''/dev/ttyACM0'', ''test.iqrf''])"
  using plugin_file_run [where fopen = "\<lambda>_. Some (plugin_file [Comment [0x41, 0x42], Data (replicate 20 7), Blank, Data (replicate 20 9)])"
      and argv = "[''PgmIqrfExample'', ''/dev/ttyACM0'', ''test.iqrf'']"
      and items = "[Comment [0x41, 0x42], Data (replicate 20 7), Blank, Data (replicate 20 9)]"]
  by (simp add: plugin_data_def)

text \<open>
  C35. The configuration program, with the two findings it leads to. A file of fewer than 33 bytes
  is announced as wrong, and then 32 zeros are written as the hardware profile and a zero as the
  configuration byte. Of the other files, one with a zero byte in its first 32 bytes and a zero
  as its 33rd byte is written as it is; for every other file no run returns 0: when it gets as
  far as the uploads, it reads memory behind one of its variables, because the pointer is taken
  for a text.
\<close>

theorem config_file_run:
  assumes "3 \<le> length argv" and "fopen (argv ! 2) = Some f"
  shows "config_outcome (read_config f) (PgmTrcnfg_main (linux_environment L) fopen argv) \<and>
    config_outcome (read_config f) (PgmTrcnfg_main (windows_environment W) fopen argv)"
  using lin_env.PgmTrcnfg_run [where fopen = fopen, OF assms] win_env.PgmTrcnfg_run [where fopen = fopen, OF assms] by blast

theorem config_file_run_witness:
  "(\<forall>L. completes [Req_upload 0x80 (replicate 32 0), Req_upload 0x81 [0]]
      (PgmTrcnfg_main (linux_environment L) (\<lambda>_. Some [1, 2, 3]) [''PgmTrcnfgExample'', ''COM5'', ''a.trcnfg''])) \<and>
   (\<forall>L. ends_in {NotReturned, UndefinedBehaviour} (\<lambda>n w. n \<in> {1, 2})
      (PgmTrcnfg_main (linux_environment L) (\<lambda>_. Some (replicate 33 1)) [''PgmTrcnfgExample'', ''COM5'', ''a.trcnfg'']))"
proof -
  have short: "config_outcome (read_config [1, 2, 3]) (PgmTrcnfg_main (linux_environment L) (\<lambda>_. Some [1, 2, 3])
      [''PgmTrcnfgExample'', ''COM5'', ''a.trcnfg''])" for L
    using config_file_run [of "[''PgmTrcnfgExample'', ''COM5'', ''a.trcnfg'']" "\<lambda>_. Some [1, 2, 3]" "[1, 2, 3]"]
    by simp
  have ones: "config_outcome (read_config (replicate 33 1)) (PgmTrcnfg_main (linux_environment L)
      (\<lambda>_. Some (replicate 33 1)) [''PgmTrcnfgExample'', ''COM5'', ''a.trcnfg''])" for L
    using config_file_run [of "[''PgmTrcnfgExample'', ''COM5'', ''a.trcnfg'']" "\<lambda>_. Some (replicate 33 1)" "replicate 33 1"]
    by simp
  show ?thesis
    using short ones
    by (simp add: config_outcome_def read_config_def TARGET_CFG_HWP_W_def TARGET_CFG_RFPGM_W_def)
qed

text \<open>
  C36. Memory is read block by block. For each of its three parameters a run of \<open>ReadMemory\<close> on
  either platform ends with an exit code and the object deleted, unless a call of the system
  never returns; whatever the answers are (other blocks, errors, data up to the size of the
  buffer), no array is overrun. When the code is 0, the requests between the programming mode and
  the normal mode were one download for each of the 6 or 8 blocks of 32 bytes (words of flash),
  with the low and the high byte of its address.
\<close>

theorem memory_run:
  assumes "3 \<le> length argv" and "memory_target (argv ! 2) = Some Target" and "length RqBuffer = 32"
  shows "completes (block_requests Target (start_address Target) (block_count Target))
      (ReadMemory_main (linux_environment L) (RqBuffer, RsBuffer) argv) \<and>
    completes (block_requests Target (start_address Target) (block_count Target))
      (ReadMemory_main (windows_environment W) (RqBuffer, RsBuffer) argv)"
proof -
  have "2 \<le> length (fst (RqBuffer, RsBuffer))" using assms(3) by simp
  from lin_env.ReadMemory_run [OF assms(1,2) this] win_env.ReadMemory_run [OF assms(1,2) this]
  show ?thesis by blast
qed

theorem memory_run_witness:
  "\<forall>L. completes [Req_download 6 [0, 0], Req_download 6 [32, 0], Req_download 6 [64, 0],
      Req_download 6 [96, 0], Req_download 6 [128, 0], Req_download 6 [160, 0]]
    (ReadMemory_main (linux_environment L) (replicate 32 0xAA, replicate 256 0xBB)
      [''ReadMemoryExample'', ''COM5'', ''-eeprom''])"
proof -
  have "memory_target ([''ReadMemoryExample'', ''COM5'', ''-eeprom''] ! 2) = Some TARGET_EEPROM_R"
    by (simp add: memory_target_def)
  moreover have "block_requests TARGET_EEPROM_R (start_address TARGET_EEPROM_R) (block_count TARGET_EEPROM_R) =
      [Req_download 6 [0, 0], Req_download 6 [32, 0], Req_download 6 [64, 0],
       Req_download 6 [96, 0], Req_download 6 [128, 0], Req_download 6 [160, 0]]"
    by code_simp
  ultimately show ?thesis
    using memory_run [where argv = "[''ReadMemoryExample'', ''COM5'', ''-eeprom'']" and
      Target = TARGET_EEPROM_R and RqBuffer = "replicate 32 0xAA" and RsBuffer = "replicate 256 0xBB"]
    by simp
qed

text \<open>
  C37. The programs that ask for information. The temperature program sends its request ten times
  and asks after each whether reception has stopped; it returns 0 only after all ten. The
  identification program prints what the gateway and the module answer: for every answer that the
  library decodes, of any length and with any bytes, all texts fit into the array of 64 characters
  and nothing is read beyond the decoded data. On both platforms a run of either, whatever the
  answers are and whenever reception stops, ends with an exit code and the object deleted, unless a
  call of the system never returns. What the listener does with its messages is stated below.
\<close>

theorem information_runs:
  assumes "2 \<le> length argv"
  shows "(let requests = [Req_test, Req_listener] @ concat (replicate 10 [Req_send temperatureRequest, Req_stopped])
      in exits_after requests (ReadTemperature_main (linux_environment L) argv) \<and>
         exits_after requests (ReadTemperature_main (windows_environment W) argv)) \<and>
    exits_after [Req_test, Req_usb_info, Req_tr_info] (ReadTrIdf_main (linux_environment L) argv) \<and>
    exits_after [Req_test, Req_usb_info, Req_tr_info] (ReadTrIdf_main (windows_environment W) argv)"
  using lin_env.ReadTemperature_run [OF assms] win_env.ReadTemperature_run [OF assms]
    lin_env.ReadTrIdf_run [OF assms] win_env.ReadTrIdf_run [OF assms]
  unfolding Let_def by blast

theorem information_runs_witness:
  "\<forall>L. exits_after ([Req_test, Req_listener] @ concat (replicate 10 [Req_send temperatureRequest, Req_stopped]))
     (ReadTemperature_main (linux_environment L) [''ReadTemperatureExample'', ''/dev/ttyACM0'']) \<and>
   exits_after [Req_test, Req_usb_info, Req_tr_info]
     (ReadTrIdf_main (linux_environment L) [''ReadTrIdfExample'', ''/dev/ttyACM0''])"
  using information_runs [of "[''ReadTemperatureExample'', ''/dev/ttyACM0'']"]
    information_runs [of "[''ReadTrIdfExample'', ''/dev/ttyACM0'']"] by (simp add: Let_def)

text \<open>
  C38. The listener of the temperature program trusts the length of what it takes for a response:
  for a message of the given length it reads behind the message exactly when the message starts
  with the header of a response and has fewer than 7 bytes, or fewer than 11 and no error code.
\<close>

theorem listener_bounds:
  "fst (receiveData (Some data) (length data) w) = Inl UndefinedBehaviour \<longleftrightarrow>
     take 4 data = RESPONSE_HEADER \<and>
     (length data < 7 \<or> data ! 6 = 0 \<and> length data < 11)"
proof (cases "4 \<le> length data")
  case False
  then have "take 4 data \<noteq> RESPONSE_HEADER" by (auto simp: RESPONSE_HEADER_def)
  moreover obtain w' where "printDataInHex data (length data) (print ''Unknown data: '' w) = (Inr (), w')"
    by (rule printDataInHex_fields [OF order_refl])
  ultimately show ?thesis using False by (simp add: receiveData_def HEADER_LENGTH_def)
next
  case True
  have shown: "\<exists>w'. printDataInHex data (length data) v = (Inr (), w')" for v :: "'a world"
    by (rule printDataInHex_fields [OF order_refl]) blast
  have e: "CONFIRMATION_HEADER \<noteq> RESPONSE_HEADER" by (simp add: CONFIRMATION_HEADER_def RESPONSE_HEADER_def)
  have "data \<noteq> []" "\<not> length data < HEADER_LENGTH" using True by (auto simp: HEADER_LENGTH_def)
  then have r: "receiveData (Some data) (length data) w =
      (if take 4 data = CONFIRMATION_HEADER
       then printDataInHex data (length data) (print ''Confirmation received: '' w)
       else if take 4 data = RESPONSE_HEADER
       then printResponse data (print (''Response received: '' @ endl) w)
       else printDataInHex data (length data) (print ''Unknown type of message. Data: '' w))"
    by (simp add: receiveData_def header_comparisons [OF True])
  show ?thesis
  proof (cases "take 4 data = RESPONSE_HEADER")
    case True
    with e show ?thesis unfolding r by (auto simp: printResponse_def Let_def unat_eq_0)
  next
    case False
    with shown [of "print ''Confirmation received: '' w"]
      shown [of "print ''Unknown type of message. Data: '' w"] show ?thesis
      unfolding r by (auto split: if_splits)
  qed
qed

end
