(* ===== verification/Java_Stub.thy ===== *)
theory Java_Stub
  imports Api
begin

text \<open>
  The native methods of the Java class \<open>J_CDCImpl\<close> (\<open>src/cdc_javastub/CDCLib_JavaStub.cpp\<close>).
  The functions of the Java native interface are not part of the sources: what they return is
  a parameter (\<open>jni\<close>), by the place of the call in its method; a call that fails leaves a
  pending exception and returns the null pointer, as the interface documents. The memory that
  \<open>delete\<close> gives back is not modelled.
\<close>

unbundle bit_operations_syntax

section \<open>Java's side\<close>

type_synonym jshort = "16 word"
type_synonym jlong = nat
type_synonym jobject = nat

text \<open>
  Which calls of a method succeed, and the last byte, never written, of the n-th array of
  characters in a \<open>DeviceInfo\<close>.
\<close>

record jni =
  granted :: "nat \<Rightarrow> bool"
  unwritten :: "nat \<Rightarrow> byte"

text \<open>
  The objects of the library by address, the static variables \<open>jvm\<close>, \<open>jCDC\<close> and the cached
  classes and identifiers (by name), the field \<open>msgListener\<close> of the Java objects, the pending
  exception (its class and text), and, as a ghost, the calls of \<open>onGetMessage\<close>.
\<close>

record 'e java_world =
  cdcImps :: "jlong \<Rightarrow> 'e impl option"
  jvm :: bool
  jCDC :: "jobject option"
  cached :: "string \<Rightarrow> bool"
  msgListener :: "jobject \<Rightarrow> jobject option"
  pending :: "(string \<times> string) option"
  gotMessages :: "(jobject \<times> jshort list) list"

type_synonym ('e, 'a) native = "'e java_world \<Rightarrow> (thrown + 'a) \<times> 'e java_world"

definition jni_call :: "jni \<Rightarrow> nat \<Rightarrow> 'a \<Rightarrow> ('e, 'a option) native" where
  "jni_call J n x w =
     (if granted J n then (Inr (Some x), w)
      else (Inr None, w\<lparr>pending := Some (''java.lang.Error'', [])\<rparr>))"

text \<open>\<open>if (x == NULL) return NULL;\<close> and the rest of the method.\<close>

definition unless_null ::
  "(thrown + 'a option) \<times> 'e java_world \<Rightarrow> ('a \<Rightarrow> ('e, 'b option) native) \<Rightarrow>
     (thrown + 'b option) \<times> 'e java_world" where
  "unless_null r f = andThen r (\<lambda>x w. case x of None \<Rightarrow> (Inr None, w) | Some x \<Rightarrow> f x w)"

definition c_string :: "string \<Rightarrow> string" where
  "c_string = takeWhile (\<lambda>c. c \<noteq> CHR 0x00)"

definition ThrowNew :: "string \<Rightarrow> string \<Rightarrow> ('e, unit) native" where
  "ThrowNew cls text w =
     (if cached w cls then (Inr (), w\<lparr>pending := Some (cls, c_string text)\<rparr>)
      else (Inl UndefinedBehaviour, w))"

definition classJavaLangException :: string where
  "classJavaLangException = ''java.lang.Exception''"
definition classCDCImplException :: string where
  "classCDCImplException = ''com.microrisc.cdc.J_CDCImplException''"
definition classCDCSendException :: string where
  "classCDCSendException = ''com.microrisc.cdc.J_CDCSendException''"
definition classCDCReceiveException :: string where
  "classCDCReceiveException = ''com.microrisc.cdc.J_CDCReceiveException''"
definition classDeviceInfo :: string where "classDeviceInfo = ''com.microrisc.cdc.J_DeviceInfo''"
definition classModuleInfo :: string where "classModuleInfo = ''com.microrisc.cdc.J_ModuleInfo''"
definition classSPIStatus :: string where "classSPIStatus = ''com.microrisc.cdc.J_SPIStatus''"
definition classCDCImpl :: string where "classCDCImpl = ''com.microrisc.cdc.J_CDCImpl''"
definition classAsyncMsgListener :: string where
  "classAsyncMsgListener = ''com.microrisc.cdc.J_AsyncMsgListener''"
definition jListID :: string where "jListID = ''msgListener''"
definition getMsgID :: string where "getMsgID = ''onGetMessage''"
definition devConstructor :: string where "devConstructor = ''J_DeviceInfo.<init>''"
definition modConstructor :: string where "modConstructor = ''J_ModuleInfo.<init>''"
definition statConstructor :: string where "statConstructor = ''J_SPIStatus.<init>''"

lemmas java_names [cdc_defs] =
  classJavaLangException_def classCDCImplException_def classCDCSendException_def
  classCDCReceiveException_def classDeviceInfo_def classModuleInfo_def classSPIStatus_def
  classCDCImpl_def classAsyncMsgListener_def jListID_def getMsgID_def devConstructor_def
  modConstructor_def statConstructor_def

section \<open>Life of an object\<close>

text \<open>
  \<open>init\<close> of the class looks up the names in this order and stops at the first one that is not
  \<open>finds\<close>; its static variable is then the null pointer, the later ones keep their values.
\<close>

definition java_lookups :: "string list" where
  "java_lookups =
     [classJavaLangException, classCDCImplException, classCDCSendException,
      classCDCReceiveException, classDeviceInfo, classModuleInfo, classSPIStatus, classCDCImpl,
      classAsyncMsgListener, jListID, getMsgID, devConstructor, modConstructor, statConstructor]"

fun look_up :: "(string \<Rightarrow> bool) \<Rightarrow> string list \<Rightarrow> (string \<Rightarrow> bool) \<Rightarrow> string \<Rightarrow> bool" where
  "look_up finds [] c = c"
| "look_up finds (n # ns) c =
     (if finds n then look_up finds ns (c(n := True)) else c(n := False))"

definition java_init :: "(string \<Rightarrow> bool) \<Rightarrow> 'e java_world \<Rightarrow> 'e java_world" where
  "java_init finds w =
     (if finds ''loader class'' \<and> finds ''loadClass''
      then w\<lparr>cached := look_up finds java_lookups (cached w)\<rparr> else w)"

text \<open>
  \<open>createCDCImpl\<close>: \<open>create\<close> is the outcome of the constructor for a port name, \<open>address\<close> where a
  new object lies.
\<close>

definition createCDCImpl ::
  "(string \<Rightarrow> thrown + 'e impl) \<Rightarrow> jlong \<Rightarrow> jni \<Rightarrow> jobject \<Rightarrow> string \<Rightarrow> ('e, jlong) native" where
  "createCDCImpl create address J jObj portName w =
     andThen
       (let made = (\<lambda>name. case create name of
              Inl (Thrown e) \<Rightarrow>
                andThen (ThrowNew classCDCImplException (what e) w) (\<lambda>_ w. (Inr False, w))
            | Inl e \<Rightarrow> (Inl e, w)
            | Inr s \<Rightarrow> (Inr True, w\<lparr>cdcImps := (cdcImps w)(address := Some s)\<rparr>)) in
        if portName = [] then made []
        else if \<not> granted J 0
        then andThen (ThrowNew classJavaLangException ''Port Name conversion to UTF failed'' w)
               (\<lambda>_ w. (Inr False, w))
        else made portName)
       (\<lambda>created w.
          if \<not> created then (Inr 0, w)
          else if \<not> granted J 1 then (Inr 0, w)
          else if \<not> granted J 2 then (Inr 0, w\<lparr>jvm := True, jCDC := None\<rparr>)
          else (Inr address, w\<lparr>jvm := True, jCDC := Some jObj\<rparr>))"

definition destroyCDCImpl ::
  "('e impl \<Rightarrow> thrown + unit) \<Rightarrow> jlong \<Rightarrow> ('e, unit) native" where
  "destroyCDCImpl delete cdcRef w =
     (if cdcRef = 0 then (Inr (), w)
      else
        (case cdcImps w cdcRef of
           None \<Rightarrow> (Inl UndefinedBehaviour, w)
         | Some s \<Rightarrow>
             (case delete s of
                Inl e \<Rightarrow> (Inl NotReturned, w)
              | Inr _ \<Rightarrow> (Inr (), w\<lparr>cdcImps := (cdcImps w)(cdcRef := None)\<rparr>))))"

section \<open>The methods\<close>

text \<open>A call of a method of the object at an address.\<close>

definition on_object ::
  "jlong \<Rightarrow> ('e impl \<Rightarrow> (thrown + 'a) \<times> 'e impl) \<Rightarrow> ('e, 'a) native" where
  "on_object cdcRef f w =
     (case cdcImps w cdcRef of
        None \<Rightarrow> (Inl UndefinedBehaviour, w)
      | Some s \<Rightarrow>
          (let (r, s) = f s in (r, w\<lparr>cdcImps := (cdcImps w)(cdcRef := Some s)\<rparr>)))"

text \<open>The two handlers of every method; \<open>None\<close> when one has run.\<close>

definition to_java :: "(thrown + 'a) \<times> 'e java_world \<Rightarrow> (thrown + 'a option) \<times> 'e java_world" where
  "to_java r =
     (case r of
        (Inl (Thrown x), w) \<Rightarrow>
          if caught_by CDCSendException x
          then andThen (ThrowNew classCDCSendException (what x) w) (\<lambda>_ w. (Inr None, w))
          else if caught_by CDCReceiveException x
          then andThen (ThrowNew classCDCReceiveException (what x) w) (\<lambda>_ w. (Inr None, w))
          else (Inl (Thrown x), w)
      | (Inl e, w) \<Rightarrow> (Inl e, w)
      | (Inr x, w) \<Rightarrow> (Inr (Some x), w))"

definition stub_test :: "'e platform \<Rightarrow> jlong \<Rightarrow> ('e, bool) native" where
  "stub_test P cdcRef w =
     andThen (to_java (on_object cdcRef (test P) w)) (\<lambda>testResult w.
       (Inr (case testResult of None \<Rightarrow> False | Some b \<Rightarrow> b), w))"

definition stub_command ::
  "('e impl \<Rightarrow> (thrown + unit) \<times> 'e impl) \<Rightarrow> jlong \<Rightarrow> ('e, unit) native" where
  "stub_command f cdcRef w = andThen (to_java (on_object cdcRef f w)) (\<lambda>_ w. (Inr (), w))"

definition stub_resetUSBDevice :: "'e platform \<Rightarrow> jlong \<Rightarrow> ('e, unit) native" where
  "stub_resetUSBDevice P = stub_command (resetUSBDevice P)"

definition stub_resetTRModule :: "'e platform \<Rightarrow> jlong \<Rightarrow> ('e, unit) native" where
  "stub_resetTRModule P = stub_command (resetTRModule P)"

definition stub_indicateConnectivity :: "'e platform \<Rightarrow> jlong \<Rightarrow> ('e, unit) native" where
  "stub_indicateConnectivity P = stub_command (indicateConnectivity P)"

definition stub_switchToCustom :: "'e platform \<Rightarrow> jlong \<Rightarrow> ('e, unit) native" where
  "stub_switchToCustom P = stub_command (switchToCustom P)"

text \<open>\<open>NewStringUTF\<close> of an array of characters with one unwritten byte behind its text.\<close>

definition NewStringUTF :: "jni \<Rightarrow> nat \<Rightarrow> ustring \<Rightarrow> ('e, ustring option) native" where
  "NewStringUTF J n text w =
     (let mem = text @ [unwritten J n] in
      if 0 \<in> set mem then jni_call J n (takeWhile (\<lambda>b. b \<noteq> 0) mem) w
      else (Inl UndefinedBehaviour, w))"

record J_DeviceInfo =
  j_type :: ustring
  j_firmwareVersion :: ustring
  j_serialNumber :: ustring

definition stub_getUSBDeviceInfo ::
  "'e platform \<Rightarrow> jni \<Rightarrow> jlong \<Rightarrow> ('e, J_DeviceInfo option) native" where
  "stub_getUSBDeviceInfo P J cdcRef w =
     andThen (to_java (on_object cdcRef (getUSBDeviceInfo P) w)) (\<lambda>devInfo w.
       case devInfo of
         None \<Rightarrow> (Inl UndefinedBehaviour, w)
       | Some d \<Rightarrow>
           unless_null (NewStringUTF J 0 (devType d) w) (\<lambda>t w.
           unless_null (NewStringUTF J 1 (firmwareVersion d) w) (\<lambda>v w.
           unless_null (NewStringUTF J 2 (devSerialNumber d) w) (\<lambda>n w.
           jni_call J 3 \<lparr>j_type = t, j_firmwareVersion = v, j_serialNumber = n\<rparr> w))))"

record J_ModuleInfo =
  j_serial :: "jshort list"
  j_osVersion :: jshort
  j_trType :: jshort
  j_osBuild :: "jshort list"

text \<open>
  \<open>NewShortArray\<close>, the loop that fills the buffer with the first \<open>n\<close> bytes of an array, and
  \<open>SetShortArrayRegion\<close>.
\<close>

definition short_array :: "jni \<Rightarrow> nat \<Rightarrow> ustring \<Rightarrow> nat \<Rightarrow> ('e, jshort list option) native" where
  "short_array J k bytes n w =
     unless_null (jni_call J k () w) (\<lambda>_ w.
       if n \<le> length bytes then jni_call J (k + 1) (map ucast (take n bytes)) w
       else (Inl UndefinedBehaviour, w))"

text \<open>A module information is the null pointer after an exception, and when there is none.\<close>

definition stub_getTRModuleInfo ::
  "'e platform \<Rightarrow> jni \<Rightarrow> jlong \<Rightarrow> ('e, J_ModuleInfo option) native" where
  "stub_getTRModuleInfo P J cdcRef w =
     andThen (to_java (on_object cdcRef (getTRModuleInfo P) w)) (\<lambda>modInfo w.
       case modInfo of
         Some (Some i) \<Rightarrow>
           unless_null (short_array J 0 (serialNumber i) SN_SIZE w) (\<lambda>sn w.
           unless_null (short_array J 2 (osBuild i) BUILD_SIZE w) (\<lambda>build w.
           jni_call J 4 \<lparr>j_serial = sn, j_osVersion = ucast (osVersion i),
             j_trType = ucast (trType i), j_osBuild = build\<rparr> w))
       | _ \<Rightarrow> unless_null (jni_call J 0 () w) (\<lambda>_ w. (Inl UndefinedBehaviour, w)))"

text \<open>
  After an exception \<open>spiStatus\<close> is read without having been written. Both members of its
  union hold the same number.
\<close>

definition stub_getStatus ::
  "'e platform \<Rightarrow> jni \<Rightarrow> jlong \<Rightarrow> ('e, (bool \<times> int) option) native" where
  "stub_getStatus P J cdcRef w =
     andThen (to_java (on_object cdcRef (getStatus P) w)) (\<lambda>spiStatus w.
       case spiStatus of
         None \<Rightarrow> (Inl UndefinedBehaviour, w)
       | Some st \<Rightarrow> jni_call J 0 (isDataReady st, spi_union st) w)"

definition byte_of_short :: "jshort \<Rightarrow> byte" where "byte_of_short s = ucast (s AND 0xFF)"

definition stub_sendData :: "'e platform \<Rightarrow> jlong \<Rightarrow> jshort list \<Rightarrow> ('e, nat) native" where
  "stub_sendData P cdcRef jData w =
     (let cdcData = map byte_of_short jData in
      andThen (to_java (on_object cdcRef (sendData_ptr P cdcData (length jData)) w)) (\<lambda>dsResp w.
        (Inr (ds_value (case dsResp of None \<Rightarrow> DS_ERR | Some r \<Rightarrow> r)), w)))"

section \<open>Asynchronous messages\<close>

text \<open>
  \<open>stubListener\<close> runs in the reading thread; \<open>data\<close> is the readable memory from its pointer on.
  The name 0 stands for it in the objects of the library. An exception that is pending in this
  thread is dropped with it. What the Java method does is not modelled.
\<close>

definition stubListener :: "jni \<Rightarrow> ustring \<Rightarrow> nat \<Rightarrow> ('e, unit) native" where
  "stubListener J data dataLen w =
     (if \<not> jvm w then (Inl UndefinedBehaviour, w)
      else if \<not> granted J 0 then (Inr (), w)
      else
        (case jCDC w of
           None \<Rightarrow> (Inl UndefinedBehaviour, w)
         | Some jObj \<Rightarrow>
             (if \<not> cached w jListID then (Inl UndefinedBehaviour, w)
              else
                (case msgListener w jObj of
                   None \<Rightarrow> (Inr (), w)
                 | Some jListObj \<Rightarrow>
                     andThen (short_array J 1 data dataLen w) (\<lambda>jMsgDataArr w'.
                       case jMsgDataArr of
                         None \<Rightarrow> (Inr (), w)
                       | Some a \<Rightarrow>
                           (if \<not> cached w getMsgID then (Inl UndefinedBehaviour, w)
                            else (Inr (), w\<lparr>gotMessages := gotMessages w @ [(jListObj, a)]\<rparr>)))))))"

definition stub_registerAsyncListener :: "jlong \<Rightarrow> ('e, unit) native" where
  "stub_registerAsyncListener cdcRef = on_object cdcRef (\<lambda>s. (Inr (), registerAsyncMsgListener 0 s))"

definition stub_unregisterAsyncListener :: "jlong \<Rightarrow> ('e, unit) native" where
  "stub_unregisterAsyncListener cdcRef = on_object cdcRef (\<lambda>s. (Inr (), unregisterAsyncMsgListener s))"

definition stub_isReceptionStopped :: "jlong \<Rightarrow> ('e, bool) native" where
  "stub_isReceptionStopped cdcRef = on_object cdcRef (\<lambda>s. (Inr (isReceptionStopped s), s))"

definition stub_getLastReceptionError :: "jni \<Rightarrow> jlong \<Rightarrow> ('e, string option) native" where
  "stub_getLastReceptionError J cdcRef w =
     andThen (on_object cdcRef (\<lambda>s. (Inr (getLastReceptionError s), s)) w)
       (\<lambda>t. jni_call J 0 (c_string t))"

end
