(* ===== verification/Java_Methods.thy ===== *)
theory Java_Methods
  imports Java_Stub Linux_Client
begin

text \<open>
  What the native methods of theory \<open>Java_Stub\<close> do, against a reference: the outcome of the
  method of the library, converted, or the Java exception for the exception it threw.
\<close>

unbundle bit_operations_syntax

section \<open>The reference\<close>

definition java_class :: "cdc_exception \<Rightarrow> string option" where
  "java_class x =
     (if ex_class x = CDCSendException then Some classCDCSendException
      else if ex_class x = CDCReceiveException then Some classCDCReceiveException
      else None)"

text \<open>
  \<open>q\<close> is the outcome of the method, \<open>raised\<close> what the native method returns after an exception
  that it has passed on, \<open>conv\<close> what it makes of a value.
\<close>

definition mirrors ::
  "jlong \<Rightarrow> (thrown + 'a) \<times> 'e impl \<Rightarrow> thrown + 'b \<Rightarrow> ('a \<Rightarrow> thrown + 'b) \<Rightarrow> ('e, 'b) native" where
  "mirrors r q raised conv w =
     (let w = w\<lparr>cdcImps := (cdcImps w)(r := Some (snd q))\<rparr> in
      case fst q of
        Inr x \<Rightarrow> (conv x, w)
      | Inl (Thrown x) \<Rightarrow>
          (case java_class x of
             Some c \<Rightarrow> (raised, w\<lparr>pending := Some (c, c_string (what x))\<rparr>)
           | None \<Rightarrow> (Inl (Thrown x), w))
      | Inl e \<Rightarrow> (Inl e, w))"

text \<open>The classes are cached and the reference is that of an object.\<close>

definition java_ready :: "jlong \<Rightarrow> 'e impl \<Rightarrow> 'e java_world \<Rightarrow> bool" where
  "java_ready r s w \<longleftrightarrow> cdcImps w r = Some s \<and> list_all (cached w) java_lookups"

definition java_texts :: "DeviceInfo \<Rightarrow> J_DeviceInfo" where
  "java_texts d =
     (let text = takeWhile (\<lambda>b. b \<noteq> 0) in
      \<lparr>j_type = text (devType d), j_firmwareVersion = text (firmwareVersion d),
       j_serialNumber = text (devSerialNumber d)\<rparr>)"

definition java_module :: "ModuleInfo \<Rightarrow> J_ModuleInfo" where
  "java_module i =
     \<lparr>j_serial = map ucast (take 4 (serialNumber i)), j_osVersion = ucast (osVersion i),
      j_trType = ucast (trType i), j_osBuild = map ucast (take 2 (osBuild i))\<rparr>"

definition module_arrays :: "ModuleInfo \<Rightarrow> bool" where
  "module_arrays i \<longleftrightarrow> 4 \<le> length (serialNumber i) \<and> 2 \<le> length (osBuild i)"

section \<open>Lemmas\<close>

lemma java_ready_lookup: "java_ready r s w \<Longrightarrow> n \<in> set java_lookups \<Longrightarrow> cached w n"
  by (simp add: java_ready_def list_all_iff)

lemma exception_classes: "classCDCSendException \<in> set java_lookups" "classCDCReceiveException \<in> set java_lookups"
  by (simp_all add: java_lookups_def)

text \<open>A native method that goes on with the value, or the absence of one.\<close>

lemma native_mirrors:
  assumes "java_ready r s w"
    and "\<And>w. java_ready r (snd (f s)) w \<Longrightarrow> k None w = (raised, w)"
    and "\<And>x w. f s = (Inr x, snd (f s)) \<Longrightarrow> k (Some x) w = (conv x, w)"
  shows "andThen (to_java (on_object r f w)) k = mirrors r (f s) raised conv w"
proof -
  obtain q s' where q: "f s = (q, s')" by (cases "f s")
  define w' where "w' = w\<lparr>cdcImps := (cdcImps w)(r := Some s')\<rparr>"
  have o: "on_object r f w = (q, w')" using assms(1) q by (simp add: on_object_def java_ready_def w'_def)
  have c: "cached w' classCDCSendException" "cached w' classCDCReceiveException"
    using java_ready_lookup [OF assms(1)] exception_classes by (simp_all add: w'_def)
  have n: "k None (w'\<lparr>pending := p\<rparr>) = (raised, w'\<lparr>pending := p\<rparr>)" for p
    using assms(1,2) q by (simp add: java_ready_def w'_def)
  show ?thesis
  proof (cases q)
    case (Inr x)
    with assms(3) [of x w'] q o show ?thesis by (simp add: to_java_def mirrors_def w'_def Let_def)
  next
    case (Inl e)
    with o q c n show ?thesis
      by (cases e) (simp_all add: to_java_def mirrors_def java_class_def caught_by_def ThrowNew_def
          w'_def [symmetric] Let_def)
  qed
qed

lemma stub_command_mirrors:
  assumes "java_ready r s w"
  shows "stub_command f r w = mirrors r (f s) (Inr ()) Inr w"
  unfolding stub_command_def by (rule native_mirrors [OF assms]) simp_all

lemma new_string_ok:
  assumes "granted J n" and "unwritten J n = 0"
  shows "NewStringUTF J n t w = (Inr (Some (takeWhile (\<lambda>b. b \<noteq> 0) t)), w)"
proof -
  have "takeWhile (\<lambda>b. b \<noteq> 0) (t @ [0]) = takeWhile (\<lambda>b. b \<noteq> 0) t" by (induction t) auto
  with assms show ?thesis by (simp add: NewStringUTF_def jni_call_def)
qed

lemma short_array_ok:
  assumes "granted J k" and "granted J (k + 1)"
  shows "short_array J k bytes n w =
    (if n \<le> length bytes then (Inr (Some (map ucast (take n bytes))), w) else (Inl UndefinedBehaviour, w))"
  using assms by (simp add: short_array_def unless_null_def jni_call_def)

lemma byte_of_short_ucast [simp]: "byte_of_short (ucast (b :: byte)) = b"
proof -
  have "(0xFF :: jshort) = mask 8" by (simp add: mask_eq_exp_minus_1)
  moreover have "n < 8 \<Longrightarrow> bit (ucast (ucast b AND (mask 8 :: jshort)) :: byte) n = bit b n" for n
    by (simp add: bit_ucast_iff bit_and_iff bit_mask_iff)
  ultimately show ?thesis unfolding byte_of_short_def by (intro bit_word_eqI) simp
qed

lemma byte_of_short_low [simp]: "byte_of_short (s AND 0xFF) = byte_of_short s"
  by (simp add: byte_of_short_def and.assoc)

lemma map_byte_of_short [simp]: "map (byte_of_short \<circ> ucast) data = data"
  by (simp add: map_idI comp_def)

lemma stub_sendData_mirrors:
  assumes "java_ready r s w"
  shows "stub_sendData P r jData w =
    mirrors r (sendData P (map byte_of_short jData) s) (Inr 1) (Inr \<circ> ds_value) w"
proof -
  have "sendData_ptr P (map byte_of_short jData) (length jData) s = sendData P (map byte_of_short jData) s"
    by (simp add: sendData_ptr_def sendData_def from_pointer_def)
  then show ?thesis
    using native_mirrors [OF assms, of "sendData_ptr P (map byte_of_short jData) (length jData)"
        "\<lambda>dsResp w. (Inr (ds_value (case dsResp of None \<Rightarrow> DS_ERR | Some r \<Rightarrow> r)), w)" "Inr 1" "Inr \<circ> ds_value"]
    by (simp add: stub_sendData_def)
qed

lemma stub_module_mirrors:
  assumes "java_ready r s w" and "\<forall>n. granted J n"
  shows "stub_getTRModuleInfo P J r w = mirrors r (getTRModuleInfo P s) (Inl UndefinedBehaviour)
    (\<lambda>info. case info of None \<Rightarrow> Inl UndefinedBehaviour
       | Some i \<Rightarrow> if module_arrays i then Inr (Some (java_module i)) else Inl UndefinedBehaviour) w"
  unfolding stub_getTRModuleInfo_def
  by (rule native_mirrors [OF assms(1)])
    (auto simp: unless_null_def jni_call_def assms(2) short_array_ok module_arrays_def java_module_def
      SN_SIZE_def BUILD_SIZE_def split: option.split)

lemma stub_device_mirrors:
  assumes "java_ready r s w" and "\<forall>n. granted J n"
    and "unwritten J 0 = 0 \<and> unwritten J 1 = 0 \<and> unwritten J 2 = 0"
  shows "stub_getUSBDeviceInfo P J r w = mirrors r (getUSBDeviceInfo P s) (Inl UndefinedBehaviour)
    (\<lambda>d. Inr (Some (java_texts d))) w"
  unfolding stub_getUSBDeviceInfo_def
  by (rule native_mirrors [OF assms(1)])
    (use assms(2,3) in \<open>simp_all add: new_string_ok unless_null_def jni_call_def java_texts_def Let_def\<close>)

lemma stub_device_undefined:
  assumes "java_ready r s w"
    and "fst (getUSBDeviceInfo P s) = Inr d \<and> 0 \<notin> set (devType d) \<and> unwritten J 0 \<noteq> 0"
  shows "fst (stub_getUSBDeviceInfo P J r w) = Inl UndefinedBehaviour"
  using assms
  by (cases "getUSBDeviceInfo P s")
    (auto simp: stub_getUSBDeviceInfo_def on_object_def java_ready_def to_java_def unless_null_def
      NewStringUTF_def)

text \<open>Every object's messages go to the Java object that was created last.\<close>

lemma last_object_listens:
  assumes "createCDCImpl create address J jObj portName w = (Inr r, w')" and "r \<noteq> 0"
    and "msgListener w jObj = Some l" and "\<And>n. granted K n" and "cached w jListID" and "cached w getMsgID"
  shows "stubListener K data (length data) w' =
    (Inr (), w'\<lparr>gotMessages := gotMessages w' @ [(l, map ucast data)]\<rparr>)"
proof -
  have throw: "ThrowNew c t v = (Inr (), v') \<Longrightarrow> msgListener v' = msgListener v \<and> cached v' = cached v" for c t and v v' :: "'a java_world"
    by (auto simp: ThrowNew_def split: if_splits)
  have "jvm w' \<and> jCDC w' = Some jObj \<and> msgListener w' = msgListener w \<and> cached w' = cached w"
    using assms(1,2) throw
    by (auto simp: createCDCImpl_def andThen_def Let_def split: if_splits sum.splits prod.splits outcome_error.splits)
  with assms(3-6) show ?thesis by (simp add: stubListener_def short_array_ok)
qed

section \<open>Properties\<close>

text \<open>
  C39. The native methods against their reference, for every platform and whatever the library
  does, when the classes are cached and the reference is that of an object. After a send or
  receive exception the methods without a result, \<open>test\<close> and \<open>sendData\<close> leave the Java exception
  of the same kind with the same text pending and return a default. The three methods that
  return an object do this only on paper: after an exception they read the null pointer or an
  unwritten variable. Otherwise they return the values, provided that the memory behind the
  texts of the device happens to hold zeros, and that there is a module information.
\<close>

theorem java_methods:
  assumes "java_ready r s w" and "\<forall>n. granted J n"
  shows "stub_test P r w = mirrors r (test P s) (Inr False) Inr w \<and>
    stub_resetUSBDevice P r w = mirrors r (resetUSBDevice P s) (Inr ()) Inr w \<and>
    stub_resetTRModule P r w = mirrors r (resetTRModule P s) (Inr ()) Inr w \<and>
    stub_indicateConnectivity P r w = mirrors r (indicateConnectivity P s) (Inr ()) Inr w \<and>
    stub_switchToCustom P r w = mirrors r (switchToCustom P s) (Inr ()) Inr w \<and>
    stub_sendData P r jData w =
      mirrors r (sendData P (map byte_of_short jData) s) (Inr 1) (Inr \<circ> ds_value) w \<and>
    stub_getStatus P J r w = mirrors r (getStatus P s) (Inl UndefinedBehaviour)
      (\<lambda>st. Inr (Some (isDataReady st, spi_union st))) w \<and>
    stub_getTRModuleInfo P J r w = mirrors r (getTRModuleInfo P s) (Inl UndefinedBehaviour)
      (\<lambda>info. case info of None \<Rightarrow> Inl UndefinedBehaviour
         | Some i \<Rightarrow> if module_arrays i then Inr (Some (java_module i)) else Inl UndefinedBehaviour) w \<and>
    (unwritten J 0 = 0 \<and> unwritten J 1 = 0 \<and> unwritten J 2 = 0 \<longrightarrow>
      stub_getUSBDeviceInfo P J r w = mirrors r (getUSBDeviceInfo P s) (Inl UndefinedBehaviour)
        (\<lambda>d. Inr (Some (java_texts d))) w) \<and>
    (fst (getUSBDeviceInfo P s) = Inr d \<and> 0 \<notin> set (devType d) \<and> unwritten J 0 \<noteq> 0 \<longrightarrow>
      fst (stub_getUSBDeviceInfo P J r w) = Inl UndefinedBehaviour)"
proof -
  have "stub_test P r w = mirrors r (test P s) (Inr False) Inr w"
    unfolding stub_test_def by (rule native_mirrors [OF assms(1)]) simp_all
  moreover have "stub_resetUSBDevice P r w = mirrors r (resetUSBDevice P s) (Inr ()) Inr w"
    "stub_resetTRModule P r w = mirrors r (resetTRModule P s) (Inr ()) Inr w"
    "stub_indicateConnectivity P r w = mirrors r (indicateConnectivity P s) (Inr ()) Inr w"
    "stub_switchToCustom P r w = mirrors r (switchToCustom P s) (Inr ()) Inr w"
    by (simp_all add: stub_command_mirrors [OF assms(1)] stub_resetUSBDevice_def stub_resetTRModule_def
        stub_indicateConnectivity_def stub_switchToCustom_def)
  moreover have "stub_getStatus P J r w = mirrors r (getStatus P s) (Inl UndefinedBehaviour)
      (\<lambda>st. Inr (Some (isDataReady st, spi_union st))) w"
    unfolding stub_getStatus_def
    by (rule native_mirrors [OF assms(1)]) (simp_all add: jni_call_def assms(2))
  ultimately show ?thesis
    using stub_sendData_mirrors [OF assms(1)] stub_module_mirrors [OF assms]
      stub_device_mirrors [OF assms] stub_device_undefined [OF assms(1)] by blast
qed

text \<open>A world with one object at address 1, whose reception has stopped, and a listener 7.\<close>

definition sample_java :: "linux_event java_world" where
  "sample_java =
     \<lparr>cdcImps = (\<lambda>_. None)(1 := Some (sample_object\<lparr>receptionStopped := True\<rparr>)), jvm = True,
      jCDC = Some 5, cached = (\<lambda>_. True), msgListener = (\<lambda>_. Some 7), pending = None, gotMessages = []\<rparr>"

definition sample_jni :: jni where
  "sample_jni = \<lparr>granted = \<lambda>_. True, unwritten = \<lambda>_. 0\<rparr>"

lemma sample_java_ready: "java_ready 1 (sample_object\<lparr>receptionStopped := True\<rparr>) sample_java"
  by (simp add: java_ready_def sample_java_def list_all_iff)

theorem java_methods_witness:
  "fst (stub_test (linux_platform 3 [] [] []) 1 sample_java) = Inr False \<and>
   pending (snd (stub_test (linux_platform 3 [] [] []) 1 sample_java)) =
     Some (classCDCSendException, ''CDCImpl.cpp 589Reading is actually stopped'') \<and>
   fst (stub_getStatus (linux_platform 3 [] [] []) sample_jni 1 sample_java) = Inl UndefinedBehaviour \<and>
   fst (stub_getUSBDeviceInfo (linux_platform 3 [] [] []) sample_jni 1 sample_java) = Inl UndefinedBehaviour"
proof -
  let ?P = "linux_platform 3 [] [] []" and ?s = "sample_object\<lparr>receptionStopped := True\<rparr>"
  let ?e = "THROW_EXCEPT CDCSendException ''CDCImpl.cpp'' 589 ''Reading is actually stopped''"
  have p: "processCommand ?P c ?s = (Inl ?e, ?s)" for c
    by (simp add: processCommand_def getReceptionStopped_def)
  have n: "show_nat 589 = ''589''" by code_simp
  have m: "mirrors 1 (Inl ?e, ?s) raised conv sample_java =
      (raised, sample_java\<lparr>cdcImps := (cdcImps sample_java)(1 := Some ?s),
         pending := Some (classCDCSendException, ''CDCImpl.cpp 589Reading is actually stopped'')\<rparr>)" for raised conv
    by (simp add: mirrors_def THROW_EXCEPT_def java_class_def c_string_def n what_new_exception del: new_exception.simps)
  have r: "test ?P ?s = (Inl ?e, ?s)" "getStatus ?P ?s = (Inl ?e, ?s)" "getUSBDeviceInfo ?P ?s = (Inl ?e, ?s)"
    by (simp_all add: test_def getStatus_def getUSBDeviceInfo_def p)
  have "\<forall>n. granted sample_jni n" "unwritten sample_jni n = 0" for n by (simp_all add: sample_jni_def)
  with java_methods [OF sample_java_ready this(1), of ?P] show ?thesis
    by (simp add: r m del: One_nat_def)
qed

text \<open>
  C40. Bytes on their way through Java. An array of shorts is sent as its low bytes, so an array
  that holds the bytes 0 to 255 is sent as it is; an asynchronous message reaches the listener
  of the Java object as an array of exactly its bytes, and sending this array sends the message.
\<close>

theorem java_data:
  assumes "java_ready r s w" and "\<forall>n. granted J n" and "jvm w" and "jCDC w = Some jObj"
    and "msgListener w jObj = Some l"
  shows "stubListener J data (length data) w =
      (Inr (), w\<lparr>gotMessages := gotMessages w @ [(l, map ucast data)]\<rparr>) \<and>
    stub_sendData P r (map ucast data) w = mirrors r (sendData P data s) (Inr 1) (Inr \<circ> ds_value) w \<and>
    stub_sendData P r jData w = stub_sendData P r (map (\<lambda>x. x AND 0xFF) jData) w"
proof -
  have "cached w jListID" "cached w getMsgID" using assms(1) by (simp_all add: java_ready_def java_lookups_def)
  with assms show ?thesis
    by (simp add: stubListener_def short_array_ok stub_sendData_mirrors [OF assms(1)] comp_def)
qed

theorem java_data_witness:
  "stubListener sample_jni [1, 0xFF] 2 sample_java =
     (Inr (), sample_java\<lparr>gotMessages := [(7, [1, 0xFF])]\<rparr>)"
proof -
  have "\<forall>n. granted sample_jni n" "jvm sample_java" "jCDC sample_java = Some 5"
    "msgListener sample_java 5 = Some 7" "gotMessages sample_java = []"
    by (simp_all add: sample_jni_def sample_java_def)
  note g = this
  have d: "length [1, 0xFF :: byte] = 2" "map ucast [1, 0xFF :: byte] = [1, 0xFF :: jshort]" by simp_all
  from java_data [THEN conjunct1, OF sample_java_ready g(1-4), of "[1, 0xFF]"] show ?thesis
    unfolding d g(5) append_Nil .
qed

end
