(* ===== verification/Session.thy ===== *)
theory Session
  imports Api
begin

text \<open>
  The two threads of one object, up to its destruction. The client's thread processes a command
  and decodes the response, or deletes the object; the reading thread takes messages from its
  buffer and delivers them. A step is one access to what both threads use: the last response
  (written by the reading thread in two assignments, read by the client two or three times, none
  of them under a lock) and the events; accesses under a lock are one step. The relation holds for
  both platforms, whose functions are its parameter.
\<close>

unbundle bit_operations_syntax

section \<open>Decoding\<close>

text \<open>
  What the methods do with the bytes of the last response behind \<open>processCommand\<close>, by the type of
  the command: the decoder, of whose result only the exception is of interest here. Only \<open>download\<close>
  looks at the type of the response once more and decodes data as such.
\<close>

definition outcome_of :: "thrown + 'a \<Rightarrow> thrown + unit" where
  "outcome_of r = (case r of Inl e \<Rightarrow> Inl e | Inr x \<Rightarrow> Inr ())"

fun decoder :: "MessageType \<Rightarrow> parser \<Rightarrow> ustring \<Rightarrow> thrown + unit" where
  "decoder MSG_USB_INFO p m = outcome_of (getParsedDeviceInfo m)"
| "decoder MSG_TR_INFO p m = outcome_of (getParsedModuleInfo m)"
| "decoder MSG_SPI_STAT p m = outcome_of (getParsedSPIStatus p m)"
| "decoder MSG_DATA_SEND p m = outcome_of (getParsedDSResponse m)"
| "decoder MSG_MODE_PROGRAM p m = outcome_of (getParsedPEResponse m)"
| "decoder MSG_MODE_NORMAL p m = outcome_of (getParsedPTResponse m)"
| "decoder MSG_UPLOAD_DOWNLOAD p m = outcome_of (getParsedPMResponse m)"
| "decoder MSG_DOWNLOAD_DATA p m = outcome_of (getParsedPMData m)"
| "decoder T p m = Inr ()"

definition is_download :: "Command \<Rightarrow> bool" where
  "is_download c \<longleftrightarrow> cmd_msgType c = MSG_UPLOAD_DOWNLOAD \<and>
     (case cmd_data c of [] \<Rightarrow> 0 | b # _ \<Rightarrow> b) AND 0x80 = 0"

lemma answers_type: "answers c t \<Longrightarrow> \<not> is_download c \<or> t \<noteq> MSG_DOWNLOAD_DATA \<Longrightarrow> t = cmd_msgType c"
  by (auto simp: answers_def download_pair_def is_download_def)

text \<open>The decoders accept the messages of their types, and these are the exceptions they throw at others.\<close>

lemma outcome_of_simps [simp]: "outcome_of (Inl e) = Inl e" "outcome_of (Inr x) = Inr ()"
  by (simp_all add: outcome_of_def)

lemma outcome_of_Inl: "outcome_of r = Inl e \<longleftrightarrow> r = Inl e"
  by (cases r) simp_all

lemma decoder_accepts:
  assumes "frame n T m" and "length m < 2 ^ 62" and "parser_ok p"
  shows "decoder T p m = Inr ()"
  using assms
  by (cases T)
    (auto dest!: accept_DS accept_PE accept_PT accept_PM accept_SPI accept_PM_data accept_USB elim!: frame_TR)

definition decoder_error :: "thrown \<Rightarrow> bool" where
  "decoder_error e \<longleftrightarrow> e = OutOfRange \<or> e = BadAlloc \<or> is_thrown CDCMessageParserException e"

lemma read_bytes_error: "read_bytes d pos n = Inl e \<Longrightarrow> e = OutOfRange"
  by (induction n arbitrary: pos) (auto simp: bindE_def str_at_def split: sum.splits if_splits)

lemma decoder_fails: "decoder T p m = Inl e \<Longrightarrow> decoder_error e"
  by (cases T)
    (auto simp: outcome_of_Inl decoder_error_def getParsedDeviceInfo_def getParsedModuleInfo_def
      getParsedSPIStatus_def getParsedDSResponse_def getParsedPEResponse_def getParsedPTResponse_def
      getParsedPMResponse_def getParsedPMData_def msg_body_def substr_def str_at_def new_char_array_def
      unknown_response_def new_CDCMessageParserException_def bindE_def Let_def
      dest: read_bytes_error split: sum.splits if_splits)

section \<open>Threads\<close>

text \<open>
  Where the client is in \<open>processCommand\<close> and the method behind it: it waits, has been woken up,
  has checked the type of the response, has looked whether a download brings data (\<open>Looked\<close>), has
  taken the bytes for the decoder (\<open>Took\<close>, or \<open>Took_data\<close> for downloaded data), has returned
  normally or with an exception. In the destructor it waits for the thread (\<open>Closing\<close>) until the
  object is \<open>Gone\<close>; an exception there would end the program (\<open>Crashed\<close>).
\<close>

datatype client =
    Resting
  | Waiting Command
  | Woken Command
  | Checked Command
  | Looked Command bool
  | Took Command ustring
  | Took_data Command ustring
  | Returned Command
  | Failed thrown
  | Closing
  | Gone
  | Crashed

text \<open>
  Where the reading thread is: before its next read, in the loop of \<open>processAllMessages\<close>, or in
  \<open>processMessage\<close> with a response before each of its three last statements. It has \<open>Finished\<close>
  when it has seen the end event, and \<open>Ended\<close> after an exception; one comes from reading itself when
  a call of the system fails.
\<close>

datatype reader =
    Collecting ustring
  | Processing ustring
  | Storing ParsedMessage ustring
  | Stored ParsedMessage ustring
  | Signalling ustring
  | Ended
  | Finished

record 'e session =
  client :: client
  reader :: reader
  shared :: "'e impl"

text \<open>
  The platform: what one read may bring, whether the bytes read let the messages be processed,
  the outcomes of sending a command, the operations of an event and whether a wait finds it set,
  the errors with which the system may end a wait, the handler of the reading thread, and closing
  an event and the port.
\<close>

record 'e threads =
  one_read :: "ustring \<Rightarrow> bool"
  complete :: "ustring \<Rightarrow> ustring \<Rightarrow> bool"
  sends :: "Command \<Rightarrow> 'e impl \<Rightarrow> (thrown + unit) \<times> 'e impl \<Rightarrow> bool"
  sets :: "'e \<Rightarrow> thrown + 'e"
  waits :: "'e \<Rightarrow> thrown + 'e"
  interrupts :: "thrown \<Rightarrow> bool"
  catches :: "thrown \<Rightarrow> 'e impl \<Rightarrow> 'e impl"
  notices :: "'e \<Rightarrow> bool"
  closes :: "'e \<Rightarrow> 'e"
  closes_port :: "int handle \<Rightarrow> int handle"

text \<open>What the destructor closes, in its order.\<close>

definition close_all :: "'e threads \<Rightarrow> 'e impl \<Rightarrow> 'e impl" where
  "close_all T s =
     (let s = s\<lparr>readStartEvent := closes T (readStartEvent s)\<rparr>;
          s = s\<lparr>newMsgEvent := closes T (newMsgEvent s)\<rparr>;
          s = s\<lparr>readEndEvent := closes T (readEndEvent s)\<rparr>;
          s = s\<lparr>readEndResponse := closes T (readEndResponse s)\<rparr>
      in s\<lparr>portHandle := closes_port T (portHandle s)\<rparr>)"

section \<open>Steps\<close>

datatype action =
    Arrive ustring
  | Pause
  | Skip
  | Listen
  | Deliver
  | Store
  | Signal
  | Give_up
  | Start Command
  | Wake
  | Check
  | Look
  | Take
  | Decode
  | Fail
  | Rest
  | Read_error thrown
  | Finish
  | Close
  | Join

inductive session_step :: "'e threads \<Rightarrow> 'e session \<Rightarrow> action \<Rightarrow> 'e session \<Rightarrow> bool" for T where
  arrive: "reader x = Collecting buf \<Longrightarrow> one_read T bs \<Longrightarrow>
    session_step T x (Arrive bs)
      (x\<lparr>reader := if complete T buf bs then Processing (buf @ bs) else Collecting (buf @ bs)\<rparr>)"
| pause_empty: "reader x = Processing [] \<Longrightarrow> session_step T x Pause (x\<lparr>reader := Collecting []\<rparr>)"
| pause: "reader x = Processing d \<Longrightarrow> d \<noteq> [] \<Longrightarrow>
    parseNextMessage d (shared x) = (Inr pm, buf, s) \<Longrightarrow>
    resultType (parseResult pm) = PARSE_NOT_COMPLETE \<Longrightarrow>
    session_step T x Pause (x\<lparr>reader := Collecting buf, shared := s\<rparr>)"
| skip: "reader x = Processing d \<Longrightarrow> d \<noteq> [] \<Longrightarrow>
    parseNextMessage d (shared x) = (Inr pm, buf, s) \<Longrightarrow>
    resultType (parseResult pm) = PARSE_BAD_FORMAT \<Longrightarrow>
    session_step T x Skip (x\<lparr>reader := Processing (skip_bad buf (lastPosition (parseResult pm))),
      shared := setLastReceptionError ''Bad message format'' s\<rparr>)"
| listen: "reader x = Processing d \<Longrightarrow> d \<noteq> [] \<Longrightarrow>
    parseNextMessage d (shared x) = (Inr pm, buf, s) \<Longrightarrow>
    resultType (parseResult pm) = PARSE_OK \<Longrightarrow> msgType (parseResult pm) = MSG_ASYNC \<Longrightarrow>
    processMessage (sets T) pm s = (Inr (), s') \<Longrightarrow>
    session_step T x Listen
      (x\<lparr>reader := Processing (erase_front (lastPosition (parseResult pm) + 1) buf), shared := s'\<rparr>)"
| deliver: "reader x = Processing d \<Longrightarrow> d \<noteq> [] \<Longrightarrow>
    parseNextMessage d (shared x) = (Inr pm, buf, s) \<Longrightarrow>
    resultType (parseResult pm) = PARSE_OK \<Longrightarrow> msgType (parseResult pm) \<noteq> MSG_ASYNC \<Longrightarrow>
    session_step T x Deliver
      (x\<lparr>reader := Storing pm (erase_front (lastPosition (parseResult pm) + 1) buf), shared := s\<rparr>)"
| store_result: "reader x = Storing pm buf \<Longrightarrow> shared x = s \<Longrightarrow>
    session_step T x Store (x\<lparr>reader := Stored pm buf,
      shared := s\<lparr>lastResponse := (lastResponse s)\<lparr>parseResult := parseResult pm\<rparr>\<rparr>\<rparr>)"
| store_message: "reader x = Stored pm buf \<Longrightarrow> shared x = s \<Longrightarrow>
    session_step T x Store (x\<lparr>reader := Signalling buf,
      shared := s\<lparr>lastResponse := (lastResponse s)\<lparr>message := message pm\<rparr>\<rparr>\<rparr>)"
| signal: "reader x = Signalling buf \<Longrightarrow> sets T (newMsgEvent (shared x)) = Inr ev \<Longrightarrow>
    session_step T x Signal (x\<lparr>reader := Processing buf, shared := (shared x)\<lparr>newMsgEvent := ev\<rparr>\<rparr>)"
| parse_fails: "reader x = Processing d \<Longrightarrow> d \<noteq> [] \<Longrightarrow>
    parseNextMessage d (shared x) = (Inl e, buf, s) \<Longrightarrow>
    session_step T x Give_up (x\<lparr>reader := Ended, shared := catches T e s\<rparr>)"
| listen_fails: "reader x = Processing d \<Longrightarrow> d \<noteq> [] \<Longrightarrow>
    parseNextMessage d (shared x) = (Inr pm, buf, s) \<Longrightarrow>
    resultType (parseResult pm) = PARSE_OK \<Longrightarrow> msgType (parseResult pm) = MSG_ASYNC \<Longrightarrow>
    processMessage (sets T) pm s = (Inl e, s') \<Longrightarrow>
    session_step T x Give_up (x\<lparr>reader := Ended, shared := catches T e s'\<rparr>)"
| signal_fails: "reader x = Signalling buf \<Longrightarrow> sets T (newMsgEvent (shared x)) = Inl e \<Longrightarrow>
    session_step T x Give_up (x\<lparr>reader := Ended, shared := catches T e (shared x)\<rparr>)"
| start: "client x = Resting \<Longrightarrow> \<not> getReceptionStopped (shared x) \<Longrightarrow>
    cmd_msgType c \<noteq> MSG_ERROR \<Longrightarrow> sends T c (shared x) (Inr (), s) \<Longrightarrow>
    session_step T x (Start c) (x\<lparr>client := Waiting c, shared := s\<rparr>)"
| start_stopped: "client x = Resting \<Longrightarrow> getReceptionStopped (shared x) \<Longrightarrow>
    session_step T x Fail (x\<lparr>client := Failed (THROW_EXCEPT CDCSendException ''CDCImpl.cpp'' 589
      ''Reading is actually stopped'')\<rparr>)"
| start_fails: "client x = Resting \<Longrightarrow> \<not> getReceptionStopped (shared x) \<Longrightarrow>
    cmd_msgType c \<noteq> MSG_ERROR \<Longrightarrow> sends T c (shared x) (Inl e, s) \<Longrightarrow>
    session_step T x Fail (x\<lparr>client := Failed e, shared := s\<rparr>)"
| wake: "client x = Waiting c \<Longrightarrow> waits T (newMsgEvent (shared x)) = Inr ev \<Longrightarrow>
    session_step T x Wake (x\<lparr>client := Woken c, shared := (shared x)\<lparr>newMsgEvent := ev\<rparr>\<rparr>)"
| wait_fails: "client x = Waiting c \<Longrightarrow> waits T (newMsgEvent (shared x)) = Inl e \<Longrightarrow>
    session_step T x Fail (x\<lparr>client := Failed e\<rparr>)"
| wait_interrupted: "client x = Waiting c \<Longrightarrow> interrupts T e \<Longrightarrow>
    session_step T x Fail (x\<lparr>client := Failed e\<rparr>)"
| check: "client x = Woken c \<Longrightarrow> checkResponse c (shared x) = (Inr (), s) \<Longrightarrow>
    session_step T x Check (x\<lparr>client := Checked c, shared := s\<rparr>)"
| check_fails: "client x = Woken c \<Longrightarrow> checkResponse c (shared x) = (Inl e, s) \<Longrightarrow>
    session_step T x Fail (x\<lparr>client := Failed e, shared := s\<rparr>)"
| look: "client x = Checked c \<Longrightarrow> is_download c \<Longrightarrow>
    session_step T x Look
      (x\<lparr>client := Looked c (msgType (parseResult (lastResponse (shared x))) = MSG_DOWNLOAD_DATA)\<rparr>)"
| take: "client x = Checked c \<Longrightarrow> \<not> is_download c \<Longrightarrow>
    session_step T x Take (x\<lparr>client := Took c (message (lastResponse (shared x)))\<rparr>)"
| take_code: "client x = Looked c False \<Longrightarrow>
    session_step T x Take (x\<lparr>client := Took c (message (lastResponse (shared x)))\<rparr>)"
| take_data: "client x = Looked c True \<Longrightarrow>
    session_step T x Take (x\<lparr>client := Took_data c (message (lastResponse (shared x)))\<rparr>)"
| decode: "client x = Took c m \<Longrightarrow> decoder (cmd_msgType c) (msgParser (shared x)) m = Inr u \<Longrightarrow>
    session_step T x Decode (x\<lparr>client := Returned c\<rparr>)"
| decode_fails: "client x = Took c m \<Longrightarrow> decoder (cmd_msgType c) (msgParser (shared x)) m = Inl e \<Longrightarrow>
    session_step T x Decode (x\<lparr>client := Failed e\<rparr>)"
| decode_data: "client x = Took_data c m \<Longrightarrow> decoder MSG_DOWNLOAD_DATA (msgParser (shared x)) m = Inr u \<Longrightarrow>
    session_step T x Decode (x\<lparr>client := Returned c\<rparr>)"
| decode_data_fails: "client x = Took_data c m \<Longrightarrow> decoder MSG_DOWNLOAD_DATA (msgParser (shared x)) m = Inl e \<Longrightarrow>
    session_step T x Decode (x\<lparr>client := Failed e\<rparr>)"
| decode_data_long: "client x = Took_data c m \<Longrightarrow> getParsedPMData m = Inr d \<Longrightarrow> n \<le> length d \<Longrightarrow>
    session_step T x Decode (x\<lparr>client := Failed (too_long d n)\<rparr>)"
| rest_returned: "client x = Returned c \<Longrightarrow> session_step T x Rest (x\<lparr>client := Resting\<rparr>)"
| rest_failed: "client x = Failed e \<Longrightarrow> session_step T x Rest (x\<lparr>client := Resting\<rparr>)"
| read_error: "reader x = Collecting buf \<Longrightarrow> is_thrown CDCReceiveException e \<Longrightarrow>
    session_step T x (Read_error e) (x\<lparr>reader := Ended, shared := catches T e (shared x)\<rparr>)"
| finish: "reader x = Collecting buf \<Longrightarrow> notices T (readEndEvent (shared x)) \<Longrightarrow>
    session_step T x Finish (x\<lparr>reader := Finished\<rparr>)"
| close: "client x = Resting \<Longrightarrow> sets T (readEndEvent (shared x)) = Inr ev \<Longrightarrow>
    session_step T x Close (x\<lparr>client := Closing, shared := (shared x)\<lparr>readEndEvent := ev\<rparr>\<rparr>)"
| close_fails: "client x = Resting \<Longrightarrow> sets T (readEndEvent (shared x)) = Inl e \<Longrightarrow>
    session_step T x Close (x\<lparr>client := Crashed\<rparr>)"
| join: "client x = Closing \<Longrightarrow> reader x \<in> {Finished, Ended} \<Longrightarrow>
    session_step T x Join (x\<lparr>client := Gone, shared := close_all T (shared x)\<rparr>)"

text \<open>Runs, and the states reached by steps that a condition allows.\<close>

inductive session_run :: "'e threads \<Rightarrow> 'e session \<Rightarrow> 'e session \<Rightarrow> bool" for T where
  run_refl: "session_run T x x"
| run_step: "session_step T x a y \<Longrightarrow> session_run T y z \<Longrightarrow> session_run T x z"

inductive reached ::
  "'e threads \<Rightarrow> ('e session \<Rightarrow> action \<Rightarrow> bool) \<Rightarrow> 'e impl \<Rightarrow> 'e session \<Rightarrow> bool"
  for T allowed s where
  reached_start: "reached T allowed s \<lparr>client = Resting, reader = Collecting [], shared = s\<rparr>"
| reached_step: "reached T allowed s x \<Longrightarrow> allowed x a \<Longrightarrow> session_step T x a y \<Longrightarrow> reached T allowed s y"

text \<open>Runs with the list of their actions, and the bytes that have arrived in them.\<close>

inductive traced :: "'e threads \<Rightarrow> 'e session \<Rightarrow> action list \<Rightarrow> 'e session \<Rightarrow> bool" for T x where
  traced_start: "traced T x [] x"
| traced_step: "traced T x as y \<Longrightarrow> session_step T y a z \<Longrightarrow> traced T x (as @ [a]) z"

fun arrived :: "action \<Rightarrow> ustring" where
  "arrived (Arrive bs) = bs"
| "arrived a = []"

definition arrivals :: "action list \<Rightarrow> ustring" where
  "arrivals as = concat (map arrived as)"

lemma arrivals_simps [simp]: "arrivals [] = []" "arrivals (as @ [a]) = arrivals as @ arrived a"
  by (simp_all add: arrivals_def)

lemmas session_run.intros [intro]

lemma session_run_step: "session_step T x a y \<Longrightarrow> session_run T x y"
  by blast

lemma session_run_trans: "session_run T x y \<Longrightarrow> session_run T y z \<Longrightarrow> session_run T x z"
  by (induction rule: session_run.induct) blast+

section \<open>The loop of the reading thread\<close>

text \<open>A call of \<open>processAllMessages\<close> as steps of the reading thread.\<close>

lemma processMessage_response:
  assumes "msgType (parseResult pm) \<noteq> MSG_ASYNC"
  shows "processMessage f pm s = (case f (newMsgEvent s) of
      Inl e \<Rightarrow> (Inl e, s\<lparr>lastResponse := pm\<rparr>)
    | Inr ev \<Rightarrow> (Inr (), s\<lparr>lastResponse := pm, newMsgEvent := ev\<rparr>))"
  using assms by (cases pm) (simp add: processMessage_def Let_def split: sum.split)

lemma deliver_run:
  assumes "processMessage (sets T) pm s = (Inr (), s')" and "msgType (parseResult pm) \<noteq> MSG_ASYNC"
  shows "session_run T \<lparr>client = cl, reader = Storing pm b, shared = s\<rparr>
    \<lparr>client = cl, reader = Processing b, shared = s'\<rparr>"
proof -
  from assms obtain ev where ev: "sets T (newMsgEvent s) = Inr ev"
    and s': "s' = s\<lparr>lastResponse := pm, newMsgEvent := ev\<rparr>"
    by (auto simp: processMessage_response split: sum.splits)
  let ?x = "\<lambda>r s. \<lparr>client = cl, reader = r, shared = s\<rparr>"
  let ?s1 = "s\<lparr>lastResponse := (lastResponse s)\<lparr>parseResult := parseResult pm\<rparr>\<rparr>"
  let ?s2 = "s\<lparr>lastResponse := pm\<rparr>"
  have "session_step T (?x (Storing pm b) s) Store (?x (Stored pm b) ?s1)"
    using store_result [of "?x (Storing pm b) s" pm b s T] by simp
  moreover have "session_step T (?x (Stored pm b) ?s1) Store (?x (Signalling b) ?s2)"
    using store_message [of "?x (Stored pm b) ?s1" pm b ?s1 T] by (cases pm) simp
  moreover have "session_step T (?x (Signalling b) ?s2) Signal (?x (Processing b) s')"
    using signal [of "?x (Signalling b) ?s2" b T ev] ev by (simp add: s')
  ultimately show ?thesis by blast
qed

lemma processAllMessages_run:
  "processAllMessages (sets T) d s = (Inr (), b, s') \<Longrightarrow>
   session_run T \<lparr>client = cl, reader = Processing d, shared = s\<rparr>
     \<lparr>client = cl, reader = Collecting b, shared = s'\<rparr>"
proof (induction "length d" arbitrary: d s rule: less_induct)
  case less
  let ?x = "\<lambda>r s. \<lparr>client = cl, reader = r, shared = s\<rparr>"
  show ?case
  proof (cases "d = []")
    case True
    with less.prems pause_empty [of "?x (Processing []) s" T] show ?thesis
      by (auto simp: processAllMessages.simps)
  next
    case False
    obtain q buf s1 where p: "parseNextMessage d s = (q, buf, s1)" by (cases "parseNextMessage d s") auto
    with less.prems False obtain pm where q: "q = Inr pm"
      by (cases q) (auto simp: processAllMessages.simps)
    note p = p [unfolded q]
    have l: "length buf = length d" using parseNextMessage_buffer [OF p] by simp
    show ?thesis
    proof (cases "resultType (parseResult pm)")
      case PARSE_NOT_COMPLETE
      with pause [of "?x (Processing d) s" d pm buf s1 T] less.prems False p show ?thesis
        by (auto simp: processAllMessages.simps)
    next
      case PARSE_BAD_FORMAT
      let ?b = "skip_bad buf (lastPosition (parseResult pm))"
        and ?s = "setLastReceptionError ''Bad message format'' s1"
      have "length ?b < length d" using length_skip_bad [of buf] l False by (metis length_0_conv)
      moreover have "processAllMessages (sets T) ?b ?s = (Inr (), b, s')"
        using less.prems False p PARSE_BAD_FORMAT by (simp add: processAllMessages.simps)
      ultimately have "session_run T (?x (Processing ?b) ?s) (?x (Collecting b) s')" by (rule less.hyps)
      with skip [of "?x (Processing d) s" d pm buf s1 T] False p PARSE_BAD_FORMAT show ?thesis by auto
    next
      case PARSE_OK
      let ?b = "erase_front (lastPosition (parseResult pm) + 1) buf"
      obtain s2 where m: "processMessage (sets T) pm s1 = (Inr (), s2)"
        and rest: "processAllMessages (sets T) ?b s2 = (Inr (), b, s')"
        using less.prems False p PARSE_OK
        by (auto simp: processAllMessages.simps Let_def split: prod.splits sum.splits)
      have "length ?b < length d" using l False by (simp add: erase_front_def)
      from less.hyps [OF this rest] have run: "session_run T (?x (Processing ?b) s2) (?x (Collecting b) s')" .
      show ?thesis
      proof (cases "msgType (parseResult pm) = MSG_ASYNC")
        case True
        with listen [of "?x (Processing d) s" d pm buf s1 T s2] False p PARSE_OK m run show ?thesis by auto
      next
        case False
        have "session_step T (?x (Processing d) s) Deliver (?x (Storing pm ?b) s1)"
          using deliver [of "?x (Processing d) s" d pm buf s1 T] \<open>d \<noteq> []\<close> p PARSE_OK False by simp
        with deliver_run [OF m False] run show ?thesis by (blast intro: session_run_trans)
      qed
    qed
  qed
qed

section \<open>Pieces of the steps\<close>

text \<open>What sending needs of the object is in the part that the reading thread does not touch.\<close>

definition sendable :: "'e impl \<Rightarrow> bool" where
  "sendable s \<longleftrightarrow> headers_ok s \<and> transmit_ok s"

lemma sendable_client_part: "client_part s' = client_part s \<Longrightarrow> sendable s \<Longrightarrow> sendable s'"
  by (simp add: sendable_def client_part_def headers_ok_def transmit_ok_def)

text \<open>What the reading thread finds in its buffer.\<close>

lemma parsed_cases:
  assumes "parser_ok (msgParser s)" and "d \<noteq> []" and "parseNextMessage d s = (q, buf, s')"
  obtains pm where "q = Inr pm" and "parser_ok (msgParser s')" and "newMsgEvent s' = newMsgEvent s"
    and "lastResponse s' = lastResponse s" and "client_part s' = client_part s"
    and "length buf = length d"
    and "resultType (parseResult pm) = PARSE_OK \<Longrightarrow>
      (\<exists>n. frame n (msgType (parseResult pm)) (message pm)) \<and> length (message pm) \<le> length d"
proof -
  have l: "lastResponse s' = lastResponse s" "client_part s' = client_part s" "buf = fix_head d"
    using assms(3) parseNextMessage_client parseNextMessage_buffer
    by (auto simp: parseNextMessage_def Let_def split: sum.splits prod.splits)
  from next_message [OF assms(1,2)] obtain r s1 where
    "parseNextMessage d s = (Inr \<lparr>message = (if resultType r = PARSE_OK
         then take (Suc (lastPosition r)) (fix_head d) else []), parseResult = r\<rparr>, fix_head d, s1)"
    "parser_ok (msgParser s1)" "newMsgEvent s1 = newMsgEvent s"
    "resultType r = PARSE_OK \<Longrightarrow> frame (length d) (msgType r) (take (Suc (lastPosition r)) (fix_head d))"
    by metis
  with l assms(3) show thesis
    by (intro that [of "\<lparr>message = (if resultType r = PARSE_OK
      then take (Suc (lastPosition r)) (fix_head d) else []), parseResult = r\<rparr>"]) auto
qed

lemma skip_bad_bound: "length (skip_bad d n) \<le> length d"
  using length_skip_bad [of d n] by (cases "d = []") (auto simp: skip_bad_def erase_front_def split: option.split)

lemma processMessage_async:
  assumes "msgType (parseResult pm) = MSG_ASYNC" and "processMessage f pm s = (r, s')"
  shows "lastResponse s' = lastResponse s" "newMsgEvent s' = newMsgEvent s"
    "msgParser s' = msgParser s" "client_part s' = client_part s"
  using assms processMessage_client [OF assms(2)]
  by (auto simp: processMessage_def call_listener_def split: option.splits sum.splits)

fun by_reader :: "action \<Rightarrow> bool" where
  "by_reader (Arrive bs) = True"
| "by_reader Pause = True"
| "by_reader Skip = True"
| "by_reader Listen = True"
| "by_reader Deliver = True"
| "by_reader Store = True"
| "by_reader Signal = True"
| "by_reader Give_up = True"
| "by_reader (Read_error e) = True"
| "by_reader Finish = True"
| "by_reader a = False"

lemma end_event_kept: "client_part s' = client_part s \<Longrightarrow> readEndEvent s' = readEndEvent s"
  by (simp add: client_part_def)

lemma close_all_fields [simp]:
  "sendable (close_all T s) = sendable s" "msgParser (close_all T s) = msgParser s"
  "lastResponse (close_all T s) = lastResponse s" "receptionStopped (close_all T s) = receptionStopped s"
  by (simp_all add: close_all_def Let_def sendable_def headers_ok_def transmit_ok_def)

section \<open>Every interleaving\<close>

text \<open>
  What holds without any order: the parser is intact, the events are usable as long as the object
  is not gone, and an object is gone only when its thread has come to an end; no message ends the
  thread, a failed read does and leaves the reception stopped; only documented exceptions and
  those of a decoder have been thrown to the client.
\<close>

fun client_safe :: "client \<Rightarrow> bool" where
  "client_safe (Failed e) \<longleftrightarrow> documented e \<or> decoder_error e"
| "client_safe Crashed = False"
| "client_safe cl = True"

definition safe :: "('e \<Rightarrow> bool) \<Rightarrow> ('e \<Rightarrow> bool) \<Rightarrow> 'e session \<Rightarrow> bool" where
  "safe usable ready x \<longleftrightarrow>
     sendable (shared x) \<and> parser_ok (msgParser (shared x)) \<and> client_safe (client x) \<and>
     (reader x = Ended \<longrightarrow> receptionStopped (shared x)) \<and>
     (client x = Gone \<longrightarrow> reader x \<in> {Finished, Ended}) \<and>
     (client x \<noteq> Gone \<longrightarrow> usable (newMsgEvent (shared x)) \<and> usable (readEndEvent (shared x))) \<and>
     (client x = Closing \<longrightarrow> ready (readEndEvent (shared x)))"

text \<open>What this means for what can happen next.\<close>

definition sound :: "'e threads \<Rightarrow> 'e session \<Rightarrow> bool" where
  "sound T x \<longleftrightarrow> client x \<noteq> Crashed \<and> (\<forall>e. client x = Failed e \<longrightarrow> documented e \<or> decoder_error e) \<and>
     (reader x = Ended \<longrightarrow> receptionStopped (shared x)) \<and>
     (client x = Gone \<longrightarrow> reader x \<in> {Finished, Ended} \<and> (\<forall>a y. \<not> session_step T x a y)) \<and>
     (client x = Closing \<longrightarrow> (\<exists>y. session_run T x y \<and> client y = Gone))"

locale two_threads = message_event "sets T" reset_ev "waits T" "notices T" usable
  for T :: "'e threads" and reset_ev usable +
  assumes sends_law: "sends T c s (r, s') \<Longrightarrow> cmd_msgType c \<noteq> MSG_ERROR \<Longrightarrow> sendable s \<Longrightarrow>
      usable (newMsgEvent s) \<Longrightarrow>
      sendable s' \<and> lastResponse s' = lastResponse s \<and> msgParser s' = msgParser s \<and>
      usable (newMsgEvent s') \<and> (notices T (newMsgEvent s') \<longrightarrow> notices T (newMsgEvent s)) \<and>
      readEndEvent s' = readEndEvent s \<and> (\<forall>e. r = Inl e \<longrightarrow> documented e)"
    and complete_law: "complete T buf bs \<Longrightarrow> CR \<in> set (buf @ bs)"
    and incomplete_law: "one_read T bs \<Longrightarrow> \<not> complete T buf bs \<Longrightarrow> length (buf @ bs) < 2 ^ 31 \<Longrightarrow>
      CR \<notin> set (buf @ bs) \<or> (\<exists>b. bs = [b] \<and> b \<noteq> CR)"
    and interrupts_law: "interrupts T e \<Longrightarrow> is_thrown CDCReceiveException e"
    and catches_law: "is_thrown CDCReceiveException e \<Longrightarrow>
      \<exists>d. catches T e s = s\<lparr>lastReceptionError := d, receptionStopped := True\<rparr>"
begin

text \<open>A step of the reading thread in its buffer: the client's part and the event are as before.\<close>

lemma reader_moves_safe:
  assumes "safe usable (notices T) x" and "reader x \<notin> {Ended, Finished}" and "r \<notin> {Ended, Finished}"
    and "newMsgEvent s = newMsgEvent (shared x)" and "client_part s = client_part (shared x)"
    and "parser_ok (msgParser s)"
  shows "safe usable (notices T) (x\<lparr>reader := r, shared := s\<rparr>)"
  using assms sendable_client_part [OF assms(5)] end_event_kept [OF assms(5)] by (auto simp: safe_def)

text \<open>No message and no signal makes the reading thread fail.\<close>

lemma listening_never_fails:
  assumes "safe usable (notices T) x" and "reader x = Processing d" and "d \<noteq> []"
    and "parseNextMessage d (shared x) = (Inr pm, buf, s)" and "resultType (parseResult pm) = PARSE_OK"
    and "processMessage (sets T) pm s = (Inl e, s')"
  shows False
proof -
  from assms(1,2) have p: "parser_ok (msgParser (shared x))" and u: "usable (newMsgEvent (shared x))"
    by (auto simp: safe_def)
  obtain n where
    "frame n (msgType (parseResult pm)) (message pm)" "newMsgEvent s = newMsgEvent (shared x)"
    by (rule parsed_cases [OF p assms(3,4)]) (use assms(5) in auto)
  moreover have "pm = \<lparr>message = message pm, parseResult = parseResult pm\<rparr>" by simp
  ultimately show False
    using u assms(6) by (metis Inl_Inr_False prod.inject processMessage_absorbs)
qed

lemma signalling_never_fails:
  "safe usable (notices T) x \<Longrightarrow> reader x = Signalling b \<Longrightarrow> sets T (newMsgEvent (shared x)) \<noteq> Inl e"
  using set_law [of "newMsgEvent (shared x)"] by (auto simp: safe_def)

lemma reader_step_safe:
  assumes "session_step T x a y" and "safe usable (notices T) x" and "by_reader a"
  shows "safe usable (notices T) y"
  using assms
proof (induction rule: session_step.induct)
  case (arrive x buf bs)
  then show ?case by (auto simp: safe_def)
next
  case (pause_empty x)
  then show ?case by (auto simp: safe_def)
next
  case (pause x d pm buf s)
  then have "parser_ok (msgParser (shared x))" by (simp add: safe_def)
  then show ?case
    by (rule parsed_cases [OF _ pause.hyps(2,3)])
      (rule reader_moves_safe [OF pause.prems(1)]; simp add: pause.hyps(1))
next
  case (skip x d pm buf s)
  then have "parser_ok (msgParser (shared x))" by (simp add: safe_def)
  then show ?case
    by (rule parsed_cases [OF _ skip.hyps(2,3)])
      (rule reader_moves_safe [OF skip.prems(1)]; simp add: skip.hyps(1) cdc_defs client_part_def)
next
  case (listen x d pm buf s s')
  then have "parser_ok (msgParser (shared x))" by (simp add: safe_def)
  then show ?case
    by (rule parsed_cases [OF _ listen.hyps(2,3)])
      (rule reader_moves_safe [OF listen.prems(1)];
        simp add: listen.hyps(1) processMessage_async [OF listen.hyps(5,6)])
next
  case (deliver x d pm buf s)
  then have "parser_ok (msgParser (shared x))" by (simp add: safe_def)
  then show ?case
    by (rule parsed_cases [OF _ deliver.hyps(2,3)])
      (rule reader_moves_safe [OF deliver.prems(1)]; simp add: deliver.hyps(1))
next
  case (store_result x pm buf s)
  from store_result.hyps show ?case
    by (intro reader_moves_safe [OF store_result.prems(1)])
      (use store_result.prems(1) in \<open>auto simp: safe_def client_part_def\<close>)
next
  case (store_message x pm buf s)
  from store_message.hyps show ?case
    by (intro reader_moves_safe [OF store_message.prems(1)])
      (use store_message.prems(1) in \<open>auto simp: safe_def client_part_def\<close>)
next
  case (signal x buf ev)
  then have "client x \<noteq> Gone" "usable (newMsgEvent (shared x))" by (auto simp: safe_def)
  with signal.hyps(2) have "usable ev" using set_law by fastforce
  with signal.hyps(1) signal.prems(1) show ?case
    using sendable_client_part [of "(shared x)\<lparr>newMsgEvent := ev\<rparr>" "shared x"] by (auto simp: safe_def)
next
  case (parse_fails x d e buf s)
  then have "parser_ok (msgParser (shared x))" by (simp add: safe_def)
  then show ?case by (rule parsed_cases [OF _ parse_fails.hyps(2,3)]) simp
next
  case (listen_fails x d pm buf s e s')
  with listening_never_fails [OF listen_fails.prems(1)] show ?case by blast
next
  case (signal_fails x buf e)
  with signalling_never_fails [OF signal_fails.prems(1)] show ?case by blast
next
  case (read_error x buf e)
  from catches_law [OF read_error.hyps(2)] obtain d where
    "catches T e (shared x) = (shared x)\<lparr>lastReceptionError := d, receptionStopped := True\<rparr>" by blast
  with read_error.hyps(1) read_error.prems(1) show ?case
    by (auto simp: safe_def sendable_def headers_ok_def transmit_ok_def)
next
  case (finish x buf)
  then show ?case by (auto simp: safe_def)
qed simp_all

lemma client_step_safe:
  assumes "session_step T x a y" and "safe usable (notices T) x" and "\<not> by_reader a"
  shows "safe usable (notices T) y"
  using assms
proof (induction rule: session_step.induct)
  case (start x c s)
  from start.hyps start.prems(1) show ?case
    using sends_law [OF start.hyps(4,3)] by (auto simp: safe_def getReceptionStopped_def)
next
  case (start_stopped x)
  then show ?case by (auto simp: safe_def)
next
  case (start_fails x c e s)
  from start_fails.hyps start_fails.prems(1) show ?case
    using sends_law [OF start_fails.hyps(4,3)] by (auto simp: safe_def getReceptionStopped_def)
next
  case (wake x c ev)
  then have u: "usable (newMsgEvent (shared x))" by (auto simp: safe_def)
  with wake.hyps(2) have "usable ev"
    using wait_unready [OF u] wait_ready [OF u] by (cases "notices T (newMsgEvent (shared x))") auto
  with wake.hyps wake.prems(1) show ?case
    using sendable_client_part [of "(shared x)\<lparr>newMsgEvent := ev\<rparr>" "shared x"] by (auto simp: safe_def)
next
  case (wait_fails x c e)
  then have u: "usable (newMsgEvent (shared x))" by (auto simp: safe_def)
  with wait_fails.hyps(2) have "documented e"
    using wait_ready [OF u] wait_unready [OF u]
    by (cases "notices T (newMsgEvent (shared x))") (auto simp: documented_def)
  with wait_fails.hyps wait_fails.prems(1) show ?case by (auto simp: safe_def)
next
  case (wait_interrupted x c e)
  with interrupts_law have "documented e" by (auto simp: documented_def)
  with wait_interrupted.hyps(1) wait_interrupted.prems(1) show ?case by (auto simp: safe_def)
next
  case (check x c s)
  with checkResponse_cases [OF check.hyps(2)] show ?case by (auto simp: safe_def)
next
  case (check_fails x c e s)
  with checkResponse_cases [OF check_fails.hyps(2)] show ?case by (auto simp: safe_def)
next
  case (look x c)
  then show ?case by (auto simp: safe_def)
next
  case (take x c)
  then show ?case by (auto simp: safe_def)
next
  case (take_code x c)
  then show ?case by (auto simp: safe_def)
next
  case (take_data x c)
  then show ?case by (auto simp: safe_def)
next
  case (decode x c m u)
  then show ?case by (auto simp: safe_def)
next
  case (decode_fails x c m e)
  with decoder_fails [OF decode_fails.hyps(2)] show ?case by (auto simp: safe_def)
next
  case (decode_data x c m u)
  then show ?case by (auto simp: safe_def)
next
  case (decode_data_fails x c m e)
  with decoder_fails [OF decode_data_fails.hyps(2)] show ?case by (auto simp: safe_def)
next
  case (decode_data_long x c m d n)
  then show ?case by (auto simp: safe_def)
next
  case (rest_returned x c)
  then show ?case by (auto simp: safe_def)
next
  case (rest_failed x e)
  then show ?case by (auto simp: safe_def)
next
  case (close x ev)
  then have u: "usable (readEndEvent (shared x))" by (auto simp: safe_def)
  with close.hyps(2) have "usable ev" "notices T ev" using set_law by fastforce+
  with close.hyps close.prems(1) show ?case
    using sendable_client_part [of "(shared x)\<lparr>readEndEvent := ev\<rparr>" "shared x"]
    by (auto simp: safe_def sendable_def headers_ok_def transmit_ok_def)
next
  case (close_fails x e)
  then have "usable (readEndEvent (shared x))" by (auto simp: safe_def)
  with close_fails.hyps(2) show ?case using set_law by fastforce
next
  case (join x)
  then show ?case by (auto simp: safe_def)
qed simp_all

lemma reached_safe:
  assumes "reached T allowed s x" and "sendable s" and "usable (newMsgEvent s)" and "usable (readEndEvent s)"
    and "parser_ok (msgParser s)"
  shows "safe usable (notices T) x"
  using assms(1)
proof (induction rule: reached.induct)
  case reached_start
  from assms(2-5) show ?case by (simp add: safe_def)
next
  case (reached_step x a y)
  then show ?case using reader_step_safe client_step_safe by blast
qed

text \<open>Nothing is done with an object that is gone.\<close>

lemma gone_is_final: "safe usable ready x \<Longrightarrow> client x = Gone \<Longrightarrow> \<not> session_step T x a y"
  by (auto simp: safe_def elim: session_step.cases)

text \<open>
  Once the destructor has signalled the end, the reading thread alone brings the object to its
  end, wherever it is, without another byte from the device.
\<close>

lemma finishes:
  assumes "notices T (readEndEvent s)"
  shows "\<exists>s'. session_run T \<lparr>client = Closing, reader = Collecting b, shared = s\<rparr>
    \<lparr>client = Gone, reader = Finished, shared = s'\<rparr>"
proof -
  let ?x = "\<lparr>client = Closing, reader = Collecting b, shared = s\<rparr>"
  have 1: "session_step T ?x Finish \<lparr>client = Closing, reader = Finished, shared = s\<rparr>"
    using finish [of ?x b T] assms by simp
  have 2: "session_step T \<lparr>client = Closing, reader = Finished, shared = s\<rparr> Join
      \<lparr>client = Gone, reader = Finished, shared = close_all T s\<rparr>"
    using join [of "\<lparr>client = Closing, reader = Finished, shared = s\<rparr>" T] by simp
  show ?thesis by (rule exI, rule run_step [OF 1 session_run_step [OF 2]])
qed

lemma processing_finishes:
  assumes "notices T (readEndEvent s)" and "usable (newMsgEvent s)" and "parser_ok (msgParser s)"
  shows "\<exists>s'. session_run T \<lparr>client = Closing, reader = Processing d, shared = s\<rparr>
    \<lparr>client = Gone, reader = Finished, shared = s'\<rparr>"
proof -
  obtain b s' where p: "processAllMessages (sets T) d s = (Inr (), b, s')"
    using processAllMessages_refines [OF assms(2,3)] by blast
  have "notices T (readEndEvent s')"
    using end_event_kept [OF processAllMessages_client [OF p]] assms(1) by simp
  from finishes [OF this] obtain t where "session_run T \<lparr>client = Closing, reader = Collecting b, shared = s'\<rparr>
      \<lparr>client = Gone, reader = Finished, shared = t\<rparr>" by blast
  from session_run_trans [OF processAllMessages_run [OF p] this] show ?thesis by (rule exI)
qed

lemma signalling_finishes:
  assumes "notices T (readEndEvent s)" and "usable (newMsgEvent s)" and "parser_ok (msgParser s)"
  shows "\<exists>s'. session_run T \<lparr>client = Closing, reader = Signalling b, shared = s\<rparr>
    \<lparr>client = Gone, reader = Finished, shared = s'\<rparr>"
proof -
  let ?x = "\<lparr>client = Closing, reader = Signalling b, shared = s\<rparr>"
  obtain ev where ev: "sets T (newMsgEvent s) = Inr ev" "usable ev" using set_law [OF assms(2)] by blast
  have 1: "session_step T ?x Signal \<lparr>client = Closing, reader = Processing b, shared = s\<lparr>newMsgEvent := ev\<rparr>\<rparr>"
    using signal [of ?x b T ev] ev(1) by simp
  obtain t where "session_run T \<lparr>client = Closing, reader = Processing b, shared = s\<lparr>newMsgEvent := ev\<rparr>\<rparr>
      \<lparr>client = Gone, reader = Finished, shared = t\<rparr>"
    using processing_finishes [of "s\<lparr>newMsgEvent := ev\<rparr>" b] ev(2) assms(1,3) by auto
  from run_step [OF 1 this] show ?thesis by (rule exI)
qed

lemma stored_finishes:
  assumes "notices T (readEndEvent s)" and "usable (newMsgEvent s)" and "parser_ok (msgParser s)"
  shows "\<exists>s'. session_run T \<lparr>client = Closing, reader = Stored pm b, shared = s\<rparr>
    \<lparr>client = Gone, reader = Finished, shared = s'\<rparr>"
proof -
  let ?x = "\<lparr>client = Closing, reader = Stored pm b, shared = s\<rparr>"
    and ?s = "s\<lparr>lastResponse := (lastResponse s)\<lparr>message := message pm\<rparr>\<rparr>"
  have 1: "session_step T ?x Store \<lparr>client = Closing, reader = Signalling b, shared = ?s\<rparr>"
    using store_message [of ?x pm b s T] by simp
  obtain t where "session_run T \<lparr>client = Closing, reader = Signalling b, shared = ?s\<rparr>
      \<lparr>client = Gone, reader = Finished, shared = t\<rparr>"
    using signalling_finishes [of ?s b] assms by auto
  from run_step [OF 1 this] show ?thesis by (rule exI)
qed

lemma closing_completes:
  assumes "safe usable (notices T) x" and "client x = Closing"
  obtains y where "session_run T x y" and "client y = Gone"
proof -
  have ok: "notices T (readEndEvent (shared x))" "usable (newMsgEvent (shared x))"
    "parser_ok (msgParser (shared x))" using assms by (simp_all add: safe_def)
  have x: "x = \<lparr>client = Closing, reader = reader x, shared = shared x\<rparr>" using assms(2) by (cases x) simp
  have "\<exists>r s'. session_run T \<lparr>client = Closing, reader = reader x, shared = shared x\<rparr>
      \<lparr>client = Gone, reader = r, shared = s'\<rparr>"
  proof (cases "reader x")
    case (Storing pm b)
    let ?s = "(shared x)\<lparr>lastResponse := (lastResponse (shared x))\<lparr>parseResult := parseResult pm\<rparr>\<rparr>"
    have 1: "session_step T \<lparr>client = Closing, reader = Storing pm b, shared = shared x\<rparr> Store
        \<lparr>client = Closing, reader = Stored pm b, shared = ?s\<rparr>"
      using store_result [of "\<lparr>client = Closing, reader = Storing pm b, shared = shared x\<rparr>" pm b "shared x" T]
      by simp
    obtain t where "session_run T \<lparr>client = Closing, reader = Stored pm b, shared = ?s\<rparr>
        \<lparr>client = Gone, reader = Finished, shared = t\<rparr>"
      using stored_finishes [of ?s pm b] ok by auto
    from run_step [OF 1 this] show ?thesis unfolding Storing by (intro exI)
  next
    case Ended
    from join [of "\<lparr>client = Closing, reader = Ended, shared = shared x\<rparr>" T] show ?thesis
      unfolding Ended by (intro exI session_run_step) simp
  next
    case Finished
    from join [of "\<lparr>client = Closing, reader = Finished, shared = shared x\<rparr>" T] show ?thesis
      unfolding Finished by (intro exI session_run_step) simp
  next
    case (Collecting b)
    show ?thesis unfolding Collecting using finishes [OF ok(1), of b] by blast
  next
    case (Processing d)
    show ?thesis unfolding Processing using processing_finishes [OF ok, of d] by blast
  next
    case (Stored pm b)
    show ?thesis unfolding Stored using stored_finishes [OF ok, of pm b] by blast
  next
    case (Signalling b)
    show ?thesis unfolding Signalling using signalling_finishes [OF ok, of b] by blast
  qed
  with x that show thesis by (metis session.select_convs(1))
qed

lemma safe_sound: "safe usable (notices T) x \<Longrightarrow> sound T x"
  unfolding sound_def
proof (intro conjI allI impI)
  assume s: "safe usable (notices T) x"
  then show "client x \<noteq> Crashed" by (auto simp: safe_def)
  show "receptionStopped (shared x)" if "reader x = Ended" using s that by (simp add: safe_def)
  show "documented e \<or> decoder_error e" if "client x = Failed e" for e using s that by (simp add: safe_def)
  show "reader x \<in> {Finished, Ended}" if "client x = Gone" using s that by (simp add: safe_def)
  show "\<not> session_step T x a y" if "client x = Gone" for a y using gone_is_final [OF s that] .
  show "\<exists>y. session_run T x y \<and> client y = Gone" if "client x = Closing"
    using closing_completes [OF s that] by blast
qed

end

end
