(* ===== verification/Session_Order.thy ===== *)
theory Session_Order
  imports Session
begin

text \<open>
  The interleavings with a device that answers a command once and in time: an invariant of their
  steps, beside the one that all interleavings keep (theory \<open>Session\<close>).
\<close>

section \<open>Responses in a buffer\<close>

text \<open>However the bytes are taken apart, they hold at most so many responses.\<close>

definition responses_at_most :: "nat \<Rightarrow> ustring \<Rightarrow> bool" where
  "responses_at_most k d \<longleftrightarrow> (\<forall>ps b. framed d ps b \<longrightarrow> length (filter is_response ps) \<le> k)"

lemma framed_total: "\<exists>ps b. framed d ps b"
proof (induction "length d" arbitrary: d rule: less_induct)
  case less
  show ?case
  proof (cases "d = []")
    case True
    then show ?thesis using framed_empty by blast
  next
    case False
    show ?thesis
    proof (cases "starts_message (fix_head d)")
      case True
      then obtain T m rest where m: "fix_head d = m @ rest" "frame (length d) T m"
        by (auto simp: starts_message_def)
      have "length m + length rest = length d" using m(1) by (metis length_append length_fix_head)
      moreover have "m \<noteq> []" using frame_last [OF m(2)] by simp
      ultimately have "length rest < length d" by (cases m) auto
      from less [OF this] framed_message [OF m] show ?thesis by blast
    next
      case False
      with \<open>d \<noteq> []\<close> show ?thesis using framed_rest by blast
    qed
  qed
qed

lemma responses_less: "responses_at_most k d \<Longrightarrow> k \<le> n \<Longrightarrow> responses_at_most n d"
  unfolding responses_at_most_def using le_trans by blast

lemma responses_behind_message:
  assumes "responses_at_most k d" and "fix_head d = m @ rest" and "frame (length d) T m"
  shows "T = MSG_ASYNC \<Longrightarrow> responses_at_most k rest"
    and "T \<noteq> MSG_ASYNC \<Longrightarrow> k \<noteq> 0 \<and> responses_at_most (k - 1) rest"
proof -
  have step: "length (filter is_response (Message T m # ps)) \<le> k" if "framed rest ps b" for ps b
    using assms(1) framed_message [OF assms(2,3) that] unfolding responses_at_most_def by blast
  show "responses_at_most k rest" if "T = MSG_ASYNC"
    using step that by (auto simp: responses_at_most_def)
  show "k \<noteq> 0 \<and> responses_at_most (k - 1) rest" if "T \<noteq> MSG_ASYNC"
  proof
    from framed_total obtain ps b where "framed rest ps b" by blast
    with step that show "k \<noteq> 0" by fastforce
    from step that show "responses_at_most (k - 1) rest" by (fastforce simp: responses_at_most_def)
  qed
qed

lemma responses_behind_junk:
  assumes "responses_at_most k d" and "fix_head d = junk @ rest" and "junk \<noteq> []"
    and "\<not> starts_message (fix_head d)" and "last junk = CR \<or> rest = []"
  shows "responses_at_most k rest"
  unfolding responses_at_most_def
proof (intro allI impI)
  fix ps b assume "framed rest ps b"
  from framed_junk [OF assms(2-5) this] assms(1) show "length (filter is_response ps) \<le> k"
    by (fastforce simp: responses_at_most_def)
qed

text \<open>What the reading thread takes from its buffer is one piece of it.\<close>

lemma parsed_piece:
  assumes "parser_ok (msgParser s)" and "d \<noteq> []" and "parseNextMessage d s = (Inr pm, buf, s')"
  shows "resultType (parseResult pm) = PARSE_OK \<Longrightarrow>
      fix_head d = message pm @ erase_front (lastPosition (parseResult pm) + 1) buf \<and>
      frame (length d) (msgType (parseResult pm)) (message pm)"
    and "resultType (parseResult pm) = PARSE_BAD_FORMAT \<Longrightarrow> responses_at_most k d \<Longrightarrow>
      responses_at_most k (skip_bad buf (lastPosition (parseResult pm)))"
proof -
  obtain r s1 where parse: "parseNextMessage d s = (Inr \<lparr>message = (if resultType r = PARSE_OK
         then take (Suc (lastPosition r)) (fix_head d) else []), parseResult = r\<rparr>, fix_head d, s1)"
    and pos: "lastPosition r < length d"
    and ok: "resultType r = PARSE_OK \<Longrightarrow> frame (length d) (msgType r) (take (Suc (lastPosition r)) (fix_head d))"
    and no: "resultType r \<noteq> PARSE_OK \<Longrightarrow> \<not> starts_message (fix_head d)"
    using next_message [OF assms(1,2)] by blast
  then have pm: "parseResult pm = r" "buf = fix_head d"
    "resultType r = PARSE_OK \<Longrightarrow> message pm = take (Suc (lastPosition r)) (fix_head d)"
    using assms(3) by auto
  show "fix_head d = message pm @ erase_front (lastPosition (parseResult pm) + 1) buf \<and>
      frame (length d) (msgType (parseResult pm)) (message pm)"
    if "resultType (parseResult pm) = PARSE_OK"
    using that pm ok by (simp add: erase_front_def)
  show "responses_at_most k (skip_bad buf (lastPosition (parseResult pm)))"
    if bad: "resultType (parseResult pm) = PARSE_BAD_FORMAT" and k: "responses_at_most k d"
  proof -
    from pos have "lastPosition r < length (fix_head d)" by simp
    then obtain junk where "fix_head d = junk @ skip_bad (fix_head d) (lastPosition r)" "junk \<noteq> []"
      "last junk = CR \<or> skip_bad (fix_head d) (lastPosition r) = []" by (rule skip_bad_split)
    with responses_behind_junk [OF k] no bad pm show ?thesis by simp
  qed
qed

section \<open>Order\<close>

text \<open>
  The client waits for a response, and none has been signalled. The reading thread has a response
  that it has not signalled yet.
\<close>

definition expecting :: "('e \<Rightarrow> bool) \<Rightarrow> 'e session \<Rightarrow> bool" where
  "expecting ready x \<longleftrightarrow>
     (case client x of Waiting c \<Rightarrow> \<not> ready (newMsgEvent (shared x)) | _ \<Rightarrow> False)"

fun delivering :: "reader \<Rightarrow> bool" where
  "delivering (Storing pm buf) = True"
| "delivering (Stored pm buf) = True"
| "delivering (Signalling buf) = True"
| "delivering r = False"

definition has_response :: "reader \<Rightarrow> bool" where
  "has_response r \<longleftrightarrow>
     delivering r \<or> (case r of Processing d \<Rightarrow> \<not> responses_at_most 0 d | _ \<Rightarrow> False)"

text \<open>
  The conditions on the device and on time. The device: the bytes that have arrived hold a
  response only when they arrive while a command waits for one and has not been sent one yet, and
  then a single one; and they fit into memory. Time: the wait does not end by a time-out or an
  error while the reading thread is busy with the response, that is, the response has come early
  enough. A response that arrives after the time-out of its command is excluded, and so is one
  that arrives just before it. How the threads take their steps is not restricted otherwise.
\<close>

definition timely :: "('e \<Rightarrow> bool) \<Rightarrow> 'e session \<Rightarrow> action \<Rightarrow> bool" where
  "timely ready x a =
     (case a of
        Arrive bs \<Rightarrow>
          (case reader x of
             Collecting buf \<Rightarrow> length (buf @ bs) < 2 ^ 62 \<and>
               (responses_at_most 0 (buf @ bs) \<or> responses_at_most 1 (buf @ bs) \<and> expecting ready x)
           | _ \<Rightarrow> True)
      | Fail \<Rightarrow> (case client x of Waiting c \<Rightarrow> \<not> has_response (reader x) | _ \<Rightarrow> True)
      | _ \<Rightarrow> True)"

definition a_response :: "ParsedMessage \<Rightarrow> bool" where
  "a_response pm \<longleftrightarrow> msgType (parseResult pm) \<noteq> MSG_ASYNC \<and>
     (\<exists>n. frame n (msgType (parseResult pm)) (message pm)) \<and> length (message pm) < 2 ^ 62"

fun reader_ok :: "reader \<Rightarrow> 'e impl \<Rightarrow> bool" where
  "reader_ok (Collecting buf) s \<longleftrightarrow> length buf < 2 ^ 62 \<and> response_ok (last_shown s)"
| "reader_ok (Processing buf) s \<longleftrightarrow> length buf < 2 ^ 62 \<and> response_ok (last_shown s)"
| "reader_ok (Storing pm buf) s \<longleftrightarrow> length buf < 2 ^ 62 \<and> a_response pm"
| "reader_ok (Stored pm buf) s \<longleftrightarrow>
     length buf < 2 ^ 62 \<and> a_response pm \<and> parseResult (lastResponse s) = parseResult pm"
| "reader_ok (Signalling buf) s \<longleftrightarrow> length buf < 2 ^ 62 \<and> response_ok (last_shown s)"
| "reader_ok Ended s \<longleftrightarrow> response_ok (last_shown s)"
| "reader_ok Finished s \<longleftrightarrow> response_ok (last_shown s)"

text \<open>
  What the client may rely on: the type it has looked at answers its command, the decoder has been
  given a message of its own type, and only documented exceptions are thrown.
\<close>

fun client_ok :: "client \<Rightarrow> 'e impl \<Rightarrow> bool" where
  "client_ok (Waiting c) s \<longleftrightarrow> cmd_msgType c \<noteq> MSG_ERROR"
| "client_ok (Woken c) s \<longleftrightarrow> cmd_msgType c \<noteq> MSG_ERROR"
| "client_ok (Checked c) s \<longleftrightarrow> cmd_msgType c \<noteq> MSG_ERROR \<and> answers c (fst (last_shown s))"
| "client_ok (Looked c b) s \<longleftrightarrow>
     cmd_msgType c \<noteq> MSG_ERROR \<and> fst (last_shown s) = (if b then MSG_DOWNLOAD_DATA else cmd_msgType c)"
| "client_ok (Took c m) s \<longleftrightarrow> (\<exists>n. frame n (cmd_msgType c) m) \<and> length m < 2 ^ 62"
| "client_ok (Took_data c m) s \<longleftrightarrow> (\<exists>n. frame n MSG_DOWNLOAD_DATA m) \<and> length m < 2 ^ 62"
| "client_ok (Failed e) s \<longleftrightarrow> documented e"
| "client_ok Crashed s \<longleftrightarrow> False"
| "client_ok cl s \<longleftrightarrow> True"

fun looking :: "client \<Rightarrow> bool" where
  "looking (Woken c) = True"
| "looking (Checked c) = True"
| "looking (Looked c b) = True"
| "looking cl = False"

lemma answers_not_error: "answers c t \<Longrightarrow> cmd_msgType c \<noteq> MSG_ERROR \<Longrightarrow> t \<noteq> MSG_ERROR"
  by (auto simp: answers_def download_pair_def)

lemma client_ok_kept: "last_shown s' = last_shown s \<Longrightarrow> client_ok cl s \<Longrightarrow> client_ok cl s'"
  by (cases cl) auto

lemma client_ok_not_looking: "\<not> looking cl \<Longrightarrow> client_ok cl s \<Longrightarrow> client_ok cl s'"
  by (cases cl) auto

lemma response_kept:
  "lastResponse s' = lastResponse s \<Longrightarrow> reader_ok r s' = reader_ok r s"
  by (cases r) (auto simp: last_shown_def)

lemma taken_message:
  assumes "response_ok r" and "fst r = T" and "T \<noteq> MSG_ERROR"
  shows "(\<exists>n. frame n T (snd r)) \<and> length (snd r) < 2 ^ 62"
  using assms by (auto simp: response_ok_def)

lemma expecting_not_looking: "expecting ready x \<Longrightarrow> \<not> looking (client x)"
  by (cases "client x") (auto simp: expecting_def)

lemma expecting_kept:
  "expecting ready x \<Longrightarrow> newMsgEvent s = newMsgEvent (shared x) \<Longrightarrow>
     expecting ready (x\<lparr>reader := r, shared := s\<rparr>)"
  by (auto simp: expecting_def split: client.splits)

text \<open>
  The invariant: the last response is a message except while one is being stored, and as long as
  the reading thread has one, somebody waits for it who has not been told of it.
\<close>

fun buffered :: "reader \<Rightarrow> nat \<times> ustring" where
  "buffered (Collecting b) = (0, [])"
| "buffered (Processing d) = (1, d)"
| "buffered (Storing pm b) = (0, b)"
| "buffered (Stored pm b) = (0, b)"
| "buffered (Signalling b) = (0, b)"
| "buffered r = (0, [])"

definition tidy :: "('e \<Rightarrow> bool) \<Rightarrow> 'e session \<Rightarrow> bool" where
  "tidy ready x \<longleftrightarrow>
     reader_ok (reader x) (shared x) \<and> client_ok (client x) (shared x) \<and>
     (has_response (reader x) \<longrightarrow> expecting ready x) \<and>
     (case buffered (reader x) of (k, d) \<Rightarrow> responses_at_most k d)"

lemma nothing_responds: "responses_at_most k []"
  unfolding responses_at_most_def
proof (intro allI impI)
  fix ps b assume "framed [] ps b"
  then show "length (filter is_response ps) \<le> k"
    by (cases rule: framed_NilE) (use frame_last fix_head_def in auto)
qed

lemma has_response_simps [simp]:
  "has_response (Storing pm b)" "has_response (Stored pm b)" "has_response (Signalling b)"
  "\<not> has_response (Collecting b)" "\<not> has_response Ended" "\<not> has_response Finished"
  "has_response (Processing d) \<longleftrightarrow> \<not> responses_at_most 0 d"
  by (simp_all add: has_response_def)

section \<open>Steps\<close>

context two_threads
begin

text \<open>A step of the reading thread in its buffer that leaves the last response and the event alone.\<close>

lemma reader_moves_tidy:
  assumes "tidy ready x" and "reader x = Processing d" and "length b \<le> length d"
    and "lastResponse s = lastResponse (shared x)" and "newMsgEvent s = newMsgEvent (shared x)"
    and "\<And>k. responses_at_most k d \<Longrightarrow> responses_at_most k b"
  shows "tidy ready (x\<lparr>reader := Processing b, shared := s\<rparr>)"
proof -
  have "last_shown s = last_shown (shared x)" using assms(4) by (simp add: last_shown_def)
  with assms(1,2) have "client_ok (client x) s" using client_ok_kept [of s "shared x"] by (auto simp: tidy_def)
  moreover have "expecting ready (x\<lparr>reader := Processing b, shared := s\<rparr>)" if "\<not> responses_at_most 0 b"
    using that assms(1,2,6) by (intro expecting_kept [OF _ assms(5)]) (auto simp: tidy_def)
  ultimately show ?thesis
    using assms(1-3,6) \<open>last_shown s = last_shown (shared x)\<close> by (auto simp: tidy_def)
qed

lemma reader_step_tidy:
  assumes "session_step T x a y" and "safe usable (notices T) x" and "tidy (notices T) x"
    and "timely (notices T) x a" and "by_reader a"
  shows "tidy (notices T) y"
  using assms
proof (induction rule: session_step.induct)
  case (arrive x buf bs)
  have "responses_at_most 1 (buf @ bs)" if "responses_at_most 0 (buf @ bs)"
    by (rule responses_less [OF that]) simp
  with arrive.hyps arrive.prems(2,3) show ?case
    by (auto simp: tidy_def timely_def expecting_def nothing_responds split: client.splits)
next
  case (pause_empty x)
  from pause_empty.hyps pause_empty.prems(2) show ?case by (auto simp: tidy_def nothing_responds)
next
  case (pause x d pm buf s)
  then have "parser_ok (msgParser (shared x))" by (simp add: safe_def)
  then show ?case
  proof (rule parsed_cases [OF _ pause.hyps(2,3)])
    assume "lastResponse s = lastResponse (shared x)" and "length buf = length d"
    with pause.hyps(1) pause.prems(2) client_ok_kept [of s "shared x" "client x"] show ?thesis
      by (auto simp: tidy_def last_shown_def nothing_responds)
  qed
next
  case (skip x d pm buf s)
  then have p: "parser_ok (msgParser (shared x))" by (simp add: safe_def)
  then show ?case
    by (rule parsed_cases [OF _ skip.hyps(2,3)])
      (rule reader_moves_tidy [OF skip.prems(2) skip.hyps(1)];
        use skip_bad_bound [of buf] parsed_piece(2) [OF p skip.hyps(2,3,4)] in \<open>simp add: cdc_defs\<close>)
next
  case (listen x d pm buf s s')
  then have p: "parser_ok (msgParser (shared x))" by (simp add: safe_def)
  note piece = parsed_piece(1) [OF p listen.hyps(2,3,4), THEN conjunct1]
    parsed_piece(1) [OF p listen.hyps(2,3,4), THEN conjunct2]
  from p show ?case
    by (rule parsed_cases [OF _ listen.hyps(2,3)])
      (rule reader_moves_tidy [OF listen.prems(2) listen.hyps(1)];
        use responses_behind_message(1) [OF _ piece listen.hyps(5)] in
        \<open>simp add: processMessage_async [OF listen.hyps(5,6)] erase_front_def\<close>)
next
  case (deliver x d pm buf s)
  from deliver.prems(1) have p: "parser_ok (msgParser (shared x))" by (simp add: safe_def)
  note piece = parsed_piece(1) [OF p deliver.hyps(2,3,4), THEN conjunct1]
    parsed_piece(1) [OF p deliver.hyps(2,3,4), THEN conjunct2]
  let ?b = "erase_front (lastPosition (parseResult pm) + 1) buf"
  from deliver.prems(2) deliver.hyps(1) have d: "responses_at_most 1 d" "length d < 2 ^ 62"
    "client_ok (client x) (shared x)" by (simp_all add: tidy_def)
  have "\<not> responses_at_most 0 d" using responses_behind_message(2) [OF _ piece deliver.hyps(5)] by blast
  with deliver.prems(2) deliver.hyps(1) have e: "expecting (notices T) x" by (simp add: tidy_def)
  have r: "responses_at_most 0 ?b" using responses_behind_message(2) [OF d(1) piece deliver.hyps(5)] by simp
  from p show ?case
  proof (rule parsed_cases [OF _ deliver.hyps(2,3)])
    fix pm' assume q: "Inr pm = Inr pm'" and s: "newMsgEvent s = newMsgEvent (shared x)"
      "lastResponse s = lastResponse (shared x)" "length buf = length d"
      and f: "resultType (parseResult pm') = PARSE_OK \<Longrightarrow>
        (\<exists>n. frame n (msgType (parseResult pm')) (message pm')) \<and> length (message pm') \<le> length d"
    from f d(2) deliver.hyps(4,5) q have "a_response pm" by (auto simp: a_response_def)
    moreover have "client_ok (client x) s"
      using client_ok_not_looking [OF expecting_not_looking [OF e] d(3)] .
    moreover have "expecting (notices T) (x\<lparr>reader := Storing pm ?b, shared := s\<rparr>)"
      by (rule expecting_kept [OF e s(1)])
    ultimately show ?thesis using r d(2) s(3) by (simp add: tidy_def erase_front_def)
  qed
next
  case (store_result x pm buf s)
  let ?s = "s\<lparr>lastResponse := (lastResponse s)\<lparr>parseResult := parseResult pm\<rparr>\<rparr>"
  from store_result.hyps store_result.prems(2) have e: "expecting (notices T) x" by (simp add: tidy_def)
  have "expecting (notices T) (x\<lparr>reader := Stored pm buf, shared := ?s\<rparr>)"
    by (rule expecting_kept [OF e]) (simp add: store_result.hyps)
  with store_result.hyps store_result.prems(2)
    client_ok_not_looking [OF expecting_not_looking [OF e], of "shared x" ?s]
  show ?case by (auto simp: tidy_def)
next
  case (store_message x pm buf s)
  let ?s = "s\<lparr>lastResponse := (lastResponse s)\<lparr>message := message pm\<rparr>\<rparr>"
  from store_message.hyps store_message.prems(2) have e: "expecting (notices T) x" by (simp add: tidy_def)
  have "expecting (notices T) (x\<lparr>reader := Signalling buf, shared := ?s\<rparr>)"
    by (rule expecting_kept [OF e]) (simp add: store_message.hyps)
  with store_message.hyps store_message.prems(2)
    client_ok_not_looking [OF expecting_not_looking [OF e], of "shared x" ?s]
  show ?case by (auto simp: tidy_def last_shown_def response_ok_def a_response_def)
next
  case (signal x buf ev)
  from signal.hyps signal.prems(2) have e: "expecting (notices T) x" by (simp add: tidy_def)
  with signal.hyps signal.prems(2) responses_less [of 0 buf 1]
    client_ok_not_looking [OF expecting_not_looking [OF e], of "shared x" "(shared x)\<lparr>newMsgEvent := ev\<rparr>"]
  show ?case by (auto simp: tidy_def)
next
  case (parse_fails x d e buf s)
  then have "parser_ok (msgParser (shared x))" by (simp add: safe_def)
  then show ?case by (rule parsed_cases [OF _ parse_fails.hyps(2,3)]) simp
next
  case (listen_fails x d pm buf s e s')
  with listening_never_fails [OF listen_fails.prems(1)] show ?case by blast
next
  case (signal_fails x buf e)
  with signalling_never_fails [OF signal_fails.prems(1)] show ?case by blast
next
  case (read_error x buf e)
  from catches_law [OF read_error.hyps(2)] obtain d where
    "catches T e (shared x) = (shared x)\<lparr>lastReceptionError := d, receptionStopped := True\<rparr>" by blast
  with read_error.hyps(1) read_error.prems(2) client_ok_kept [of "catches T e (shared x)" "shared x" "client x"]
  show ?case by (auto simp: tidy_def last_shown_def nothing_responds)
next
  case (finish x buf)
  from finish.hyps finish.prems(2) show ?case by (auto simp: tidy_def nothing_responds)
qed simp_all

text \<open>
  A step of the client that leaves the last response alone, while no response is on its way, and
  the two readings of the last response.
\<close>

lemma client_moves_tidy:
  assumes "tidy ready x" and "\<not> has_response (reader x)" and "lastResponse s = lastResponse (shared x)"
    and "client_ok cl s"
  shows "tidy ready (x\<lparr>client := cl, shared := s\<rparr>)"
  using assms response_kept [OF assms(3), of "reader x"] by (auto simp: tidy_def)

lemma not_waiting: "tidy ready x \<Longrightarrow> (\<And>c. client x \<noteq> Waiting c) \<Longrightarrow> \<not> has_response (reader x)"
  by (auto simp: tidy_def expecting_def split: client.splits)

lemma taking_tidy:
  assumes "tidy ready x" and "looking (client x)"
  shows "response_ok (last_shown (shared x))"
proof -
  have "\<not> has_response (reader x)" by (rule not_waiting [OF assms(1)]) (use assms(2) in auto)
  with assms(1) show ?thesis by (cases "reader x") (auto simp: tidy_def)
qed

lemma client_step_tidy:
  assumes "session_step T x a y" and "safe usable (notices T) x" and "tidy (notices T) x"
    and "timely (notices T) x a" and "\<not> by_reader a"
  shows "tidy (notices T) y"
  using assms
proof (induction rule: session_step.induct)
  case (start x c s)
  then have u: "sendable (shared x)" "usable (newMsgEvent (shared x))" by (auto simp: safe_def)
  show ?case
    by (rule client_moves_tidy [OF start.prems(2) not_waiting [OF start.prems(2)]])
      (use start.hyps(1,3) sends_law [OF start.hyps(4,3) u] in simp_all)
next
  case (start_stopped x)
  from start_stopped.hyps start_stopped.prems(2) not_waiting [OF start_stopped.prems(2)]
  show ?case by (simp add: tidy_def documented_def)
next
  case (start_fails x c e s)
  then have u: "sendable (shared x)" "usable (newMsgEvent (shared x))" by (auto simp: safe_def)
  show ?case
    by (rule client_moves_tidy [OF start_fails.prems(2) not_waiting [OF start_fails.prems(2)]])
      (use start_fails.hyps(1,3) sends_law [OF start_fails.hyps(4,3) u] in simp_all)
next
  case (wake x c ev)
  then have u: "usable (newMsgEvent (shared x))" by (auto simp: safe_def)
  with wake.hyps(2) have "notices T (newMsgEvent (shared x))"
    using wait_unready [OF u] by fastforce
  with wake.hyps(1) wake.prems(2) have "\<not> has_response (reader x)" by (auto simp: tidy_def expecting_def)
  then show ?case
    by (rule client_moves_tidy [OF wake.prems(2)]) (use wake.hyps(1) wake.prems(2) in \<open>auto simp: tidy_def\<close>)
next
  case (wait_fails x c e)
  then have u: "usable (newMsgEvent (shared x))" by (auto simp: safe_def)
  with wait_fails.hyps(2) have "documented e"
    using wait_ready [OF u] wait_unready [OF u]
    by (cases "notices T (newMsgEvent (shared x))") (auto simp: documented_def)
  with wait_fails.hyps(1) wait_fails.prems(2,3) show ?case by (auto simp: tidy_def timely_def)
next
  case (wait_interrupted x c e)
  from interrupts_law [OF wait_interrupted.hyps(2)] have "documented e" by (simp add: documented_def)
  with wait_interrupted.hyps(1) wait_interrupted.prems(2,3) show ?case by (auto simp: tidy_def timely_def)
next
  case (check x c s)
  from checkResponse_cases [OF check.hyps(2)] check.hyps(1) check.prems(2) not_waiting [OF check.prems(2)]
  show ?case by (auto simp: tidy_def)
next
  case (check_fails x c e s)
  from checkResponse_cases [OF check_fails.hyps(2)] check_fails.hyps(1) check_fails.prems(2)
    not_waiting [OF check_fails.prems(2)]
  show ?case by (auto simp: tidy_def)
next
  case (look x c)
  then have c: "cmd_msgType c \<noteq> MSG_ERROR" "answers c (fst (last_shown (shared x)))" by (simp_all add: tidy_def)
  with answers_type [OF c(2)] look.hyps look.prems(2) not_waiting [OF look.prems(2)]
  show ?case by (auto simp: tidy_def last_shown_def)
next
  case (take x c)
  then have c: "cmd_msgType c \<noteq> MSG_ERROR" "answers c (fst (last_shown (shared x)))" by (simp_all add: tidy_def)
  from taken_message [OF taking_tidy [OF take.prems(2)] answers_type [OF c(2)] c(1)] take.hyps
    take.prems(2) not_waiting [OF take.prems(2)]
  show ?case by (auto simp: tidy_def last_shown_def)
next
  case (take_code x c)
  then have "cmd_msgType c \<noteq> MSG_ERROR" "fst (last_shown (shared x)) = cmd_msgType c" by (simp_all add: tidy_def)
  from taken_message [OF taking_tidy [OF take_code.prems(2)] this(2,1)] take_code.hyps
    take_code.prems(2) not_waiting [OF take_code.prems(2)]
  show ?case by (auto simp: tidy_def last_shown_def)
next
  case (take_data x c)
  then have "fst (last_shown (shared x)) = MSG_DOWNLOAD_DATA" by (simp add: tidy_def)
  from taken_message [OF taking_tidy [OF take_data.prems(2)] this] take_data.hyps
    take_data.prems(2) not_waiting [OF take_data.prems(2)]
  show ?case by (auto simp: tidy_def last_shown_def)
next
  case (decode x c m u)
  from decode.hyps decode.prems(2) not_waiting [OF decode.prems(2)] show ?case by (simp add: tidy_def)
next
  case (decode_fails x c m e)
  from decode_fails.hyps(1) decode_fails.prems(2) obtain n where "frame n (cmd_msgType c) m" "length m < 2 ^ 62"
    by (auto simp: tidy_def)
  from decoder_accepts [OF this, of "msgParser (shared x)"] decode_fails.hyps(2) decode_fails.prems(1)
  show ?case by (simp add: safe_def)
next
  case (decode_data x c m u)
  from decode_data.hyps decode_data.prems(2) not_waiting [OF decode_data.prems(2)] show ?case by (simp add: tidy_def)
next
  case (decode_data_fails x c m e)
  from decode_data_fails.hyps(1) decode_data_fails.prems(2) obtain n where
    "frame n MSG_DOWNLOAD_DATA m" "length m < 2 ^ 62" by (auto simp: tidy_def)
  from decoder_accepts [OF this, of "msgParser (shared x)"] decode_data_fails.hyps(2) decode_data_fails.prems(1)
  show ?case by (simp add: safe_def)
next
  case (decode_data_long x c m d n)
  from decode_data_long.hyps decode_data_long.prems(2) not_waiting [OF decode_data_long.prems(2)]
  show ?case by (simp add: tidy_def)
next
  case (rest_returned x c)
  from rest_returned.hyps rest_returned.prems(2) not_waiting [OF rest_returned.prems(2)] show ?case
    by (simp add: tidy_def)
next
  case (rest_failed x e)
  from rest_failed.hyps rest_failed.prems(2) not_waiting [OF rest_failed.prems(2)] show ?case
    by (simp add: tidy_def)
next
  case (close x ev)
  show ?case
    by (rule client_moves_tidy [OF close.prems(2) not_waiting [OF close.prems(2)]])
      (use close.hyps(1) in simp_all)
next
  case (close_fails x e)
  then have "usable (readEndEvent (shared x))" by (auto simp: safe_def)
  with close_fails.hyps(2) show ?case using set_law by fastforce
next
  case (join x)
  show ?case
    by (rule client_moves_tidy [OF join.prems(2) not_waiting [OF join.prems(2)]])
      (use join.hyps(1) in simp_all)
qed simp_all

lemma reached_tidy:
  assumes "reached T (timely (notices T)) s x" and "sendable s" and "usable (newMsgEvent s)"
    and "usable (readEndEvent s)" and "parser_ok (msgParser s)" and "response_ok (last_shown s)"
  shows "tidy (notices T) x"
  using assms(1)
proof (induction rule: reached.induct)
  case reached_start
  from assms(6) show ?case by (simp add: tidy_def nothing_responds)
next
  case (reached_step x a y)
  from reached_safe [OF reached_step.hyps(1) assms(2-5)] reached_step show ?case
    using reader_step_tidy client_step_tidy by blast
qed

end

end
