(* ===== verification/Session_Answer.thy ===== *)
theory Session_Answer
  imports Session
begin

text \<open>
  Interleavings in which a device answers one command: runs with their actions, and an invariant
  for every order in which the bytes of the answer, the reading thread and the client may take
  their steps.
\<close>

section \<open>Traces\<close>

lemma traced_trans: "traced T y bs z \<Longrightarrow> traced T x as y \<Longrightarrow> traced T x (as @ bs) z"
proof (induction rule: traced.induct)
  case (traced_step bs y a z)
  with traced.traced_step [of T x "as @ bs" y a z] show ?case by simp
qed simp

lemma traced_one: "session_step T x a y \<Longrightarrow> traced T x [a] y"
  using traced_step [OF traced_start] by simp

lemma traced_Cons: "session_step T x a y \<Longrightarrow> traced T y as z \<Longrightarrow> traced T x (a # as) z"
  using traced_trans [OF _ traced_one] by fastforce

lemma reached_traced:
  "traced T x as y \<Longrightarrow> reached T P s x \<Longrightarrow> (\<And>z a. a \<in> set as \<Longrightarrow> P z a) \<Longrightarrow> reached T P s y"
  by (induction rule: traced.induct) (auto intro: reached_step)

text \<open>The last steps with a response, without any condition.\<close>

lemma stores_response:
  assumes "parser_ok (msgParser s)" and "d \<noteq> []" and "fix_head d = m @ rest" and "frame (length d) U m"
    and "U \<noteq> MSG_ASYNC"
  obtains r s' where "msgType r = U" and "parser_ok (msgParser s')" and "newMsgEvent s' = newMsgEvent s"
    and "client_part s' = client_part s" and "receptionStopped s' = receptionStopped s" and "lastResponse s' = \<lparr>message = m, parseResult = r\<rparr>"
    and "traced T \<lparr>client = cl, reader = Processing d, shared = s\<rparr> [Deliver, Store, Store]
      \<lparr>client = cl, reader = Signalling rest, shared = s'\<rparr>"
proof -
  let ?x = "\<lambda>r s. \<lparr>client = cl, reader = r, shared = s\<rparr>"
  obtain r s1 where r: "parseNextMessage d s = (Inr \<lparr>message = m, parseResult = r\<rparr>, m @ rest, s1)"
    "resultType r = PARSE_OK" "msgType r = U" "erase_front (lastPosition r + 1) (m @ rest) = rest"
    "parser_ok (msgParser s1)" "view s1 = view s" "newMsgEvent s1 = newMsgEvent s"
    by (rule next_frame [OF assms(1-4)]) blast
  have "receptionStopped s1 = receptionStopped s" using r(6) by (simp add: halted_view)
  let ?pm = "\<lparr>message = m, parseResult = r\<rparr>"
  let ?s2 = "s1\<lparr>lastResponse := (lastResponse s1)\<lparr>parseResult := r\<rparr>\<rparr>" and ?s3 = "s1\<lparr>lastResponse := ?pm\<rparr>"
  have 1: "session_step T (?x (Processing d) s) Deliver (?x (Storing ?pm rest) s1)"
    using deliver [of "?x (Processing d) s" d ?pm "m @ rest" s1 T] r assms(2,5) by simp
  have 2: "session_step T (?x (Storing ?pm rest) s1) Store (?x (Stored ?pm rest) ?s2)"
    using store_result [of "?x (Storing ?pm rest) s1" ?pm rest s1 T] by simp
  have 3: "session_step T (?x (Stored ?pm rest) ?s2) Store (?x (Signalling rest) ?s3)"
    using store_message [of "?x (Stored ?pm rest) ?s2" ?pm rest ?s2 T] by simp
  have "traced T (?x (Processing d) s) [Deliver, Store, Store] (?x (Signalling rest) ?s3)"
    by (rule traced_Cons [OF 1 traced_Cons [OF 2 traced_one [OF 3]]])
  with r(3,5,7) \<open>receptionStopped s1 = receptionStopped s\<close> parseNextMessage_client [OF r(1)] show thesis
    by (intro that [of r ?s3]) simp_all
qed

lemma takes_response:
  obtains as cl where "traced T \<lparr>client = Checked c, reader = r, shared = s\<rparr> (as @ [Take])
      \<lparr>client = cl, reader = r, shared = s\<rparr>"
    and "set as \<subseteq> {Look}"
    and "cl = (if is_download c \<and> msgType (parseResult (lastResponse s)) = MSG_DOWNLOAD_DATA
      then Took_data c (message (lastResponse s)) else Took c (message (lastResponse s)))"
proof (cases "is_download c")
  case False
  have "session_step T \<lparr>client = Checked c, reader = r, shared = s\<rparr> Take
      \<lparr>client = Took c (message (lastResponse s)), reader = r, shared = s\<rparr>"
    using take [of "\<lparr>client = Checked c, reader = r, shared = s\<rparr>" c T] False by simp
  from that [of "[]", OF _ _ refl] traced_one [OF this] False show thesis by simp
next
  case True
  let ?b = "msgType (parseResult (lastResponse s)) = MSG_DOWNLOAD_DATA"
  let ?y = "\<lparr>client = Looked c ?b, reader = r, shared = s\<rparr>"
  have 1: "session_step T \<lparr>client = Checked c, reader = r, shared = s\<rparr> Look ?y"
    using look [of "\<lparr>client = Checked c, reader = r, shared = s\<rparr>" c T] True by simp
  have "session_step T ?y Take (?y\<lparr>client := if ?b then Took_data c (message (lastResponse s))
      else Took c (message (lastResponse s))\<rparr>)"
    using take_data [of ?y c T] take_code [of ?y c T] by (cases ?b) simp_all
  from that [of "[Look]", OF _ _ refl] traced_Cons [OF 1 traced_one [OF this]] True show thesis by simp
qed

context two_threads
begin

lemma checks_response:
  assumes "usable (newMsgEvent s)" and "answers c (fst (last_shown s))"
  obtains ev where "usable ev" and "traced T \<lparr>client = Waiting c, reader = Signalling b, shared = s\<rparr>
    [Signal, Wake, Check] \<lparr>client = Checked c, reader = Processing b, shared = s\<lparr>newMsgEvent := ev\<rparr>\<rparr>"
proof -
  let ?x = "\<lambda>cl r s. \<lparr>client = cl, reader = r, shared = s\<rparr>"
  obtain ev where ev: "sets T (newMsgEvent s) = Inr ev" "usable ev" "notices T ev"
    using set_law [OF assms(1)] by blast
  obtain ev' where ev': "waits T ev = Inr ev'" "usable ev'" using wait_ready [OF ev(2,3)] by blast
  let ?s = "s\<lparr>newMsgEvent := ev\<rparr>" and ?s' = "s\<lparr>newMsgEvent := ev'\<rparr>"
  have 1: "session_step T (?x (Waiting c) (Signalling b) s) Signal (?x (Waiting c) (Processing b) ?s)"
    using signal [of "?x (Waiting c) (Signalling b) s" b T ev] ev(1) by simp
  have 2: "session_step T (?x (Waiting c) (Processing b) ?s) Wake (?x (Woken c) (Processing b) ?s')"
    using wake [of "?x (Waiting c) (Processing b) ?s" c T ev'] ev'(1) by simp
  have "checkResponse c ?s' = (Inr (), ?s')"
    using assms(2) by (auto simp: checkResponse_def answers_def last_shown_def)
  then have 3: "session_step T (?x (Woken c) (Processing b) ?s') Check (?x (Checked c) (Processing b) ?s')"
    using session_step.check [of "?x (Woken c) (Processing b) ?s'" c ?s' T] by simp
  show thesis
    by (rule that [OF ev'(2)]) (rule traced_Cons [OF 1 traced_Cons [OF 2 traced_one [OF 3]]])
qed

end

section \<open>The bytes of an answer\<close>

text \<open>
  The buffer and the bytes still to come hold the messages \<open>fs\<close>, all self-delimiting or a single
  one: while bytes are collected, no message is complete; in the buffer that is processed, some may
  be.
\<close>

definition collected :: "(MessageType \<times> ustring) list \<Rightarrow> ustring \<Rightarrow> ustring \<Rightarrow> bool" where
  "collected fs b coming \<longleftrightarrow> awaits fs b coming \<and> length (b @ coming) < 2 ^ 31"

definition processed :: "(MessageType \<times> ustring) list \<Rightarrow> ustring \<Rightarrow> ustring \<Rightarrow> bool" where
  "processed fs d coming \<longleftrightarrow> length (d @ coming) < 2 ^ 31 \<and>
     ((\<exists>ws. list_all2 on_wire fs ws \<and> d @ coming = concat ws) \<or>
      (\<exists>U m. fs = [(U, m)] \<and> alone U m \<and> fix_head d = m \<and> coming = []))"

lemma processed_cases:
  assumes "processed fs d coming"
  obtains ws where "list_all2 on_wire fs ws" and "d @ coming = concat ws"
  | U m where "fs = [(U, m)]" and "alone U m" and "fix_head d = m" and "coming = []"
  using assms unfolding processed_def by blast

lemma collected_complete:
  assumes "collected fs buf (bs @ coming)" and "CR \<in> set (buf @ bs)"
  shows "processed fs (buf @ bs) coming"
proof -
  from assms(1) have l: "length ((buf @ bs) @ coming) < 2 ^ 31" and a: "awaits fs buf (bs @ coming)"
    by (simp_all add: collected_def)
  from a show ?thesis
  proof (cases rule: awaits_cases)
    case (2 U m)
    have "buf @ bs \<noteq> []" using assms(2) by auto
    with alone_part [OF 2(2) _ this, of coming] 2(3) assms(2) have "coming = []" by simp
    with 2 l show ?thesis by (simp add: processed_def)
  qed (use l in \<open>auto simp: processed_def\<close>)
qed

lemma collected_incomplete:
  assumes "collected fs buf (bs @ coming)" and "CR \<notin> set (buf @ bs) \<or> (\<exists>b. bs = [b] \<and> b \<noteq> CR)"
  shows "collected fs (buf @ bs) coming"
  using assms awaits_no_CR [of fs buf bs coming] awaits_byte [of fs buf _ coming]
  by (auto simp: collected_def)

lemma collected_end: "collected fs b [] \<Longrightarrow> fs = []"
  using awaits_end by (auto simp: collected_def)

lemma processed_end:
  assumes "processed fs [] coming"
  shows "collected fs [] coming"
  using assms
proof (cases rule: processed_cases)
  case (1 ws)
  with awaits_start [OF 1(1)] assms show ?thesis by (simp add: collected_def processed_def)
next
  case (2 U m)
  then show ?thesis using frame_last [of "length m" U m] by (simp add: alone_def fix_head_def)
qed

lemma processed_nonempty: "processed fs d [] \<Longrightarrow> fs \<noteq> [] \<Longrightarrow> d \<noteq> []"
  using processed_end collected_end by blast

text \<open>What the reading thread finds: the next message, or none yet.\<close>

lemma processed_next:
  assumes "processed fs d coming" and "d \<noteq> []" and ok: "parser_ok (msgParser s)"
    and parse: "parseNextMessage d s = (Inr pm, buf, s')"
  obtains U m fs' where "resultType (parseResult pm) = PARSE_OK" and "fs = (U, m) # fs'"
      and "message pm = m" and "msgType (parseResult pm) = U"
      and "fix_head d = m @ erase_front (lastPosition (parseResult pm) + 1) buf" and "frame (length d) U m"
      and "processed fs' (erase_front (lastPosition (parseResult pm) + 1) buf) coming"
  | "resultType (parseResult pm) = PARSE_NOT_COMPLETE" and "collected fs buf coming"
  using assms(1)
proof (cases rule: processed_cases)
  case (2 U m)
  then have m: "fix_head d = m @ []" "frame (length d) U m" "coming = []" by (auto simp: alone_def)
  obtain r s1 where "parseNextMessage d s = (Inr \<lparr>message = m, parseResult = r\<rparr>, m @ [], s1)"
    "resultType r = PARSE_OK" "msgType r = U" "erase_front (lastPosition r + 1) (m @ []) = []"
    by (rule next_frame [OF ok assms(2) m(1,2)])
  moreover have "processed [] [] coming" using m(3) by (simp add: processed_def)
  ultimately show thesis using parse 2(1) m by (intro that(1) [of U m "[]"]) auto
next
  case (1 ws)
  have "(d @ []) @ coming = concat ws" using 1(2) by simp
  then obtain fs1 fs2 ws1 ws2 q where q: "fs = fs1 @ fs2" "list_all2 on_wire fs1 ws1"
    "list_all2 on_wire fs2 ws2" "d @ [] = concat ws1 @ q" "begins q ws2" "q @ coming = concat ws2"
    by (rule awaits_split [OF 1(1)])
  show thesis
  proof (cases ws1)
    case (Cons w ws1')
    with q(2) obtain U m fs1' where f: "fs1 = (U, m) # fs1'" "on_wire (U, m) w" "list_all2 on_wire fs1' ws1'"
      by (auto simp: list_all2_Cons2)
    let ?rest = "concat ws1' @ q"
    have d: "d = w @ ?rest" using q(4) Cons by simp
    obtain r s1 where r: "parseNextMessage d s = (Inr \<lparr>message = m, parseResult = r\<rparr>, m @ ?rest, s1)"
      "resultType r = PARSE_OK" "msgType r = U" "erase_front (lastPosition r + 1) (m @ ?rest) = ?rest"
      unfolding d by (rule next_on_wire [OF ok f(2)])
    have "list_all2 on_wire (fs1' @ fs2) (ws1' @ ws2)" by (rule list_all2_appendI [OF f(3) q(3)])
    moreover have "?rest @ coming = concat (ws1' @ ws2)" using q(6) by simp
    moreover have "length (?rest @ coming) < 2 ^ 31" using assms(1) d by (simp add: processed_def)
    ultimately have "processed (fs1' @ fs2) ?rest coming" unfolding processed_def by blast
    with r parse q(1) f(1) on_wire_frame [OF f(2), of ?rest] d show thesis
      by (intro that(1) [of U m "fs1' @ fs2"]) auto
  next
    case Nil
    with q(2,4) have d: "fs = fs2" "d = q" using q(1) by auto
    with assms(2) q(5) obtain w ws2' u where w: "ws2 = w # ws2'" "w = q @ u" "u \<noteq> []"
      by (auto simp: begins_def split: list.splits)
    with q(3) obtain f where "on_wire f w" by (auto simp: list_all2_Cons2)
    then have "self_delimiting (fst f) (fix_head d @ u)"
      using w(2) d(2) assms(2) by (simp add: on_wire_def fix_head_append)
    from parseData_waits [OF ok this w(3)] obtain r p' where
      "parseData (msgParser s) (fix_head d) = Inr (r, p')" "resultType r = PARSE_NOT_COMPLETE" by blast
    with parse have "resultType (parseResult pm) = PARSE_NOT_COMPLETE" "buf = fix_head d"
      by (auto simp: parseNextMessage_def Let_def)
    with awaits_fixed [OF q(3,5,6)] d assms(1) show thesis
      by (intro that(2)) (simp_all add: collected_def processed_def)
  qed
qed

lemma answered_collected:
  assumes "answered_by c (U, m) fs stream"
  shows "awaits fs [] stream" and "U \<noteq> MSG_ASYNC" and "answers c U"
    and "\<exists>before after. fs = before @ (U, m) # after \<and> (\<forall>f \<in> set (before @ after). fst f = MSG_ASYNC)"
    and "\<exists>n. frame n U m" and "length m \<le> length stream"
proof -
  from assms obtain before after where "fs = before @ (U, m) # after"
    "\<forall>f \<in> set (before @ after). fst f = MSG_ASYNC" "awaits fs [] stream" "answers c U" "U \<noteq> MSG_ASYNC"
    by (rule answered_awaits)
  then show "awaits fs [] stream" "U \<noteq> MSG_ASYNC" "answers c U"
    "\<exists>before after. fs = before @ (U, m) # after \<and> (\<forall>f \<in> set (before @ after). fst f = MSG_ASYNC)"
    by blast+
  from assms have "(\<exists>n. frame n U m) \<and> length m \<le> length stream"
  proof (cases rule: answered_by.cases)
    case (answered_among before after ws)
    then obtain ws1 w ws2 where w: "ws = ws1 @ w # ws2" "on_wire (U, m) w"
      by (auto simp: list_all2_append1 list_all2_Cons1)
    then have "frame 0 U m" "length m = length w"
      using self_delimiting_frame by (auto simp: on_wire_def)
    with w(1) answered_among(2) show ?thesis by auto
  next
    case answered_alone
    then show ?thesis by (auto simp: alone_def)
  qed
  then show "\<exists>n. frame n U m" and "length m \<le> length stream" by auto
qed

section \<open>The client of one command\<close>

text \<open>
  What a client of command \<open>c\<close> may have got when the device has answered it with the message
  \<open>(U, m)\<close>: nothing yet, this message for the decoder of its type, the decoder's result, or an
  exception of the wait. No other exception, and no other bytes.
\<close>

definition wait_error :: "'e threads \<Rightarrow> thrown \<Rightarrow> bool" where
  "wait_error T e \<longleftrightarrow> (\<exists>ev. waits T ev = Inl e) \<or> interrupts T e"

fun served :: "'e threads \<Rightarrow> Command \<Rightarrow> MessageType \<times> ustring \<Rightarrow> client \<Rightarrow> bool" where
  "served T c (U, m) (Waiting d) \<longleftrightarrow> d = c"
| "served T c (U, m) (Woken d) \<longleftrightarrow> d = c"
| "served T c (U, m) (Checked d) \<longleftrightarrow> d = c"
| "served T c (U, m) (Looked d b) \<longleftrightarrow> d = c \<and> b = (U = MSG_DOWNLOAD_DATA)"
| "served T c (U, m) (Took d n) \<longleftrightarrow> d = c \<and> n = m \<and> U = cmd_msgType c"
| "served T c (U, m) (Took_data d n) \<longleftrightarrow> d = c \<and> n = m \<and> U = MSG_DOWNLOAD_DATA"
| "served T c (U, m) (Returned d) \<longleftrightarrow> d = c"
| "served T c (U, m) (Failed e) \<longleftrightarrow>
     wait_error T e \<or> (\<exists>d n. U = MSG_DOWNLOAD_DATA \<and> getParsedPMData m = Inr d \<and> n \<le> length d \<and> e = too_long d n)"
| "served T c (U, m) cl \<longleftrightarrow> False"

text \<open>Before the answer has been signalled, and after it has been stored.\<close>

definition early :: "'e threads \<Rightarrow> Command \<Rightarrow> 'e session \<Rightarrow> bool" where
  "early T c x \<longleftrightarrow> \<not> notices T (newMsgEvent (shared x)) \<and>
     (client x = Waiting c \<or> (\<exists>e. client x = Failed e \<and> wait_error T e))"

definition late :: "'e threads \<Rightarrow> Command \<Rightarrow> MessageType \<times> ustring \<Rightarrow> 'e session \<Rightarrow> bool" where
  "late T c f x \<longleftrightarrow> last_shown (shared x) = f \<and> served T c f (client x) \<and>
     (client x = Waiting c \<longrightarrow> notices T (newMsgEvent (shared x)))"

definition asynchronous :: "(MessageType \<times> ustring) list \<Rightarrow> bool" where
  "asynchronous fs \<longleftrightarrow> (\<forall>f \<in> set fs. fst f = MSG_ASYNC)"

definition stage :: "'e threads \<Rightarrow> Command \<Rightarrow> MessageType \<times> ustring \<Rightarrow>
     (MessageType \<times> ustring) list \<Rightarrow> 'e session \<Rightarrow> bool" where
  "stage T c f fs x \<longleftrightarrow>
     early T c x \<and> (\<exists>before after. fs = before @ f # after \<and> asynchronous (before @ after)) \<or>
     late T c f x \<and> asynchronous fs"

text \<open>The invariant, for a reading thread that has \<open>coming\<close> still to come.\<close>

fun answering :: "'e threads \<Rightarrow> Command \<Rightarrow> MessageType \<times> ustring \<Rightarrow> ustring \<Rightarrow> reader \<Rightarrow> 'e session \<Rightarrow> bool"
  where
  "answering T c f coming (Collecting b) x \<longleftrightarrow> (\<exists>fs. collected fs b coming \<and> stage T c f fs x)"
| "answering T c f coming (Processing d) x \<longleftrightarrow> (\<exists>fs. processed fs d coming \<and> stage T c f fs x)"
| "answering T c f coming (Storing pm b) x \<longleftrightarrow>
     (\<exists>fs. processed fs b coming \<and> asynchronous fs) \<and> early T c x \<and>
     (msgType (parseResult pm), message pm) = f"
| "answering T c f coming (Stored pm b) x \<longleftrightarrow>
     (\<exists>fs. processed fs b coming \<and> asynchronous fs) \<and> early T c x \<and>
     (msgType (parseResult pm), message pm) = f \<and> parseResult (lastResponse (shared x)) = parseResult pm"
| "answering T c f coming (Signalling b) x \<longleftrightarrow>
     (\<exists>fs. processed fs b coming \<and> asynchronous fs) \<and> early T c x \<and> last_shown (shared x) = f"
| "answering T c f coming Ended x \<longleftrightarrow> early T c x \<or> late T c f x"
| "answering T c f coming Finished x \<longleftrightarrow> early T c x \<or> late T c f x"

lemma early_served: "early T c x \<Longrightarrow> served T c f (client x)"
  by (cases f) (auto simp: early_def)

lemma answering_stages: "answering T c f coming r x \<Longrightarrow> early T c x \<or> late T c f x"
  by (cases r) (auto simp: stage_def)

lemma answering_kept:
  assumes "answering T c f coming r x" and "lastResponse (shared y) = lastResponse (shared x)"
    and "early T c x \<Longrightarrow> early T c y" and "late T c f x \<Longrightarrow> late T c f y"
  shows "answering T c f coming r y"
  using assms by (cases r) (auto simp: stage_def last_shown_def)

lemma reader_stages:
  assumes "client y = client x" and "newMsgEvent (shared y) = newMsgEvent (shared x)"
  shows "early T c x \<Longrightarrow> early T c y"
    and "lastResponse (shared y) = lastResponse (shared x) \<Longrightarrow> late T c f x \<Longrightarrow> late T c f y"
  using assms by (auto simp: early_def late_def last_shown_def)

lemma reader_stage:
  "stage T c f fs x \<Longrightarrow> client y = client x \<Longrightarrow> newMsgEvent (shared y) = newMsgEvent (shared x) \<Longrightarrow>
     lastResponse (shared y) = lastResponse (shared x) \<Longrightarrow> stage T c f fs y"
  using reader_stages(1) [of y x T c] reader_stages(2) [of y x T c f] by (auto simp: stage_def)

text \<open>The next message is asynchronous or the answer.\<close>

lemma stage_Cons:
  assumes "stage T c f (g # fs) x"
  shows "fst f \<noteq> MSG_ASYNC \<Longrightarrow> fst g = MSG_ASYNC \<Longrightarrow> stage T c f fs x"
    and "fst g \<noteq> MSG_ASYNC \<Longrightarrow> g = f \<and> early T c x \<and> asynchronous fs"
proof -
  consider before after where "early T c x" "g # fs = before @ f # after" "asynchronous (before @ after)"
    | "late T c f x" "asynchronous (g # fs)"
    using assms by (auto simp: stage_def)
  then have "(fst f \<noteq> MSG_ASYNC \<longrightarrow> fst g = MSG_ASYNC \<longrightarrow> stage T c f fs x) \<and>
      (fst g \<noteq> MSG_ASYNC \<longrightarrow> g = f \<and> early T c x \<and> asynchronous fs)"
  proof cases
    case (1 before after)
    show ?thesis
    proof (cases before)
      case (Cons b bs)
      with 1 have "stage T c f fs x" unfolding stage_def asynchronous_def by fastforce
      with 1(2,3) Cons show ?thesis by (simp add: asynchronous_def)
    qed (use 1 in \<open>auto simp: asynchronous_def\<close>)
  qed (auto simp: stage_def asynchronous_def)
  then show "fst f \<noteq> MSG_ASYNC \<Longrightarrow> fst g = MSG_ASYNC \<Longrightarrow> stage T c f fs x"
    and "fst g \<noteq> MSG_ASYNC \<Longrightarrow> g = f \<and> early T c x \<and> asynchronous fs" by auto
qed

text \<open>
  The way from there to the client: once all bytes have arrived, the two threads alone bring the
  answer to the client that still waits.
\<close>

definition gets :: "'e threads \<Rightarrow> Command \<Rightarrow> MessageType \<times> ustring \<Rightarrow> 'e session \<Rightarrow> bool" where
  "gets T c f x \<longleftrightarrow> (\<exists>as z. traced T x as z \<and> arrivals as = [] \<and> Rest \<notin> set as \<and>
     client z = (if fst f = cmd_msgType c then Took c (snd f) else Took_data c (snd f)))"

lemma gets_Cons:
  assumes "session_step T x a y" and "arrived a = []" and "a \<noteq> Rest" and "gets T c f y"
  shows "gets T c f x"
proof -
  from assms(4) obtain as z where "traced T y as z" "arrivals as = []" "Rest \<notin> set as"
    "client z = (if fst f = cmd_msgType c then Took c (snd f) else Took_data c (snd f))"
    by (auto simp: gets_def)
  with traced_Cons [OF assms(1)] assms(2,3) show ?thesis
    unfolding gets_def by (intro exI [of _ "a # as"] exI [of _ z]) (auto simp: arrivals_def)
qed

lemma gets_checked:
  assumes "client x = Checked c" and "last_shown (shared x) = (U, m)" and "answers c U"
  shows "gets T c (U, m) x"
proof -
  obtain as cl where t: "traced T \<lparr>client = Checked c, reader = reader x, shared = shared x\<rparr> (as @ [Take])
      \<lparr>client = cl, reader = reader x, shared = shared x\<rparr>"
    and as: "set as \<subseteq> {Look}"
    and cl: "cl = (if is_download c \<and> msgType (parseResult (lastResponse (shared x))) = MSG_DOWNLOAD_DATA
      then Took_data c (message (lastResponse (shared x))) else Took c (message (lastResponse (shared x))))"
    by (rule takes_response)
  have l: "msgType (parseResult (lastResponse (shared x))) = U" "message (lastResponse (shared x)) = m"
    using assms(2) by (simp_all add: last_shown_def)
  have "is_download c \<and> U = MSG_DOWNLOAD_DATA \<longleftrightarrow> U \<noteq> cmd_msgType c"
    using answers_type [OF assms(3)] by (cases "U = cmd_msgType c") (auto simp: is_download_def)
  then have "cl = (if U = cmd_msgType c then Took c m else Took_data c m)" unfolding cl l by simp
  moreover have "arrivals (as @ [Take]) = []" using as by (induction as) (auto simp: arrivals_def)
  moreover have "Rest \<notin> set (as @ [Take])" using as by auto
  moreover have "\<lparr>client = Checked c, reader = reader x, shared = shared x\<rparr> = x" using assms(1) by (cases x) simp
  ultimately show ?thesis using t unfolding gets_def by fastforce
qed

text \<open>What the client has, and that the answer still reaches it.\<close>

definition answer_reaches :: "'e threads \<Rightarrow> Command \<Rightarrow> MessageType \<times> ustring \<Rightarrow> ustring \<Rightarrow> 'e session \<Rightarrow> bool"
  where
  "answer_reaches T c f coming x \<longleftrightarrow> served T c f (client x) \<and>
     (client x = Waiting c \<and> reader x \<notin> {Ended, Finished} \<and> coming = [] \<longrightarrow> gets T c f x)"

section \<open>Steps\<close>

context two_threads
begin

lemma reader_step_answering:
  assumes "session_step T x a y" and "safe usable (notices T) x"
    and "answering T c f (arrived a @ coming) (reader x) x" and "fst f \<noteq> MSG_ASYNC" and "by_reader a"
  shows "answering T c f coming (reader y) y"
  using assms
proof (induction rule: session_step.induct)
  case (arrive x buf bs)
  then obtain fs where fs: "collected fs buf (bs @ coming)" "stage T c f fs x" by auto
  show ?case
  proof (cases "complete T buf bs")
    case True
    from collected_complete [OF fs(1) complete_law [OF True]]
      reader_stage [OF fs(2), of "x\<lparr>reader := Processing (buf @ bs)\<rparr>"] True
    show ?thesis by auto
  next
    case False
    have "length (buf @ bs) < 2 ^ 31" using fs(1) by (simp add: collected_def)
    from collected_incomplete [OF fs(1) incomplete_law [OF arrive.hyps(2) False this]]
      reader_stage [OF fs(2), of "x\<lparr>reader := Collecting (buf @ bs)\<rparr>"] False
    show ?thesis by auto
  qed
next
  case (pause_empty x)
  then obtain fs where fs: "processed fs [] coming" "stage T c f fs x" by auto
  with processed_end [OF fs(1)] reader_stage [OF fs(2), of "x\<lparr>reader := Collecting []\<rparr>"] show ?case by auto
next
  case (pause x d pm buf s)
  then have p: "parser_ok (msgParser (shared x))" by (simp add: safe_def)
  obtain fs where fs: "processed fs d coming" "stage T c f fs x" using pause.hyps(1) pause.prems(2) by auto
  from fs(1) pause.hyps(2) p pause.hyps(3) have a: "collected fs buf coming"
    by (rule processed_next) (use pause.hyps(4) in simp_all)
  from p show ?case
    by (rule parsed_cases [OF _ pause.hyps(2,3)])
      (use a reader_stage [OF fs(2), of "x\<lparr>reader := Collecting buf, shared := s\<rparr>"] in auto)
next
  case (skip x d pm buf s)
  then have p: "parser_ok (msgParser (shared x))" by (simp add: safe_def)
  obtain fs where "processed fs d coming" using skip.hyps(1) skip.prems(2) by auto
  then show ?case using skip.hyps(2) p skip.hyps(3)
    by (rule processed_next) (use skip.hyps(4) in simp_all)
next
  case (listen x d pm buf s s')
  then have p: "parser_ok (msgParser (shared x))" by (simp add: safe_def)
  let ?b = "erase_front (lastPosition (parseResult pm) + 1) buf"
  obtain fs where fs: "processed fs d coming" "stage T c f fs x" using listen.hyps(1) listen.prems(2) by auto
  from fs(1) listen.hyps(2) p listen.hyps(3) obtain m fs' where
    n: "fs = (MSG_ASYNC, m) # fs'" "processed fs' ?b coming"
    by (rule processed_next) (use listen.hyps(4,5) in simp_all)
  from stage_Cons(1) [OF fs(2) [unfolded n(1)] listen.prems(3)] have st: "stage T c f fs' x" by simp
  from p show ?case
    by (rule parsed_cases [OF _ listen.hyps(2,3)])
      (use n(2) reader_stage [OF st, of "x\<lparr>reader := Processing ?b, shared := s'\<rparr>"]
        processMessage_async [OF listen.hyps(5,6)] in auto)
next
  case (deliver x d pm buf s)
  then have p: "parser_ok (msgParser (shared x))" by (simp add: safe_def)
  let ?b = "erase_front (lastPosition (parseResult pm) + 1) buf"
  obtain fs where fs: "processed fs d coming" "stage T c f fs x" using deliver.hyps(1) deliver.prems(2) by auto
  from fs(1) deliver.hyps(2) p deliver.hyps(3) obtain fs' where
    n: "fs = (msgType (parseResult pm), message pm) # fs'" "processed fs' ?b coming"
    by (rule processed_next) (use deliver.hyps(4) in auto)
  from stage_Cons(2) [OF fs(2) [unfolded n(1)]] deliver.hyps(5) have
    st: "(msgType (parseResult pm), message pm) = f" "early T c x" "asynchronous fs'" by simp_all
  from p show ?case
    by (rule parsed_cases [OF _ deliver.hyps(2,3)])
      (use n(2) st reader_stages(1) [OF _ _ st(2), of "x\<lparr>reader := Storing pm ?b, shared := s\<rparr>"] in auto)
next
  case (store_result x pm buf s)
  from store_result.hyps store_result.prems(2) show ?case by (auto simp: early_def)
next
  case (store_message x pm buf s)
  from store_message.hyps store_message.prems(2) show ?case by (auto simp: early_def last_shown_def)
next
  case (signal x buf ev)
  from signal.hyps(1) signal.prems(2) have e: "early T c x" "last_shown (shared x) = f" by auto
  from e(1) signal.prems(1) have "usable (newMsgEvent (shared x))" by (auto simp: early_def safe_def)
  with signal.hyps(2) have "notices T ev" using set_law by fastforce
  with signal.hyps signal.prems(2) early_served [OF e(1), of f] e(2) show ?case
    by (auto simp: stage_def late_def)
next
  case (parse_fails x d e buf s)
  then have "parser_ok (msgParser (shared x))" by (simp add: safe_def)
  then show ?case by (rule parsed_cases [OF _ parse_fails.hyps(2,3)]) simp
next
  case (listen_fails x d pm buf s e s')
  with listening_never_fails [OF listen_fails.prems(1)] show ?case by blast
next
  case (signal_fails x buf e)
  with signalling_never_fails [OF signal_fails.prems(1)] show ?case by blast
next
  case (read_error x buf e)
  from catches_law [OF read_error.hyps(2)] obtain d where
    "catches T e (shared x) = (shared x)\<lparr>lastReceptionError := d, receptionStopped := True\<rparr>" by blast
  with read_error.hyps(1) read_error.prems(2) show ?case
    by (auto simp: stage_def early_def late_def last_shown_def)
next
  case (finish x buf)
  from finish.hyps(1) finish.prems(2) show ?case by (auto simp: stage_def early_def late_def)
qed simp_all

text \<open>What a step of the client makes of the stages.\<close>

lemma client_step_stages:
  assumes "session_step T x a y" and "safe usable (notices T) x" and "\<not> by_reader a" and "a \<noteq> Rest"
    and answer: "answers c U" "frame n U m" "length m < 2 ^ 62"
  shows "(early T c x \<or> late T c (U, m) x \<longrightarrow> reader y = reader x \<and> lastResponse (shared y) = lastResponse (shared x)) \<and>
    (early T c x \<longrightarrow> early T c y) \<and> (late T c (U, m) x \<longrightarrow> late T c (U, m) y)"
  using assms(1-4)
proof (induction rule: session_step.induct)
  case (wake x d ev)
  then have "usable (newMsgEvent (shared x))" by (auto simp: safe_def)
  with wake.hyps show ?case
    using wait_unready [of "newMsgEvent (shared x)"] by (auto simp: early_def late_def last_shown_def)
next
  case (wait_fails x d e)
  then have "wait_error T e" unfolding wait_error_def by blast
  with wait_fails.hyps(1) show ?case by (auto simp: early_def late_def)
next
  case (wait_interrupted x d e)
  then have "wait_error T e" unfolding wait_error_def by blast
  with wait_interrupted.hyps(1) show ?case by (auto simp: early_def late_def)
next
  case (check x d s)
  from checkResponse_cases [OF check.hyps(2)] check.hyps(1) show ?case by (auto simp: early_def late_def)
next
  case (check_fails x d e s)
  have "\<not> late T c (U, m) x"
  proof
    assume "late T c (U, m) x"
    then have "d = c" "fst (last_shown (shared x)) = U" using check_fails.hyps(1) by (auto simp: late_def)
    with check_fails.hyps(2) answer(1) show False
      by (auto simp: checkResponse_def answers_def last_shown_def split: if_splits)
  qed
  with check_fails.hyps(1) show ?case by (auto simp: early_def)
next
  case (decode_fails x d v e)
  then have "parser_ok (msgParser (shared x))" by (simp add: safe_def)
  with decoder_accepts [OF answer(2,3), of "msgParser (shared x)"] decode_fails.hyps show ?case by (auto simp: early_def late_def)
next
  case (decode_data_fails x d v e)
  then have "parser_ok (msgParser (shared x))" by (simp add: safe_def)
  with decoder_accepts [OF answer(2,3), of "msgParser (shared x)"] decode_data_fails.hyps show ?case by (auto simp: early_def late_def)
next
  case (take x d)
  with answers_type [OF answer(1)] show ?case by (auto simp: early_def late_def last_shown_def)
next
  case (take_code x d)
  with answers_type [OF answer(1)] show ?case by (auto simp: early_def late_def last_shown_def)
qed (auto simp: early_def late_def last_shown_def)

lemma traced_answering:
  assumes "traced T x as y" and "safe usable (notices T) x"
    and "arrivals as @ coming = stream" and "Rest \<notin> set as"
    and "answering T c (U, m) stream (reader x) x"
    and "U \<noteq> MSG_ASYNC" and "answers c U" and "frame n U m" and "length m < 2 ^ 62"
  shows "safe usable (notices T) y \<and> answering T c (U, m) coming (reader y) y"
  using assms(1,3,4)
proof (induction arbitrary: coming rule: traced.induct)
  case traced_start
  with assms(2,5) show ?case by simp
next
  case (traced_step as y a z)
  from traced_step.IH [of "arrived a @ coming"] traced_step.prems have
    y: "safe usable (notices T) y" "answering T c (U, m) (arrived a @ coming) (reader y) y" by simp_all
  show ?case
  proof (cases "by_reader a")
    case True
    with reader_step_safe [OF traced_step.hyps(2) y(1)] reader_step_answering [OF traced_step.hyps(2) y] assms(6)
    show ?thesis by simp
  next
    case False
    then have "arrived a = []" by (cases a) simp_all
    moreover have "a \<noteq> Rest" using traced_step.prems(2) by auto
    ultimately show ?thesis
      using client_step_safe [OF traced_step.hyps(2) y(1) False] answering_stages [OF y(2)]
        client_step_stages [OF traced_step.hyps(2) y(1) False _ assms(7-9)]
        answering_kept [OF y(2), of z] y(2) by auto
  qed
qed

text \<open>From each place of the reading thread.\<close>

lemma gets_late:
  assumes "safe usable (notices T) x" and "late T c (U, m) x" and "client x = Waiting c" and "answers c U"
  shows "gets T c (U, m) x"
proof -
  from assms(1,3) have u: "usable (newMsgEvent (shared x))" by (auto simp: safe_def)
  from assms(2,3) have "notices T (newMsgEvent (shared x))" and l: "last_shown (shared x) = (U, m)"
    by (auto simp: late_def)
  from wait_ready [OF u this(1)] obtain ev where ev: "waits T (newMsgEvent (shared x)) = Inr ev" by blast
  let ?y = "x\<lparr>client := Woken c, shared := (shared x)\<lparr>newMsgEvent := ev\<rparr>\<rparr>"
  have 1: "session_step T x Wake ?y" by (rule wake [OF assms(3) ev])
  have "checkResponse c (shared ?y) = (Inr (), shared ?y)"
    using l assms(4) by (auto simp: checkResponse_def answers_def last_shown_def)
  then have 2: "session_step T ?y Check (?y\<lparr>client := Checked c, shared := shared ?y\<rparr>)"
    by (intro session_step.check) simp_all
  have "gets T c (U, m) (?y\<lparr>client := Checked c, shared := shared ?y\<rparr>)"
    by (rule gets_checked [OF _ _ assms(4)]) (simp_all add: l)
  from gets_Cons [OF 1 _ _ gets_Cons [OF 2 _ _ this]] show ?thesis by simp
qed

lemma gets_signalling:
  assumes "safe usable (notices T) x" and "answering T c (U, m) [] (reader x) x" and "client x = Waiting c"
    and "reader x = Signalling b" and "answers c U" and "U \<noteq> MSG_ASYNC"
  shows "gets T c (U, m) x"
proof -
  from assms(1,3) have "usable (newMsgEvent (shared x))" by (auto simp: safe_def)
  then obtain ev where ev: "sets T (newMsgEvent (shared x)) = Inr ev" "notices T ev" using set_law by blast
  let ?y = "x\<lparr>reader := Processing b, shared := (shared x)\<lparr>newMsgEvent := ev\<rparr>\<rparr>"
  have 1: "session_step T x Signal ?y" by (rule signal [OF assms(4) ev(1)])
  have "safe usable (notices T) ?y" by (rule reader_step_safe [OF 1 assms(1)]) simp
  moreover have "late T c (U, m) ?y" using assms(2-4) ev(2) by (simp add: late_def)
  ultimately have "gets T c (U, m) ?y" by (rule gets_late) (simp_all add: assms(3,5))
  from gets_Cons [OF 1 _ _ this] show ?thesis by simp
qed

lemma gets_stored:
  assumes "safe usable (notices T) x" and "answering T c (U, m) [] (reader x) x" and "client x = Waiting c"
    and "reader x = Stored pm b" and "answers c U" and "U \<noteq> MSG_ASYNC"
  shows "gets T c (U, m) x"
proof -
  let ?y = "x\<lparr>reader := Signalling b,
    shared := (shared x)\<lparr>lastResponse := (lastResponse (shared x))\<lparr>message := message pm\<rparr>\<rparr>\<rparr>"
  have 1: "session_step T x Store ?y" by (rule store_message [OF assms(4) refl])
  have "gets T c (U, m) ?y"
  proof (rule gets_signalling)
    show "safe usable (notices T) ?y" by (rule reader_step_safe [OF 1 assms(1)]) simp
    show "answering T c (U, m) [] (reader ?y) ?y"
      by (rule reader_step_answering [OF 1 assms(1)]) (use assms(2,6) in simp_all)
  qed (use assms(3,5,6) in simp_all)
  from gets_Cons [OF 1 _ _ this] show ?thesis by simp
qed

lemma gets_storing:
  assumes "safe usable (notices T) x" and "answering T c (U, m) [] (reader x) x" and "client x = Waiting c"
    and "reader x = Storing pm b" and "answers c U" and "U \<noteq> MSG_ASYNC"
  shows "gets T c (U, m) x"
proof -
  let ?y = "x\<lparr>reader := Stored pm b,
    shared := (shared x)\<lparr>lastResponse := (lastResponse (shared x))\<lparr>parseResult := parseResult pm\<rparr>\<rparr>\<rparr>"
  have 1: "session_step T x Store ?y" by (rule store_result [OF assms(4) refl])
  have "gets T c (U, m) ?y"
  proof (rule gets_stored)
    show "safe usable (notices T) ?y" by (rule reader_step_safe [OF 1 assms(1)]) simp
    show "answering T c (U, m) [] (reader ?y) ?y"
      by (rule reader_step_answering [OF 1 assms(1)]) (use assms(2,6) in simp_all)
  qed (use assms(3,5,6) in simp_all)
  from gets_Cons [OF 1 _ _ this] show ?thesis by simp
qed

text \<open>The reading thread works through its buffer.\<close>

lemma gets_processing:
  "safe usable (notices T) x \<Longrightarrow> answering T c (U, m) [] (reader x) x \<Longrightarrow> client x = Waiting c \<Longrightarrow>
   reader x = Processing d \<Longrightarrow> answers c U \<Longrightarrow> U \<noteq> MSG_ASYNC \<Longrightarrow> gets T c (U, m) x"
proof (induction "length d" arbitrary: d x rule: less_induct)
  case less
  show ?case
  proof (cases "late T c (U, m) x")
    case True
    from gets_late [OF less.prems(1) True less.prems(3,5)] show ?thesis .
  next
    case False
    with less.prems(2,4) obtain fs where fs: "processed fs d []" "fs \<noteq> []" by (auto simp: stage_def)
    then have d: "d \<noteq> []" by (rule processed_nonempty)
    from less.prems(1) have p: "parser_ok (msgParser (shared x))" by (simp add: safe_def)
    obtain q buf s where parse: "parseNextMessage d (shared x) = (q, buf, s)" by (cases "parseNextMessage d (shared x)") auto
    then obtain pm where pm: "q = Inr pm" and l: "length buf = length d"
      by (rule parsed_cases [OF p d])
    note parse = parse [unfolded pm]
    have go: "gets T c (U, m) x"
      if step: "session_step T x a y" and a: "by_reader a" "arrived a = []"
        and y: "client y = Waiting c" "reader y = Storing pm' b \<or> reader y = Processing b \<and> length b < length d"
      for a y pm' b
    proof -
      have s: "safe usable (notices T) y" by (rule reader_step_safe [OF step less.prems(1) a(1)])
      have n: "answering T c (U, m) [] (reader y) y"
        by (rule reader_step_answering [OF step less.prems(1)]) (use less.prems(2,6) a in simp_all)
      from y(2) have "gets T c (U, m) y"
        using gets_storing [OF s n y(1) _ less.prems(5,6)] less.hyps [OF _ s n y(1) _ less.prems(5,6)] by blast
      moreover have "a \<noteq> Rest" using a(1) by auto
      ultimately show ?thesis using gets_Cons [OF step a(2)] by blast
    qed
    from fs(1) d p parse show ?thesis
    proof (cases rule: processed_next)
      case (1 V n fs')
      let ?b = "erase_front (lastPosition (parseResult pm) + 1) buf"
      show ?thesis
      proof (cases "V = MSG_ASYNC")
        case False
        with go [OF deliver [OF less.prems(4) d parse 1(1)], of pm ?b] 1(4) less.prems(3) show ?thesis by simp
      next
        case True
        obtain r s' where r: "processMessage (sets T) pm s = (r, s')" by (cases "processMessage (sets T) pm s")
        with listening_never_fails [OF less.prems(1,4) d parse 1(1)] have "r = Inr ()" by (cases r) auto
        note r = r [unfolded this]
        have "length ?b < length d" using l d by (simp add: erase_front_def)
        with go [OF listen [OF less.prems(4) d parse 1(1) _ r], of pm ?b] 1(4) True less.prems(3) show ?thesis by simp
      qed
    next
      case 2
      with collected_end fs(2) show ?thesis by blast
    qed
  qed
qed

lemma answer_gets:
  assumes "safe usable (notices T) x" and "answering T c (U, m) [] (reader x) x" and "client x = Waiting c"
    and "reader x \<notin> {Ended, Finished}" and "answers c U" and "U \<noteq> MSG_ASYNC"
  shows "gets T c (U, m) x"
proof (cases "reader x")
  case (Collecting b)
  with assms(2) collected_end have "late T c (U, m) x" by (fastforce simp: stage_def)
  from gets_late [OF assms(1) this assms(3,5)] show ?thesis .
qed (use assms gets_processing [OF assms(1-3)] gets_storing [OF assms(1-3)] gets_stored [OF assms(1-3)]
    gets_signalling [OF assms(1-3)] in auto)

text \<open>From the start of the wait.\<close>

lemma answer_served:
  assumes "answered_by c (U, m) fs stream" and "length stream < 2 ^ 31"
    and "sendable s" and "usable (newMsgEvent s)" and "usable (readEndEvent s)" and "parser_ok (msgParser s)"
    and "\<not> notices T (newMsgEvent s)"
    and "traced T \<lparr>client = Waiting c, reader = Collecting [], shared = s\<rparr> as x"
    and "arrivals as @ coming = stream" and "Rest \<notin> set as"
  shows "answer_reaches T c (U, m) coming x"
proof -
  let ?x = "\<lparr>client = Waiting c, reader = Collecting [], shared = s\<rparr>"
  note a = answered_collected [OF assms(1)]
  from a(5) obtain n where n: "frame n U m" by blast
  have len: "length m < 2 ^ 62" using a(6) assms(2) by simp
  have "early T c ?x" using assms(7) by (simp add: early_def)
  with a(1,4) assms(2) have "answering T c (U, m) stream (reader ?x) ?x"
    by (auto simp: stage_def asynchronous_def collected_def)
  moreover have "safe usable (notices T) ?x" using assms(3-6) by (simp add: safe_def)
  ultimately have x: "safe usable (notices T) x" "answering T c (U, m) coming (reader x) x"
    using traced_answering [OF assms(8) _ assms(9,10) _ a(2,3) n len] by simp_all
  from answering_stages [OF x(2)] have "served T c (U, m) (client x)"
    using early_served by (auto simp: late_def)
  with answer_gets [OF x(1), of c U m] x(2) a(2,3) show ?thesis by (auto simp: answer_reaches_def)
qed

end

end
