(* ===== verification/Session_Runs.thy ===== *)
theory Session_Runs
  imports Session_Order Session_Answer Linux_Client Windows_Client
begin

text \<open>
  The interleavings of theory \<open>Session\<close> on the two platforms: what holds with a device that
  answers once and in time, what holds in all of them, and a session in which a client is given a
  response that it has not asked for and not checked.
\<close>

section \<open>The platforms\<close>

definition linux_threads :: "int \<Rightarrow> linux_event threads" where
  "linux_threads h =
     \<lparr>one_read = (\<lambda>bs. True),
      complete = (\<lambda>buf bs. case appendDataFromPort (ReadBytes bs) buf of
        Inl e \<Rightarrow> False | Inr (messageEnd, b) \<Rightarrow> messageEnd \<noteq> - 1),
      sends = (\<lambda>c s q. \<exists>script. q = sendCommand_Lin h script c s),
      sets = setMyEvent_Lin, waits = wait_Lin,
      interrupts = (\<lambda>e. \<exists>errno ev. waitForMyEvent_Lin (- 1) errno ev = Inl e),
      catches = (\<lambda>e s. snd (reader_catch e s)),
      notices = event_ready_Lin, closes = destroyMyEvent_Lin, closes_port = closePort_Lin\<rparr>"

text \<open>On Windows bytes are read one by one.\<close>

definition windows_threads :: "windows_event threads" where
  "windows_threads =
     \<lparr>one_read = (\<lambda>bs. length bs = 1),
      complete = (\<lambda>buf bs. bs = [CR]),
      sends = (\<lambda>c s q. \<exists>w. q = sendCommand_Win w c s),
      sets = setMyEvent_Win, waits = wait_Win,
      interrupts = (\<lambda>e. \<exists>lastError ev. waitForMyEvent_Win WAIT_FAILED lastError ev = Inl e),
      catches = (\<lambda>e s. snd (reader_catch_Win e s)),
      notices = event_ready_Win, closes = destroyMyEvent_Win, closes_port = closePort_Win\<rparr>"

lemma threads_simps [simp]:
  "sets (linux_threads h) = setMyEvent_Lin" "waits (linux_threads h) = wait_Lin"
  "sets windows_threads = setMyEvent_Win" "waits windows_threads = wait_Win"
  "notices (linux_threads h) = event_ready_Lin" "notices windows_threads = event_ready_Win"
  by (simp_all add: linux_threads_def windows_threads_def)

lemma sendable_Lin:
  assumes "sendCommand_Lin h script c s = (r, s')" and "cmd_msgType c \<noteq> MSG_ERROR" and "sendable s"
  shows "sendable s' \<and> lastResponse s' = lastResponse s \<and> msgParser s' = msgParser s \<and>
    newMsgEvent s' = newMsgEvent s \<and> readEndEvent s' = readEndEvent s \<and> (\<forall>e. r = Inl e \<longrightarrow> documented e)"
proof (cases "too_large c")
  case True
  with assms show ?thesis
    by (auto simp: sendCommand_Lin_def commandToBuffer_eq sendable_def documented_def)
next
  case False
  let ?t = "store_transmit (wire_of c) s"
  obtain out where
    "send_loop h script (transmitted \<lparr>buff_len = length (wire_of c)\<rparr> ?t)
      (int (length (wire_of c))) (portOutput ?t) = (r, out)" and s': "s' = ?t\<lparr>portOutput := out\<rparr>"
    using assms False by (auto simp: sendCommand_Lin_def commandToBuffer_eq sendable_def split: prod.splits)
  with send_loop_errors have "\<forall>e. r = Inl e \<longrightarrow> documented e" unfolding documented_def by blast
  moreover have "sendable s'"
    using assms(3) by (auto simp: s' sendable_def headers_ok_def)
      (simp add: transmit_ok_def store_transmit_def Let_def)
  ultimately show ?thesis by (simp add: s')
qed

interpretation lin_session: two_threads "linux_threads h" resetMyEvent_Lin is_open
proof (rule two_threads.intro)
  show "message_event (sets (linux_threads h)) resetMyEvent_Lin (waits (linux_threads h)) (notices (linux_threads h)) is_open"
    using lin_ev.message_event_axioms by simp
  show "two_threads_axioms (linux_threads h) is_open"
  proof (rule two_threads_axioms.intro)
    fix e and s :: "linux_event impl"
    assume "is_thrown CDCReceiveException e"
    then show "\<exists>d. catches (linux_threads h) e s = s\<lparr>lastReceptionError := d, receptionStopped := True\<rparr>"
      by (rule caught_receive [of e s]) (auto simp: linux_threads_def cdc_defs)
  next
    fix buf bs assume "complete (linux_threads h) buf bs"
    then obtain i where i: "find_index (buf @ bs) CR 0 = Some i"
      by (cases "find_index (buf @ bs) CR 0") (auto simp: linux_threads_def appendDataFromPort_def Let_def)
    from find_index_bounds [OF i] show "CR \<in> set (buf @ bs)" by (metis minus_nat.diff_0 nth_mem)
  next
    fix buf bs assume "\<not> complete (linux_threads h) buf bs" and "length (buf @ bs) < 2 ^ 31"
    with append_data [of buf bs] show "CR \<notin> set (buf @ bs) \<or> (\<exists>b. bs = [b] \<and> b \<noteq> CR)"
      by (auto simp: linux_threads_def)
  qed (auto simp: linux_threads_def dest!: sendable_Lin [OF sym])
qed

interpretation win_session: two_threads windows_threads resetMyEvent_Win is_open
proof (rule two_threads.intro)
  show "message_event (sets windows_threads) resetMyEvent_Win (waits windows_threads) (notices windows_threads) is_open"
    using win_ev.message_event_axioms by simp
  show "two_threads_axioms windows_threads is_open"
  proof (rule two_threads_axioms.intro)
    fix c r and s s' :: "windows_event impl"
    assume a: "sends windows_threads c s (r, s')" "cmd_msgType c \<noteq> MSG_ERROR" "sendable s"
      "is_open (newMsgEvent s)"
    then obtain w where "sendCommand_Win w c s = (r, s')" by (auto simp: windows_threads_def)
    from sendCommand_Win_outcome [OF _ _ a(2,4) this] a(3) show
      "sendable s' \<and> lastResponse s' = lastResponse s \<and> msgParser s' = msgParser s \<and>
       is_open (newMsgEvent s') \<and>
       (notices windows_threads (newMsgEvent s') \<longrightarrow> notices windows_threads (newMsgEvent s)) \<and>
       readEndEvent s' = readEndEvent s \<and> (\<forall>e. r = Inl e \<longrightarrow> documented e)"
      by (auto simp: sendable_def documented_def)
  next
    fix e and s :: "windows_event impl"
    assume "is_thrown CDCReceiveException e"
    then show "\<exists>d. catches windows_threads e s = s\<lparr>lastReceptionError := d, receptionStopped := True\<rparr>"
      by (rule caught_receive_Win [of e s]) (auto simp: windows_threads_def cdc_defs)
  next
    fix buf bs assume "one_read windows_threads bs" and "\<not> complete windows_threads buf bs"
    then show "CR \<notin> set (buf @ bs) \<or> (\<exists>b. bs = [b] \<and> b \<noteq> CR)"
      by (cases bs) (auto simp: windows_threads_def)
  qed (auto simp: windows_threads_def waitForMyEvent_Win_def)
qed

lemma good_object_sendable:
  "good_object s \<Longrightarrow> sendable s \<and> is_open (newMsgEvent s) \<and> is_open (readEndEvent s) \<and>
     parser_ok (msgParser s) \<and> response_ok (last_shown s)"
  by (simp add: good_object_def sendable_def)

section \<open>A command on Linux\<close>

lemma reset_sent:
  obtains s1 where "sendCommand_Lin 3 (one_write (length (wire_of (constructCommand MSG_RES_USB []))))
    (constructCommand MSG_RES_USB []) sample_object = (Inr (), s1)"
  by (rule send_at_once [OF sample_object_good, of "constructCommand MSG_RES_USB []" 3])
    (simp_all add: too_large_def carries_data_def constructCommand_def)

lemma reset_answer: "on_wire (MSG_RES_USB, crlf ''<R:OK'') (crlf ''<R:OK'')"
proof -
  have "frame n MSG_RES_USB (crlf ''<R:OK'')" for n
    by (rule frame_fixed) (simp add: fixed_frames_def)
  then show ?thesis by (simp add: on_wire_def self_delimiting_def fix_head_def bracket_defs crlf_def)
qed

text \<open>
  A client on Linux up to the look at the type of its response, when the device sends the
  response and \<open>rest\<close> in one read; of the steps only the arrival need be allowed as such.
\<close>

lemma checked_reached:
  assumes good: "good_object s" and running: "\<not> receptionStopped s"
    and c: "cmd_msgType c \<notin> {MSG_ERROR, MSG_ASYNC}" and send: "sendCommand_Lin h script c s = (Inr (), s1)"
    and w: "on_wire (cmd_msgType c, m) w" "length (w @ rest) < 2 ^ 31"
    and P: "\<And>y a. \<forall>bs. a \<noteq> Arrive bs \<Longrightarrow> a \<noteq> Fail \<Longrightarrow> P y a"
      "P \<lparr>client = Waiting c, reader = Collecting [], shared = s1\<rparr> (Arrive (w @ rest))"
  obtains s2 r where "reached (linux_threads h) P s \<lparr>client = Checked c, reader = Processing rest, shared = s2\<rparr>"
    and "lastResponse s2 = \<lparr>message = m, parseResult = r\<rparr>" and "msgType r = cmd_msgType c"
    and "is_open (newMsgEvent s2)" and "parser_ok (msgParser s2)"
proof -
  let ?T = "linux_threads h" and ?x = "\<lambda>cl r s. \<lparr>client = cl, reader = r, shared = s\<rparr>"
  have t: "cmd_msgType c \<noteq> MSG_ERROR" "cmd_msgType c \<noteq> MSG_ASYNC" using c by auto
  from sendCommand_good [OF good t(1) send] have ok: "is_open (newMsgEvent s1)" "parser_ok (msgParser s1)"
    by (simp_all add: good_object_def)
  have "session_step ?T (?x Resting (Collecting []) s) (Start c) (?x (Waiting c) (Collecting []) s1)"
    using start [of "?x Resting (Collecting []) s" c ?T s1] running t(1) send
    by (auto simp: linux_threads_def getReceptionStopped_def intro: sym)
  then have 1: "reached ?T P s (?x (Waiting c) (Collecting []) s1)"
    by (rule reached_step [OF reached_start, rotated]) (simp add: P(1))
  have "CR \<in> set ([] @ w @ rest)" using on_wire_CR [OF w(1)] by simp
  with append_data [of "[]" "w @ rest"] w(2) have "complete ?T [] (w @ rest)"
    by (auto simp: linux_threads_def)
  then have "session_step ?T (?x (Waiting c) (Collecting []) s1) (Arrive (w @ rest))
      (?x (Waiting c) (Processing (w @ rest)) s1)"
    using arrive [of "?x (Waiting c) (Collecting []) s1" "[]" ?T "w @ rest"] by (simp add: linux_threads_def)
  with 1 P(2) have 2: "reached ?T P s (?x (Waiting c) (Processing (w @ rest)) s1)" by (rule reached_step)
  obtain r s2 where r: "msgType r = cmd_msgType c" "parser_ok (msgParser s2)" "newMsgEvent s2 = newMsgEvent s1"
      "lastResponse s2 = \<lparr>message = m, parseResult = r\<rparr>"
    and store: "traced ?T (?x (Waiting c) (Processing (w @ rest)) s1) [Deliver, Store, Store]
      (?x (Waiting c) (Signalling rest) s2)"
    by (rule stores_response [OF ok(2) on_wire_frame [OF w(1)] t(2)])
  have "is_open (newMsgEvent s2)" "answers c (fst (last_shown s2))"
    using ok(1) r by (simp_all add: last_shown_def answers_def)
  then obtain ev where ev: "is_open ev" and check: "traced ?T (?x (Waiting c) (Signalling rest) s2)
      [Signal, Wake, Check] (?x (Checked c) (Processing rest) (s2\<lparr>newMsgEvent := ev\<rparr>))"
    by (rule lin_session.checks_response)
  have "reached ?T P s (?x (Checked c) (Processing rest) (s2\<lparr>newMsgEvent := ev\<rparr>))"
    by (rule reached_traced [OF traced_trans [OF check store] 2]) (auto intro: P(1))
  with r(1,2,4) ev that show thesis by simp
qed

section \<open>The device on Windows\<close>

text \<open>Bytes that arrive one by one, up to a carriage return.\<close>

lemma bytes_arrive:
  "CR \<notin> set v \<Longrightarrow> traced windows_threads \<lparr>client = cl, reader = Collecting b, shared = s\<rparr>
     (map (\<lambda>x. Arrive [x]) v) \<lparr>client = cl, reader = Collecting (b @ v), shared = s\<rparr>"
proof (induction v arbitrary: b)
  case Nil
  from traced_start show ?case by simp
next
  case (Cons x v)
  have "session_step windows_threads \<lparr>client = cl, reader = Collecting b, shared = s\<rparr> (Arrive [x])
      \<lparr>client = cl, reader = Collecting (b @ [x]), shared = s\<rparr>"
    using arrive [of "\<lparr>client = cl, reader = Collecting b, shared = s\<rparr>" b windows_threads "[x]"] Cons.prems
    by (simp add: windows_threads_def)
  from traced_Cons [OF this Cons.IH] Cons.prems show ?case by simp
qed

lemma wire_arrives:
  assumes "on_wire f w" and "CR \<notin> set (butlast w)"
  shows "traced windows_threads \<lparr>client = cl, reader = Collecting [], shared = s\<rparr> (map (\<lambda>x. Arrive [x]) w)
    \<lparr>client = cl, reader = Processing w, shared = s\<rparr>"
proof -
  let ?x = "\<lambda>b. \<lparr>client = cl, reader = Collecting b, shared = s\<rparr>"
  have w: "w = butlast w @ [CR]" using on_wire_CR [OF assms(1)] on_wire_last [OF assms(1)]
    by (metis append_butlast_last_id)
  have "session_step windows_threads (?x (butlast w)) (Arrive [CR])
      \<lparr>client = cl, reader = Processing (butlast w @ [CR]), shared = s\<rparr>"
    using arrive [of "?x (butlast w)" "butlast w" windows_threads "[CR]"] by (simp add: windows_threads_def)
  then have "session_step windows_threads (?x (butlast w)) (Arrive [CR])
      \<lparr>client = cl, reader = Processing w, shared = s\<rparr>" using w by simp
  from traced_step [OF bytes_arrive [OF assms(2), of cl "[]" s, simplified] this]
  have "traced windows_threads (?x []) (map (\<lambda>x. Arrive [x]) (butlast w @ [CR]))
      \<lparr>client = cl, reader = Processing w, shared = s\<rparr>" by simp
  with w show ?thesis by simp
qed

text \<open>
  As long as nothing is delivered, every command starts with the event cleared, and its client
  waits in vain.
\<close>

fun nothing_taken :: "client \<Rightarrow> bool" where
  "nothing_taken Resting = True"
| "nothing_taken (Waiting c) = True"
| "nothing_taken (Failed e) = True"
| "nothing_taken Closing = True"
| "nothing_taken Gone = True"
| "nothing_taken cl = False"

definition quiet :: "windows_event session \<Rightarrow> bool" where
  "quiet x \<longleftrightarrow> \<not> delivering (reader x) \<and> nothing_taken (client x) \<and>
     (\<forall>c. client x = Waiting c \<longrightarrow> \<not> event_ready_Win (newMsgEvent (shared x)))"

lemma quiet_step:
  assumes "session_step windows_threads x a y" and "safe is_open event_ready_Win x" and "quiet x"
    and "a \<noteq> Deliver"
  shows "quiet y"
  using assms
proof (induction rule: session_step.induct)
  case (pause x d pm buf s)
  then have "parser_ok (msgParser (shared x))" by (simp add: safe_def)
  then show ?case by (rule parsed_cases [OF _ pause.hyps(2,3)]) (use pause.prems(2) in \<open>simp add: quiet_def\<close>)
next
  case (skip x d pm buf s)
  then have "parser_ok (msgParser (shared x))" by (simp add: safe_def)
  then show ?case
    by (rule parsed_cases [OF _ skip.hyps(2,3)]) (use skip.prems(2) in \<open>simp add: quiet_def cdc_defs\<close>)
next
  case (listen x d pm buf s s')
  then have "parser_ok (msgParser (shared x))" by (simp add: safe_def)
  then show ?case
    by (rule parsed_cases [OF _ listen.hyps(2,3)])
      (use listen.prems(2) processMessage_async [OF listen.hyps(5,6)] in \<open>simp add: quiet_def\<close>)
next
  case (parse_fails x d e buf s)
  then have "parser_ok (msgParser (shared x))" by (simp add: safe_def)
  then show ?case by (rule parsed_cases [OF _ parse_fails.hyps(2,3)]) simp
next
  case (listen_fails x d pm buf s e s')
  with win_session.listening_never_fails [of x d pm buf s e s'] show ?case by simp
next
  case (start x c s)
  then obtain w where "sendCommand_Win w c (shared x) = (Inr (), s)" by (auto simp: windows_threads_def)
  from sendCommand_Win_outcome(3) [OF _ _ start.hyps(3) _ this] start.hyps(1) start.prems(1,2)
  show ?case by (auto simp: quiet_def safe_def sendable_def)
next
  case (wake x c ev)
  then have "is_open (newMsgEvent (shared x))" by (auto simp: safe_def)
  with wake.hyps wake.prems(2) win_ev.wait_unready [of "newMsgEvent (shared x)"]
  show ?case by (auto simp: quiet_def)
next
  case (read_error x buf e)
  from win_session.catches_law [OF read_error.hyps(2)] obtain d where
    "catches windows_threads e (shared x) = (shared x)\<lparr>lastReceptionError := d, receptionStopped := True\<rparr>" by blast
  with read_error.prems(2) show ?case by (auto simp: quiet_def)
next
  case (close_fails x e)
  then have "is_open (readEndEvent (shared x))" by (auto simp: safe_def)
  with close_fails.hyps(2) win_ev.set_law show ?case by fastforce
qed (auto simp: quiet_def)

lemma traced_quiet:
  "traced windows_threads x as y \<Longrightarrow> safe is_open event_ready_Win x \<Longrightarrow> quiet x \<Longrightarrow> Deliver \<notin> set as \<Longrightarrow>
     safe is_open event_ready_Win y \<and> quiet y"
proof (induction rule: traced.induct)
  case (traced_step as y a z)
  from traced_step.IH traced_step.prems have y: "safe is_open event_ready_Win y" "quiet y" by simp_all
  from quiet_step [OF traced_step.hyps(2) y] traced_step.prems(3) y(1) show ?case
    using win_session.reader_step_safe [OF traced_step.hyps(2)] win_session.client_step_safe [OF traced_step.hyps(2)]
    by auto
qed simp

section \<open>Responses\<close>

text \<open>One message on the wire is one response at most.\<close>

lemma one_response: "on_wire (T, m) w \<Longrightarrow> responses_at_most 1 w"
  unfolding responses_at_most_def
proof (intro allI impI)
  fix ps b assume w: "on_wire (T, m) w" and f: "framed w ps b"
  have len: "length (fix_head w) = length w" by simp
  have m: "fix_head w = m @ []" "frame (length (fix_head w)) T m"
    using on_wire_frame [OF w, of "[]"] unfolding len by simp_all
  then have s: "starts_message (fix_head w)" unfolding starts_message_def by metis
  from f show "length (filter is_response ps) \<le> 1"
  proof (cases rule: framed.cases)
    case (framed_message m' rest' T' ps')
    with frame_unambiguous [OF m(2) _ m(1)] have "m' = m" by (metis length_fix_head)
    with framed_message(2) m(1) have "rest' = []" by simp
    with framed_message nothing_responds [of 0] show ?thesis by (auto simp: responses_at_most_def)
  qed (use s in auto)
qed

text \<open>Without a carriage return there is none.\<close>

lemma no_responses:
  assumes "CR \<notin> set d"
  shows "responses_at_most k d"
  unfolding responses_at_most_def
proof (intro allI impI)
  fix ps b assume "framed d ps b"
  then show "length (filter is_response ps) \<le> k" using assms
  proof (induction rule: framed.induct)
    case (framed_message d m rest T ps b)
    from frame_last [OF framed_message.hyps(2)] have "CR \<in> set m" by (metis last_in_set)
    with framed_message.hyps(1) have "CR \<in> set (fix_head d)" by simp
    with framed_message.prems show ?case by (simp add: CR_fix_head)
  next
    case (framed_junk d junk rest ps b)
    have "CR \<notin> set rest" using framed_junk.hyps(1) framed_junk.prems CR_fix_head [of d] by simp
    with framed_junk.IH show ?case by simp
  qed simp_all
qed

section \<open>Properties\<close>





text \<open>
  C14. A response replaced by another one. Without that order the discipline fails. When the
  device answers a command and sends one more message that is not asynchronous, all in one read,
  there is an interleaving in which the client checks the type of the first and is then given the
  bytes of the second, of whatever type: between \<open>processCommand\<close>, which checks the type of
  \<open>lastResponse\<close>, and the decoder, which reads its message, the reading thread may assign it.
\<close>

theorem response_replaced:
  assumes "good_object s" and "\<not> receptionStopped s" and "\<not> event_ready_Lin (newMsgEvent s)"
    and "cmd_msgType c \<notin> {MSG_ERROR, MSG_ASYNC}" and "sendCommand_Lin h script c s = (Inr (), s1)"
    and "on_wire (cmd_msgType c, m) w" and "on_wire (T, m') w'" and "T \<noteq> MSG_ASYNC"
    and "length (w @ w') < 2 ^ 31"
  shows "\<exists>x. reached (linux_threads h) (\<lambda>_ _. True) s x \<and> client x = Took c m'"
proof -
  let ?T = "linux_threads h" and ?x = "\<lambda>cl r s. \<lparr>client = cl, reader = r, shared = s\<rparr>"
  let ?reached = "reached ?T (\<lambda>_ _. True) s"
  obtain s2 r0 where 0: "?reached (?x (Checked c) (Processing w') s2)"
    and first: "lastResponse s2 = \<lparr>message = m, parseResult = r0\<rparr>" "msgType r0 = cmd_msgType c"
    and s2: "is_open (newMsgEvent s2)" "parser_ok (msgParser s2)"
    by (rule checked_reached [OF assms(1,2,4,5,6,9)]) simp_all
  let ?cl = "if is_download c then Looked c False else Checked c"
  have 1: "?reached (?x ?cl (Processing w') s2)"
  proof (cases "is_download c")
    case True
    with first have "session_step ?T (?x (Checked c) (Processing w') s2) Look (?x (Looked c False) (Processing w') s2)"
      using look [of "?x (Checked c) (Processing w') s2" c ?T] by (simp add: is_download_def)
    from reached_step [OF 0 _ this] True show ?thesis by simp
  qed (use 0 in simp)
  obtain r s3 where s3: "lastResponse s3 = \<lparr>message = m', parseResult = r\<rparr>"
    and "traced ?T (?x ?cl (Processing w') s2) [Deliver, Store, Store] (?x ?cl (Signalling []) s3)"
    by (rule stores_response [OF s2(2) on_wire_frame [OF assms(7), of "[]"] assms(8), of ?T ?cl]) simp
  then have 2: "?reached (?x ?cl (Signalling []) s3)" by (intro reached_traced [OF _ 1]) simp_all
  have "session_step ?T (?x ?cl (Signalling []) s3) Take (?x (Took c m') (Signalling []) s3)"
    using take [of "?x (Checked c) (Signalling []) s3" c ?T] take_code [of "?x (Looked c False) (Signalling []) s3" c ?T] s3
    by simp
  from reached_step [OF 2 _ this] show ?thesis by force
qed

text \<open>
  The device's identification is asked for and given, and a late answer to a test comes with
  it: the client may be given the answer to the test, and the decoder throws \<open>std::bad_alloc\<close>,
  which the interface does not document.
\<close>

theorem response_replaced_witness:
  "\<exists>x. reached (linux_threads 3) (\<lambda>_ _. True) sample_object x \<and>
     client x = Took (constructCommand MSG_USB_INFO []) (crlf ''<OK'') \<and>
     getParsedDeviceInfo (crlf ''<OK'') = Inl BadAlloc"
proof -
  let ?c = "constructCommand MSG_USB_INFO []"
  have t: "cmd_msgType ?c = MSG_USB_INFO" by (simp add: constructCommand_def)
  have "\<not> too_large ?c" by (simp add: too_large_def carries_data_def constructCommand_def)
  then obtain s1 where send: "sendCommand_Lin 3 (one_write (length (wire_of ?c))) ?c sample_object = (Inr (), s1)"
    using send_at_once [OF sample_object_good, of ?c 3] t by auto
  define m where "m = uchar_str ''<I:'' @ [71] @ HASH # [50] @ HASH # [65] @ [CR]"
  have "HASH \<notin> set [71]" "list_all checkUSBDeviceVersion [50]" "list_all checkUSBDeviceId [65]"
    by (simp_all add: checkUSBDeviceVersion_def checkUSBDeviceId_def)
  then have "frame n MSG_USB_INFO m" for n unfolding m_def by (rule frame_usb)
  then have w1: "on_wire (cmd_msgType ?c, m) m"
    by (simp add: t on_wire_def self_delimiting_def fix_head_def bracket_defs) (simp add: m_def)
  have "frame n MSG_TEST (crlf ''<OK'')" for n
    by (rule frame_fixed) (simp add: fixed_frames_def)
  then have w2: "on_wire (MSG_TEST, crlf ''<OK'') (crlf ''<OK'')"
    by (simp add: on_wire_def self_delimiting_def fix_head_def bracket_defs crlf_def)
  have "getParsedDeviceInfo (crlf ''<OK'') = Inl BadAlloc"
    by (simp add: getParsedDeviceInfo_def find_pos_def substr_def find_index_def new_char_array_def
        npos_def crlf_def Let_def bracket_defs)
  moreover have "length (m @ crlf ''<OK'') < 2 ^ 31" by (simp add: m_def crlf_def)
  ultimately show ?thesis
    using response_replaced [OF sample_object_good _ _ _ send w1 w2] by (simp add: t sample_object_ok)
qed



text \<open>
  C23. No response without a delivery on Windows. Let the client be about to call, in any state
  that the two threads can reach and in which the reading thread is not in the middle of
  delivering a response. However both go on, as long as the reading thread delivers nothing,
  no call gets past its wait: the client waits, has failed, or is done. So a response that is
  taken has been delivered, or was being delivered, at or after the start of the call, whatever
  had been left in \<open>lastResponse\<close> and in the event by earlier calls, since \<open>sendCommand\<close>
  clears the event. (On Linux this is false: C13. And a delivery that has begun before: C24.)
\<close>

theorem response_is_fresh:
  assumes "good_object s" and "reached windows_threads (\<lambda>_ _. True) s x" and "client x = Resting"
    and "\<not> delivering (reader x)" and "traced windows_threads x as y" and "Deliver \<notin> set as"
  shows "nothing_taken (client y)"
proof -
  have "safe is_open event_ready_Win x"
    using win_session.reached_safe [OF assms(2)] good_object_sendable [OF assms(1)] by simp
  from traced_quiet [OF assms(5) this _ assms(6)] assms(3,4) show ?thesis by (simp add: quiet_def)
qed

text \<open>A call that ends with a time-out, though the event was set at its start.\<close>

theorem response_is_fresh_witness:
  "\<exists>s c x y. reached windows_threads (\<lambda>_ _. True) s x \<and> event_ready_Win (newMsgEvent s) \<and>
     traced windows_threads x [Start c, Fail] y \<and> nothing_taken (client y) \<and> (\<exists>e. client y = Failed e)"
proof -
  let ?c = "constructCommand MSG_RES_USB []" and ?T = windows_threads
    and ?s = "fresh_object ''COM5'' (Open False)\<lparr>newMsgEvent := Open True\<rparr>"
    and ?x = "\<lambda>cl s. \<lparr>client = cl, reader = Collecting [], shared = s\<rparr>"
  have g: "good_object ?s" using good_fresh_object [of "''COM5''" False]
    by (simp add: good_object_def headers_ok_def transmit_ok_def last_shown_def)
  have c: "cmd_msgType ?c \<noteq> MSG_ERROR" "\<not> too_large ?c"
    by (simp_all add: too_large_def carries_data_def constructCommand_def)
  obtain t where t: "sendCommand_Win (write_ok 3) ?c ?s = (Inr (), t)" by (rule send_write_ok [OF g c])
  have "newMsgEvent t = Open False"
    using sendCommand_Win_outcome(3) [OF _ _ c(1) _ t] g by (simp add: good_object_def)
  then obtain e where e: "wait_Win (newMsgEvent t) = Inl e" using win_ev.wait_unready [of "newMsgEvent t"] by auto
  have 1: "session_step ?T (?x Resting ?s) (Start ?c) (?x (Waiting ?c) t)"
    using start [of "?x Resting ?s" ?c ?T t] c(1) t
    by (auto simp: windows_threads_def getReceptionStopped_def intro: sym)
  have 2: "session_step ?T (?x (Waiting ?c) t) Fail (?x (Failed e) t)"
    using wait_fails [of "?x (Waiting ?c) t" ?c ?T e] e by simp
  have 3: "traced ?T (?x Resting ?s) [Start ?c, Fail] (?x (Failed e) t)"
    by (rule traced_Cons [OF 1 traced_one [OF 2]])
  from response_is_fresh [OF g reached_start _ _ 3] have "nothing_taken (client (?x (Failed e) t))" by simp
  then show ?thesis
    by (intro exI [of _ ?s] exI [of _ ?c] exI [of _ "?x Resting ?s"] exI [of _ "?x (Failed e) t"])
      (use 3 in \<open>simp add: reached_start\<close>)
qed

text \<open>
  C24. An old response is taken on Windows. Clearing the event in \<open>sendCommand\<close> does not close the
  gap that C13 shows on Linux. When a message of the type of a command has arrived while no call
  was active, and the reading thread has stored it but not signalled it yet, the command may
  start, clear the event and be sent; then the reading thread signals, and the call takes
  the old message as its response. From its start to its end nothing arrives and nothing is
  delivered.
\<close>

theorem old_response_taken_Win:
  assumes "good_object s" and "\<not> receptionStopped s" and "cmd_msgType c \<notin> {MSG_ERROR, MSG_ASYNC}"
    and "\<not> too_large c" and "on_wire (cmd_msgType c, m) w" and "CR \<notin> set (butlast w)" and "length w < 2 ^ 62"
  shows "\<exists>x as y. reached windows_threads (\<lambda>_ _. True) s x \<and> client x = Resting \<and>
    traced windows_threads x (Start c # as) y \<and> arrivals as = [] \<and> Deliver \<notin> set as \<and> client y = Took c m"
proof -
  let ?T = windows_threads and ?x = "\<lambda>cl r s. \<lparr>client = cl, reader = r, shared = s\<rparr>"
  have c: "cmd_msgType c \<noteq> MSG_ERROR" "cmd_msgType c \<noteq> MSG_ASYNC" using assms(3) by auto
  have p: "parser_ok (msgParser s)" using assms(1) by (simp add: good_object_def)
  note f = on_wire_frame [OF assms(5), of "[]", unfolded append_Nil2]
  obtain r t where t: "msgType r = cmd_msgType c" "parser_ok (msgParser t)" "newMsgEvent t = newMsgEvent s"
      "client_part t = client_part s" "receptionStopped t = receptionStopped s" "lastResponse t = \<lparr>message = m, parseResult = r\<rparr>"
    and store: "traced ?T (?x Resting (Processing w) s) [Deliver, Store, Store] (?x Resting (Signalling []) t)"
    using stores_response [OF p f(1) _ f(3) c(2), of "[]" ?T Resting] f(2) by auto
  have x: "reached ?T (\<lambda>_ _. True) s (?x Resting (Signalling []) t)"
    using reached_traced [OF traced_trans [OF store wire_arrives [OF assms(5,6)]] reached_start] by simp
  have "length m = length w" using f(2) by (metis length_fix_head)
  with f(3) assms(7) c t(1,6) have "response_ok (last_shown t)"
    by (auto simp: response_ok_def last_shown_def)
  with t(2-4) assms(1) have g: "good_object t"
    by (auto simp: good_object_def client_part_def headers_ok_def transmit_ok_def)
  obtain u where u: "sendCommand_Win (write_ok 1) c t = (Inr (), u)" by (rule send_write_ok [OF g c(1) assms(4)])
  have sent: "newMsgEvent u = Open False" "lastResponse u = lastResponse t"
    using sendCommand_Win_outcome(3,8) [OF _ _ c(1) _ u] g by (simp_all add: good_object_def)
  have 1: "session_step ?T (?x Resting (Signalling []) t) (Start c) (?x (Waiting c) (Signalling []) u)"
    using start [of "?x Resting (Signalling []) t" c ?T u] c(1) u assms(2) t(5)
    by (auto simp: windows_threads_def getReceptionStopped_def intro: sym)
  have "is_open (newMsgEvent u)" "answers c (fst (last_shown u))"
    using sent t(1,6) by (simp_all add: last_shown_def answers_def)
  then obtain ev where 2: "traced ?T (?x (Waiting c) (Signalling []) u) [Signal, Wake, Check]
      (?x (Checked c) (Processing []) (u\<lparr>newMsgEvent := ev\<rparr>))"
    by (rule win_session.checks_response)
  have u2: "is_download c \<longrightarrow> msgType r \<noteq> MSG_DOWNLOAD_DATA" "lastResponse u = \<lparr>message = m, parseResult = r\<rparr>"
    using sent(2) t(1,6) by (auto simp: is_download_def)
  obtain as cl where 3: "traced ?T (?x (Checked c) (Processing []) (u\<lparr>newMsgEvent := ev\<rparr>)) (as @ [Take])
      (?x cl (Processing []) (u\<lparr>newMsgEvent := ev\<rparr>))" "set as \<subseteq> {Look}" "cl = Took c m"
    by (rule takes_response [of ?T c "Processing []" "u\<lparr>newMsgEvent := ev\<rparr>"]) (use u2 in auto)
  have "arrivals as = []" using 3(2) by (induction as) (auto simp: arrivals_def)
  then have "arrivals ([Signal, Wake, Check] @ as @ [Take]) = []" by (simp add: arrivals_def)
  moreover have "Deliver \<notin> set ([Signal, Wake, Check] @ as @ [Take])" using 3(2) by auto
  ultimately show ?thesis
    using traced_Cons [OF 1 traced_trans [OF 3(1) 2]] x 3(3) by fastforce
qed

theorem old_response_taken_Win_witness:
  "\<exists>x as y. reached windows_threads (\<lambda>_ _. True) sample_object_Win x \<and> client x = Resting \<and>
     traced windows_threads x (Start (constructCommand MSG_RES_USB []) # as) y \<and> arrivals as = [] \<and>
     client y = Took (constructCommand MSG_RES_USB []) (crlf ''<R:OK'')"
proof -
  let ?c = "constructCommand MSG_RES_USB []"
  have c: "cmd_msgType ?c \<notin> {MSG_ERROR, MSG_ASYNC}" "\<not> too_large ?c"
    "on_wire (cmd_msgType ?c, crlf ''<R:OK'') (crlf ''<R:OK'')"
    using reset_answer by (simp_all add: too_large_def carries_data_def constructCommand_def)
  have "\<not> receptionStopped sample_object_Win" by (simp add: sample_object_Win_def)
  from old_response_taken_Win [OF sample_object_Win_good this c] show ?thesis
    by (fastforce simp: crlf_def)
qed

end
