(* ===== verification/Destruction.thy ===== *)
theory Destruction
  imports Linux_Client Windows_Client
begin

text \<open>
  The destructor of \<open>CDCImplPrivate\<close>: it signals \<open>readEndEvent\<close> and joins the reading thread before
  it closes the events and the port. On Linux the thread looks at the signal in every round; on
  Windows only when a read has to wait, so a device that goes on sending keeps it from ending.
\<close>

definition all_closed :: "'a handle impl \<Rightarrow> bool" where
  "all_closed s \<longleftrightarrow>
     newMsgEvent s = Closed \<and> readStartEvent s = Closed \<and> readEndEvent s = Closed \<and>
     readEndResponse s = Closed \<and> portHandle s = Closed"

text \<open>\<open>destroy\<close> returns exactly when the thread has returned.\<close>

lemma destroy_joined:
  assumes "set_ev (readEndEvent s) = Inr ev" and "joined (s\<lparr>readEndEvent := ev\<rparr>) = (Returned n, t)"
    and "\<And>e. destroy_ev e = Closed" and "\<And>h. close h = Closed"
  obtains s' where "destroy joined set_ev destroy_ev close s = (Inr (), s')" and "all_closed s'"
  using assms by (simp add: destroy_def all_closed_def Let_def)

lemma destroy_blocked:
  assumes "set_ev (readEndEvent s) = Inr ev" and "joined (s\<lparr>readEndEvent := ev\<rparr>) = (Reading b, t)"
  shows "destroy joined set_ev destroy_ev close s = (Inl NotReturned, t)"
  using assms by (simp add: destroy_def)

lemma good_object_end_event [simp]:
  "good_object s \<Longrightarrow> is_open (newMsgEvent (s\<lparr>readEndEvent := ev\<rparr>)) \<and> parser_ok (msgParser (s\<lparr>readEndEvent := ev\<rparr>))"
  by (simp add: good_object_def)

section \<open>Linux\<close>

text \<open>
  What \<open>select\<close> without a time limit reports once \<open>readEndEvent\<close> has been signalled, which
  nobody takes back: an error, or that descriptor among others.
\<close>

definition reports_end :: "read_round \<Rightarrow> bool" where
  "reports_end w \<longleftrightarrow> waitResult w = - 1 \<or> waitResult w \<noteq> 0 \<and> end_ready w"

lemma reader_step_ends:
  assumes "is_open (newMsgEvent s)" and "parser_ok (msgParser s)" and "reports_end w"
  obtains n t where "reader_step w buf s = (Returned n, t)"
proof -
  obtain r b u where r: "reader_round w buf s = (r, b, u)" by (cases "reader_round w buf s") auto
  show thesis
  proof (cases r)
    case (Inl e)
    with reader_round_safe [OF assms(1,2) r] have "is_thrown CDCReceiveException e" by simp
    from caught_receive [OF this, of u] that r Inl show thesis by (auto simp: reader_step_def)
  next
    case (Inr run)
    with r assms(3) have "\<not> run"
      by (auto simp: reader_round_def reports_end_def split: if_splits prod.splits sum.splits)
    with r Inr that show thesis by (simp add: reader_step_def)
  qed
qed

section \<open>Windows\<close>

text \<open>
  Waiting for a character with the end signalled: it returns at once, the operation is finished,
  or the wait reports the signal; the reading loop is entered in any case.
\<close>

definition comm_passes :: "comm_round \<Rightarrow> bool" where
  "comm_passes c \<longleftrightarrow> WaitCommEvent_result c \<or>
     comm_error c = ERROR_IO_PENDING \<and> (comm_wait c = END_OBJECT \<or> comm_wait c = READ_OBJECT \<and> comm_overlapped c)"

text \<open>A read that brings a byte at once or while it is waited for, and one that does not.\<close>

definition busy :: "read_attempt \<Rightarrow> bool" where
  "busy a \<longleftrightarrow>
     (if ReadFile_result a then read_total a \<noteq> 0
      else read_error a = ERROR_IO_PENDING \<and> read_wait a = READ_OBJECT \<and> read_overlapped a \<and>
        overlapped_total a \<noteq> 0)"

definition quiet :: "read_attempt \<Rightarrow> bool" where
  "quiet a \<longleftrightarrow> \<not> ReadFile_result a \<and> read_error a = ERROR_IO_PENDING \<and> read_total a = 0 \<and>
     read_wait a = END_OBJECT"

lemma wait_comm_passes:
  "comm_passes c \<Longrightarrow> \<exists>r'. wait_comm c r = Inr r' \<and> fWaitingOnRead r' = fWaitingOnRead r"
  by (auto simp: comm_passes_def wait_comm_def)

lemma process_on_CR_reader:
  assumes "is_open (newMsgEvent s)" and "parser_ok (msgParser s)"
  obtains q s' where "process_on_CR r s = (Inr q, s')" and "is_open (newMsgEvent s')"
    and "parser_ok (msgParser s')" and "bytesTotal q = bytesTotal r"
proof -
  from process_on_CR_keeps [OF assms, of r] obtain q s' where
    p: "process_on_CR r s = (Inr q, s')" and k: "keeps (length (receivedBytes r)) s s'" by blast
  from p have "bytesTotal q = bytesTotal r"
    by (auto simp: process_on_CR_def split: if_splits prod.splits sum.splits)
  with p k that show thesis by (simp add: keeps_def)
qed

lemma read_body_busy:
  assumes "is_open (newMsgEvent s)" and "parser_ok (msgParser s)" and "busy a" and "\<not> fWaitingOnRead r"
  obtains q s' where "read_body a r s = (Inr q, s')" and "is_open (newMsgEvent s')"
    and "parser_ok (msgParser s')" and "bytesTotal q \<noteq> 0" and "\<not> fWaitingOnRead q"
proof (cases "ReadFile_result a")
  case True
  let ?r = "r\<lparr>bytesTotal := read_total a, byteRead := read_byte a,
    receivedBytes := receivedBytes r @ [read_byte a]\<rparr>"
  obtain q s' where "process_on_CR ?r s = (Inr q, s')" "is_open (newMsgEvent s')"
    "parser_ok (msgParser s')" "bytesTotal q = bytesTotal ?r"
    by (rule process_on_CR_reader [OF assms(1,2)])
  with True assms(3,4) that [of "q\<lparr>fWaitingOnRead := False\<rparr>" s'] show thesis
    by (simp add: read_body_def issue_read_def await_read_def busy_def Let_def)
next
  case False
  let ?r = "r\<lparr>fWaitingOnRead := True, bytesTotal := overlapped_total a, byteRead := overlapped_byte a,
    receivedBytes := receivedBytes r @ [overlapped_byte a]\<rparr>"
  obtain q s' where "process_on_CR ?r s = (Inr q, s')" "is_open (newMsgEvent s')"
    "parser_ok (msgParser s')" "bytesTotal q = bytesTotal ?r"
    by (rule process_on_CR_reader [OF assms(1,2)])
  with False assms(3,4) that [of "q\<lparr>fWaitingOnRead := False\<rparr>" s'] show thesis
    by (simp add: read_body_def issue_read_def await_read_def busy_def Let_def)
qed

lemma read_body_quiet:
  "quiet a \<Longrightarrow> \<not> fWaitingOnRead r \<Longrightarrow>
     read_body a r s = (Inr (r\<lparr>bytesTotal := 0, fWaitingOnRead := True, running := False\<rparr>), s)"
  by (simp add: quiet_def read_body_def issue_read_def await_read_def)

lemma reading_loop_busy:
  "is_open (newMsgEvent s) \<Longrightarrow> parser_ok (msgParser s) \<Longrightarrow> \<forall>a \<in> set as. busy a \<Longrightarrow>
   \<not> fWaitingOnRead r \<Longrightarrow>
   \<exists>q s'. is_open (newMsgEvent s') \<and> parser_ok (msgParser s') \<and> \<not> fWaitingOnRead q \<and>
     (\<forall>bs. reading_loop (as @ bs) r s = reading_loop bs q s')"
proof (induction as arbitrary: r s)
  case (Cons a as)
  obtain q s1 where "read_body a r s = (Inr q, s1)" "bytesTotal q \<noteq> 0"
    and q: "is_open (newMsgEvent s1)" "parser_ok (msgParser s1)" "\<not> fWaitingOnRead q"
    by (rule read_body_busy [OF Cons.prems(1,2) _ Cons.prems(4), of a]) (use Cons.prems(3) in auto)
  with Cons.IH [OF q(1,2) _ q(3)] Cons.prems(3) show ?case by simp
qed auto

lemma running_loop_busy:
  assumes "is_open (newMsgEvent s)" and "parser_ok (msgParser s)" and "idle r" and "comm_passes c"
    and "\<forall>a \<in> set as. busy a"
  shows "\<exists>b t. running_loop [(c, as)] r s = (Reading b, t)"
    and "quiet a \<Longrightarrow> \<exists>t. running_loop ((c, as @ [a]) # cs) r s = (Returned 0, t)"
proof -
  from assms(3) have r: "running r" "\<not> fWaitingOnRead r" by (simp_all add: idle_def)
  obtain r1 where r1: "wait_comm c r = Inr r1" "\<not> fWaitingOnRead r1"
    using wait_comm_passes [OF assms(4), of r] r(2) by auto
  from reading_loop_busy [OF assms(1,2,5) r1(2)] obtain q t where
    q: "\<not> fWaitingOnRead q" "\<And>bs. reading_loop (as @ bs) r1 s = reading_loop bs q t" by blast
  from q(2) [of "[]"] have "reading_loop as r1 s = (Inr (False, q), t)" by simp
  with r(1) r1(1) show "\<exists>b t. running_loop [(c, as)] r s = (Reading b, t)" by simp
  assume "quiet a"
  with q(2) [of "[a]"] read_body_quiet [OF _ q(1)] have
    "reading_loop (as @ [a]) r1 s =
       (Inr (True, q\<lparr>bytesTotal := 0, fWaitingOnRead := True, running := False\<rparr>), t)" by simp
  with r(1) r1(1) show "\<exists>t. running_loop ((c, as @ [a]) # cs) r s = (Returned 0, t)"
    by (cases cs) auto
qed

section \<open>Properties\<close>

text \<open>
  C8. Nothing the device sends ends the program. For every sequence of results of its system
  calls (on Windows a start that fails included) the reading thread of either platform goes on,
  returns 0, or returns 1 after it has recorded that reception has stopped; no exception leaves its
  function. It writes nothing to the port and leaves \<open>newMsgEvent\<close> open and the parser's tables
  intact.
\<close>

theorem reading_threads_survive:
  assumes "good_object s" and "is_open (readStartEvent s)" and "good_object s'"
    and "readMsgThread_Lin script s = (st, t)" and "readMsgThread_Win w rounds s' = (st', t')"
  shows "(\<forall>e. st \<noteq> Terminated e) \<and> (\<forall>n. st = Returned n \<longrightarrow> n = 0 \<or> n = 1 \<and> receptionStopped t) \<and>
    is_open (newMsgEvent t) \<and> parser_ok (msgParser t) \<and>
    (\<forall>e. st' \<noteq> Terminated e) \<and> (\<forall>n. st' = Returned n \<longrightarrow> n = 0 \<or> n = 1 \<and> receptionStopped t') \<and>
    is_open (newMsgEvent t') \<and> parser_ok (msgParser t') \<and> portOutput t' = portOutput s'"
  using reader_never_terminates [OF _ _ assms(2,4)] reader_never_terminates_Win [OF _ _ assms(5)] assms(1,3)
  by (simp add: good_object_def)

theorem reading_threads_survive_witness:
  "\<exists>st t st' t'. readMsgThread_Lin [data_round [1, 2, 13, 62]] sample_object = (st, t) \<and>
     readMsgThread_Win \<lparr>SetCommMask_result = True, read_event_created = True, start_error = 0\<rparr>
       [arrival [1, 13], arrival [62, 13]] (fresh_object ''COM5'' (Open False)) = (st', t') \<and>
     (\<forall>e. st \<noteq> Terminated e \<and> st' \<noteq> Terminated e)"
proof -
  obtain st t where 1: "readMsgThread_Lin [data_round [1, 2, 13, 62]] sample_object = (st, t)" by fastforce
  obtain st' t' where 2: "readMsgThread_Win \<lparr>SetCommMask_result = True, read_event_created = True, start_error = 0\<rparr>
      [arrival [1, 13], arrival [62, 13]] (fresh_object ''COM5'' (Open False)) = (st', t')" by fastforce
  have "is_open (readStartEvent sample_object)" by (simp add: sample_object_ok)
  from reading_threads_survive [OF sample_object_good this good_fresh_object 1 2] 1 2 show ?thesis by blast
qed

text \<open>
  C18. On Linux an object can always be deleted. Whether the reading thread has ended or has
  collected any bytes, and whatever arrives meanwhile: once the destructor has signalled the end,
  the thread returns in its next round, the destructor returns, and all events and the port are
  closed.
\<close>

theorem destructor_returns:
  assumes "good_object s" and "reports_end w"
  shows "\<exists>s'. destroy (joined_Lin returned buf (w # ws)) setMyEvent_Lin destroyMyEvent_Lin closePort_Lin s =
    (Inr (), s') \<and> all_closed s'"
proof -
  from assms(1) obtain k where k: "setMyEvent_Lin (readEndEvent s) = Inr (Open k)"
    by (auto simp: good_object_def elim!: is_openE)
  let ?s = "s\<lparr>readEndEvent := Open k\<rparr>"
  obtain n t where "joined_Lin returned buf (w # ws) ?s = (Returned n, t)"
  proof (cases returned)
    case None
    obtain n t where "reader_step w buf ?s = (Returned n, t)"
      by (rule reader_step_ends [of ?s w buf]) (use assms in \<open>simp_all add: good_object_def\<close>)
    with None that show thesis by (simp add: joined_Lin_def)
  qed (auto simp: joined_Lin_def intro: that)
  from destroy_joined [where set_ev = setMyEvent_Lin and joined = "joined_Lin returned buf (w # ws)"
      and destroy_ev = destroyMyEvent_Lin and close = closePort_Lin, OF k this]
  show ?thesis by (metis destroyMyEvent_Lin_def closePort_Lin_def)
qed

theorem destructor_returns_witness:
  "\<exists>s'. destroy (joined_Lin None [60]
      [\<lparr>waitResult = 2, wait_errno = 0, port_ready = True, end_ready = True, read_of = ReadBytes [79, 75]\<rparr>])
    setMyEvent_Lin destroyMyEvent_Lin closePort_Lin sample_object = (Inr (), s') \<and> all_closed s'"
  by (rule destructor_returns [OF sample_object_good]) (simp add: reports_end_def)

text \<open>
  C19. On Windows a device that does not stop keeps the object alive. The thread looks at
  \<open>readEndEvent\<close> only when a read has to wait, and there a finished read comes first: as long as
  every read brings a byte, however many there are, the destructor is still in \<open>join\<close>, also when
  the wait for a character before has reported the signal. The first read that has to wait ends
  the thread; then the destructor returns with everything closed.
\<close>

theorem destructor_waits_for_silence:
  assumes "good_object s" and "idle r" and "comm_passes c" and "\<forall>a \<in> set as. busy a" and "quiet a"
  shows "fst (destroy (joined_Win None r [(c, as)]) setMyEvent_Win destroyMyEvent_Win closePort_Win s) =
      Inl NotReturned \<and>
    (\<exists>s'. destroy (joined_Win None r ((c, as @ [a]) # cs)) setMyEvent_Win destroyMyEvent_Win closePort_Win s =
      (Inr (), s') \<and> all_closed s')"
proof -
  from assms(1) obtain k where k: "setMyEvent_Win (readEndEvent s) = Inr (Open k)"
    by (auto simp: good_object_def elim!: is_openE)
  let ?s = "s\<lparr>readEndEvent := Open k\<rparr>"
  have s: "is_open (newMsgEvent ?s)" "parser_ok (msgParser ?s)"
    using assms(1) by (simp_all add: good_object_def)
  obtain b t where "joined_Win None r [(c, as)] ?s = (Reading b, t)"
    using running_loop_busy(1) [OF s assms(2-4)] by (auto simp: joined_Win_def)
  note blocked = destroy_blocked [where set_ev = setMyEvent_Win and joined = "joined_Win None r [(c, as)]", OF k this]
  obtain u where "joined_Win None r ((c, as @ [a]) # cs) ?s = (Returned 0, u)"
    using running_loop_busy(2) [OF s assms(2-5)] by (auto simp: joined_Win_def)
  from destroy_joined [where set_ev = setMyEvent_Win and joined = "joined_Win None r ((c, as @ [a]) # cs)"
      and destroy_ev = destroyMyEvent_Win and close = closePort_Win, OF k this]
  show ?thesis using blocked by (metis destroyMyEvent_Win_def closePort_Win_def fst_conv)
qed

theorem destructor_waits_for_silence_witness:
  "\<exists>c a s. fst (destroy (joined_Win None initial_reader [(c, replicate 1000 a)])
     setMyEvent_Win destroyMyEvent_Win closePort_Win s) = Inl NotReturned"
proof -
  let ?s = "fresh_object ''COM5'' (Open False)"
  define c where "c = \<lparr>WaitCommEvent_result = False, comm_error = ERROR_IO_PENDING, comm_wait = END_OBJECT,
    comm_overlapped = False, comm_total = 0\<rparr>"
  define a where "a = \<lparr>ReadFile_result = True, read_error = 0, read_total = 1, read_byte = 60,
    read_wait = END_OBJECT, read_overlapped = False, overlapped_total = 0, overlapped_byte = 0\<rparr>"
  define q where "q = \<lparr>ReadFile_result = False, read_error = ERROR_IO_PENDING, read_total = 0, read_byte = 0,
    read_wait = END_OBJECT, read_overlapped = False, overlapped_total = 0, overlapped_byte = 0\<rparr>"
  have "idle initial_reader" by (simp add: idle_def initial_reader_def)
  moreover have "comm_passes c" by (simp add: comm_passes_def c_def)
  moreover have "\<forall>x \<in> set (replicate 1000 a). busy x" by (simp add: busy_def a_def)
  moreover have "quiet q" by (simp add: quiet_def q_def)
  ultimately show ?thesis
    using destructor_waits_for_silence [OF good_fresh_object, of initial_reader c "replicate 1000 a" q "''COM5''" False]
    by blast
qed

end
