(* ===== verification/Spec2Isabelle.thy ===== *)
theory Spec2Isabelle
  imports Interface_Outcomes Pgm_Hex_Safe Program_Runs Java_Methods Session_Runs Destruction
begin

text \<open>
  Verification of \<open>clibcdc\<close>, the library through which a client speaks to an IQRF gateway on a
  USB CDC serial port, of the programs under \<open>src/examples\<close> and of the Java binding.

  \<^bold>\<open>The program.\<close>
  A client calls a method of \<open>CDCImpl\<close> (\<open>src/CDCImpl.cpp\<close>). It constructs a command, puts it into
  the transmit buffer and writes it to the port (\<open>src/CDCImpl_Lin.cpp\<close> or \<open>src/CDCImpl_Win.cpp\<close>),
  then waits for the event \<open>newMsgEvent\<close>. A second thread, \<open>readMsgThread\<close>, appends what the port
  delivers to a buffer and takes messages from its front with \<open>CDCMessageParser\<close>
  (\<open>src/CDCMessageParser.cpp\<close>): asynchronous messages go to the registered listener, any other
  message becomes \<open>lastResponse\<close>, and \<open>newMsgEvent\<close> is set. The client then compares the type of
  \<open>lastResponse\<close> with its command and decodes the message. Every failure is a \<open>CDCSendException\<close>
  or a \<open>CDCReceiveException\<close>; an exception in the reading thread stops the reception. The destructor
  signals \<open>readEndEvent\<close>, joins the thread and closes the events and the port.

  \<^bold>\<open>Theories and code.\<close>
  \<^item> \<open>Cdc_Prelude\<close>: bytes, \<open>std::basic_string\<close>, maps and sets, results of type \<open>'e + 'a\<close> and their
    sequencing \<open>bindE\<close>, the collection \<open>cdc_defs\<close>. \<open>Cdc_Exceptions\<close>: \<open>src/CDC*Exception.cpp\<close>.
    \<open>Cdc_Types\<close>: \<open>include/CDCTypes.h\<close>, \<open>include/CdcInterface.h\<close>, \<open>include/CDCMessageParser.h\<close>.
  \<^item> \<open>Parser_Tables\<close>, \<open>Parser_Special\<close>, \<open>Parser\<close>: the private parser with its maps of states and of
    transitions and its sets of final and special states, filled by the code's insertions, the
    functions for special states and the loop \<open>parseData\<close>. \<open>Decoders\<close>: the functions
    \<open>getParsed*\<close>.
  \<^item> \<open>Message_Events\<close>: the events of both platforms. \<open>Impl_State\<close>: the object \<open>CDCImplPrivate\<close> as a
    record over the type of its events. \<open>Framing\<close>: \<open>parseNextMessage\<close>, \<open>processMessage\<close>,
    \<open>processAllMessages\<close>. \<open>Commands\<close>: \<open>constructCommand\<close>, \<open>commandToBuffer\<close> and the checks of upload and
    download. \<open>Api\<close>: \<open>processCommand\<close>, every method of \<open>CDCImpl\<close>, construction and destruction, over
    a record of the platform's functions.
  \<^item> \<open>Linux_Port\<close>, \<open>Windows_Port\<close>: opening and closing the port, sending, the reading thread.
    \<open>Linux_Client\<close>, \<open>Windows_Client\<close>: the methods of \<open>Api\<close> on each platform. \<open>Interface_Outcomes\<close>: how
    all of them end. \<open>Destruction\<close>: the destructor with the reading thread of each platform.
  \<^item> \<open>Session\<close>: the client's thread, with its decoders, and the reading thread as interleaved steps, up
    to the destruction of the object. \<open>Session_Order\<close>: a device that answers a command once and in
    time. \<open>Session_Answer\<close>: the steps around one answer. \<open>Session_Runs\<close>: the two platforms.
  \<^item> \<open>Hex_File\<close>, \<open>Pgm_Hex\<close>, \<open>Plugin_File\<close>: the files that the programmers read. \<open>Programs\<close>: what all
    programs share. \<open>Pgm_Programs\<close>: \<open>PgmHex\<close>, \<open>PgmIqrf\<close>, \<open>PgmTrcnfg\<close>. \<open>Read_Programs\<close>: \<open>ReadMemory\<close>,
    \<open>ReadTemperature\<close>, \<open>ReadTrIdf\<close>. \<open>Client_Environments\<close>: the library as the programs see it.
  \<^item> \<open>Java_Stub\<close>: the native methods of \<open>cdc_javastub/CDCLib_JavaStub.cpp\<close>.

  \<^bold>\<open>State and effects.\<close>
  Operations take the record of their state and return it with a result, an exception
  (\<open>thrown\<close>) or a value. \<open>thrown\<close> has the library's exceptions, those of the standard library that
  the code can raise, undefined behaviour of an access outside an array, and \<open>NotReturned\<close> for a
  call of the system that does not come back. What the system does is an argument: a script of
  results for \<open>select\<close>, \<open>write\<close>, \<open>read\<close> or their Windows counterparts, one entry for each round of a
  loop; a theorem over all scripts is one over all behaviours of the system and the device.
  There are three models of the two threads. In the sequential one (\<open>linux_platform\<close>,
  \<open>windows_platform\<close>) the reading thread works between sending and the end of the wait; the programs
  and the Java binding are stated over it or over any platform. In \<open>linux_concurrent\<close> and
  \<open>windows_concurrent\<close> it also works between the end of the wait, the look at the type of the
  response and the decoding (\<open>woken_of\<close>, \<open>checked_of\<close>), and the wait may fail with an error of the
  system. The interleavings of theory \<open>Session\<close> have a step for each access to \<open>lastResponse\<close> and to
  the events. A handle of the system is \<open>Open\<close> or \<open>Closed\<close>. The programs run in a world that records
  their requests to the library, their output and whether the object has been deleted; the object
  they construct lies in memory without the word 97 behind an array of the parser (\<open>calm\<close>).

  \<^bold>\<open>Interfaces.\<close>
  \<open>message_parser\<close> (what framing needs of a parser, provided by \<open>parseData\<close>); \<open>message_event\<close> with
  its extensions \<open>consuming_event\<close> (Linux: waiting takes the signal back) and \<open>clearing_event\<close>
  (Windows: sending clears it); \<open>command_channel\<close> (what the methods of the interface need of a
  platform, provided by \<open>linux_platform\<close> and \<open>windows_platform\<close>, and by the concurrent ones); \<open>two_threads\<close> (what an interleaving
  needs, provided by \<open>linux_threads\<close> and \<open>windows_threads\<close>); \<open>program_environment\<close> (what the programs
  need of the library, provided by \<open>linux_environment\<close> and \<open>windows_environment\<close>).
\<close>

text \<open>
  \<^bold>\<open>What is shown.\<close>
  \<^item> The parser (\<open>Parser_Grammar\<close>, \<open>Parser_Correct\<close>, \<open>Parser_Prefix\<close>): \<open>frame n T m\<close> is the language of
    the messages, without states; \<open>parseData\<close> accepts exactly this language, always ends, keeps its
    tables and never looks up a missing entry; no buffer begins with two messages; a proper part of
    a self-delimiting message is incomplete. Decoding returns what was encoded, and every message
    that is found decodes.
  \<^item> Framing (\<open>Framing\<close>, \<open>Framing_Stream\<close>): \<open>processAllMessages\<close> refines the relation \<open>framed\<close> together with
    \<open>absorb\<close>, the effect of one message; a stream of self-delimiting messages, cut in any way, is
    delivered in order and once.
  \<^item> The ports: what is written is a part of the command, all of it on success; the reading thread
    survives every behaviour of the system and keeps the invariants; the options of the port.
  \<^item> The interface (\<open>Api\<close>, the clients and \<open>Interface_Outcomes\<close>): from a good object every method, with
    its overloads on pointers, ends in a value or a documented exception and leaves a good object, as
    long as no response is stored between the look at the type and the decoding; the single answer to
    a command is returned, and on Linux a late one is returned to the next command; a constructed
    object is good unless one of the words that the parser reads behind an array is 97.
  \<^item> Two threads (\<open>Session\<close>, \<open>Session_Order\<close>, \<open>Session_Answer\<close>, \<open>Session_Runs\<close>): an invariant of all
    interleavings, with any device and failing calls of the system, up to destruction, in which decoders
    may fail; a stronger one, in which they do not, when the device answers a command once and in
    time; the single answer to a command, and nothing else, reaches its client in every order of the
    steps, and no signal is lost; on Windows no response is taken that has been delivered before the call. And what goes wrong otherwise, as
    interleavings: a second response is given to the decoder of the first, and an old one that is
    being delivered is taken although the event is cleared.
  \<^item> Destruction (\<open>Destruction\<close>): no exception leaves the reading thread, so joining it never
    terminates the program; the Linux destructor returns once \<open>select\<close> has reported the end event; the
    Windows one waits for as long as every read brings a byte at once.
  \<^item> The programs (\<open>Pgm_Hex_Correct\<close>, \<open>Pgm_Hex_Safe\<close>, \<open>Plugin_File\<close>, \<open>Program_Runs\<close>): what is uploaded for a
    file and which files lead outside an array; the requests of each program in order, and that
    every run ends with an exit code and the object deleted.
  \<^item> The Java binding (\<open>Java_Methods\<close>): each method against the library's method of the same name, and
    where it reads through a null pointer.

  \<^bold>\<open>Bounds and fuel.\<close>
  Positions in a buffer are \<open>nat\<close> where the parser has \<open>unsigned int\<close> (buffers below \<open>2 ^ 32\<close> bytes);
  the decoders compute with \<open>size_t\<close> as \<open>64 word\<close>, wrap-around and \<open>npos\<close> included; theorems that depend
  on a width say so. \<open>messageEnd\<close> on Linux is an \<open>int\<close>, hence the bound of \<open>2 ^ 31\<close> bytes for
  what is collected at once; allocations fail from \<open>2 ^ 63\<close> bytes, hence \<open>2 ^ 62\<close> for a message. Loops of
  the code are structural over a script or a list, or end by a measure (the bytes left in the
  buffer, the rest of the file); none has fuel. A script that is too short stands for a call that
  does not return (\<open>NotReturned\<close>), and liveness has its own theorem (\<open>command_written_eventually\<close>).
  A hex line with a count of at most 60 fits into the line buffer; \<open>hex_memory_safe\<close> shows that this
  is enough for all arrays. The sessions of theory \<open>Session_Order\<close> collect less than \<open>2 ^ 62\<close> bytes,
  those of \<open>Session_Answer\<close> less than \<open>2 ^ 31\<close>.

  \<^bold>\<open>Not modelled.\<close>
  \<open>printCommState\<close> and
  \<open>printTimeouts\<close> print for debugging and are not called; \<open>convertToWideChars\<close> belongs to the
  \<open>_UNICODE\<close> build, which does not compile. The log file at the end of \<open>CDCImpl.cpp\<close> is commented out,
  as is most debug output. \<open>fclose\<close>, the pauses between requests and the release of memory have no effect
  here, so leaks and mismatched \<open>delete\<close> are findings without a theorem. The bodies of listeners are
  the user's: a call with its bytes is recorded. The functions of the Java native interface are
  parameters that say which of them succeed
  (\<open>MyFindClass\<close>, three of their calls, is one look-up). The sessions have one client thread: calls
  from several threads at once are not described. Reads of single shared words are atomic; tearing of a
  \<open>std::basic_string\<close> while it is assigned, undefined behaviour in C++, is not described further than
  the two assignments of \<open>lastResponse\<close>.
\<close>

end
